(* ===== verification/KshPrelude.thy ===== *)
theory KshPrelude
  imports Main "HOL-Library.Word"
begin

unbundle bit_operations_syntax

text \<open>
  What the components share: the names of the machine types, the C conventions for truth values
  and zero-terminated strings, and small facts about words and lists.  The collection
  \<open>cval_simps\<close> holds the equations that evaluate C conditions.
\<close>

named_theorems cval_simps

text \<open>Machine types on the LP64 targets the build supports.\<close>

type_synonym byte = "8 word"
type_synonym cint = "32 word"
type_synonym clong = "64 word"

text \<open>A C expression used as a truth value: non-zero is true, and a comparison yields 0 or 1.\<close>

definition cbool :: "bool \<Rightarrow> int" where
  "cbool b = (if b then 1 else 0)"

lemma cbool_simps [simp, cval_simps]:
  "cbool True = 1" "cbool False = 0" "(cbool b = 0) = (\<not> b)" "(cbool b = 1) = b"
  "(cbool b \<noteq> 0) = b" "cbool a = cbool b \<longleftrightarrow> a = b"
  by (auto simp: cbool_def)

text \<open>The bytes of a buffer seen as a C string: everything before the first NUL.\<close>

definition cstr :: "byte list \<Rightarrow> byte list" where
  "cstr bs = takeWhile (\<lambda>b. b \<noteq> 0) bs"

lemma cstr_id [simp]: "0 \<notin> set bs \<Longrightarrow> cstr bs = bs"
  unfolding cstr_def by (induction bs) auto

lemma cstr_no_nul [simp]: "0 \<notin> set (cstr bs)"
  unfolding cstr_def by (induction bs) auto

lemma cstr_Nil [simp]: "cstr [] = []"
  by (simp add: cstr_def)

lemma cstr_zero [simp]: "cstr (0 # bs) = []"
  by (simp add: cstr_def)

text \<open>Character and string literals.\<close>

definition chr :: "char \<Rightarrow> byte" where "chr c = of_nat (of_char c)"

definition str :: "string \<Rightarrow> byte list" where "str s = map chr s"

text \<open>The C library's comparison of strings, by the bytes as \<open>unsigned char\<close>.\<close>

fun strcmp :: "byte list \<Rightarrow> byte list \<Rightarrow> int" where
  "strcmp [] [] = 0"
| "strcmp [] (b # bs) = -1"
| "strcmp (a # as) [] = 1"
| "strcmp (a # as) (b # bs) = (if a = b then strcmp as bs else uint a - uint b)"

lemma strcmp_same [simp]: "strcmp a a = 0"
  by (induction a) auto

lemma strcmp_eq: "strcmp a b = 0 \<longleftrightarrow> a = b"
  by (induction a b rule: strcmp.induct) (auto simp: word_uint_eq_iff)

lemma strcmp_flip: "strcmp a b < 0 \<longleftrightarrow> 0 < strcmp b a"
  by (induction a b rule: strcmp.induct) auto

lemma strcmp_trans: "strcmp a b \<le> 0 \<Longrightarrow> strcmp b c \<le> 0 \<Longrightarrow> strcmp a c \<le> 0"
proof (induction a b arbitrary: c rule: strcmp.induct)
  case (4 a as b bs)
  then show ?case by (cases c) (auto simp: word_uint_eq_iff split: if_splits)
next
  case (1)
  then show ?case by simp
next
  case (2 b bs)
  then show ?case by (cases c) auto
next
  case (3 a as)
  then show ?case by simp
qed

text \<open>Widening and narrowing between \<open>int\<close> and \<open>long\<close>.\<close>

lemma ucast_scast_cint [simp]: "ucast (scast (x :: cint) :: clong) = x"
  by (rule bit_word_eqI) (simp add: bit_word_ucast_iff bit_word_scast_iff)

text \<open>The masks and single bits of the code as the library's \<open>mask\<close> and \<open>push_bit\<close>.\<close>

lemma mask_literals:
  "(127 :: clong) = mask 7" "(63 :: clong) = mask 6" "(127 :: byte) = mask 7" "(63 :: byte) = mask 6"
  by (simp_all add: mask_eq_exp_minus_1)

lemma bit_flag_literals [simp]:
  "bit (128 :: nat) n \<longleftrightarrow> n = 7" "bit (64 :: nat) n \<longleftrightarrow> n = 6"
  "bit (128 :: int) n \<longleftrightarrow> n = 7" "bit (64 :: int) n \<longleftrightarrow> n = 6"
proof -
  have "bit (push_bit 7 1 :: nat) n \<longleftrightarrow> n = 7" "bit (push_bit 6 1 :: nat) n \<longleftrightarrow> n = 6"
    "bit (push_bit 7 1 :: int) n \<longleftrightarrow> n = 7" "bit (push_bit 6 1 :: int) n \<longleftrightarrow> n = 6"
    by (simp_all only: bit_push_bit_iff bit_1_iff) auto
  then show "bit (128 :: nat) n \<longleftrightarrow> n = 7" "bit (64 :: nat) n \<longleftrightarrow> n = 6"
    "bit (128 :: int) n \<longleftrightarrow> n = 7" "bit (64 :: int) n \<longleftrightarrow> n = 6"
    by simp_all
qed

lemma word_split_or:
  fixes v :: "'a::len word"
  shows "push_bit n (drop_bit n v) OR (v AND mask n) = v"
  by (rule bit_word_eqI) (auto simp: bit_simps)

end
