(* ===== verification/ShNodes.thy ===== *)
theory ShNodes
  imports KshPrelude
begin

text \<open>
  The shell's parse tree: \<open>include/shnodes.h\<close> and \<open>include/argnod.h\<close> of \<open>src/src/cmd/ksh26\<close>.
  The C type is a union of structures tagged by the bits \<open>COMMSK\<close> of \<open>tretyp\<close>; the union member
  is the constructor here, and \<open>wf_*\<close> says that the tag agrees with it.  A null pointer is the
  constant constructor of each type.  Three things are type parameters, because only their use and
  not their representation concerns the tree: where the text of a here-document is (\<open>'d\<close>), the
  name-table entry cached for a command (\<open>'n\<close>) and a compiled arithmetic expression (\<open>'a\<close>).
\<close>

section \<open>Node types\<close>

datatype ('d, 'n, 'a) shnode =
    NullT
  | ParNod cint "('d, 'n, 'a) shnode"
      \<comment> \<open>partyp, partre\<close>
  | ComNod cint "('d, 'n, 'a) ionod" "('d, 'n, 'a) comarg" "('d, 'n, 'a) argnod" 'n cint
      \<comment> \<open>comtyp, comio, comarg, comset, comnamp, comline\<close>
  | ForkNod cint "('d, 'n, 'a) ionod" "('d, 'n, 'a) shnode" cint
      \<comment> \<open>forktyp, forkio, forktre, forkline\<close>
  | IfNod cint "('d, 'n, 'a) shnode" "('d, 'n, 'a) shnode" "('d, 'n, 'a) shnode"
      \<comment> \<open>iftyp, iftre, thtre, eltre\<close>
  | WhNod cint "('d, 'n, 'a) shnode" "('d, 'n, 'a) shnode" "('d, 'n, 'a) shnode"
      \<comment> \<open>whtyp, whtre, dotre, whinc\<close>
  | LstNod cint "('d, 'n, 'a) shnode" "('d, 'n, 'a) shnode"
      \<comment> \<open>lsttyp, lstlef, lstrit\<close>
  | ArithNod cint cint "('d, 'n, 'a) argnod" 'a
      \<comment> \<open>artyp, arline, arexpr, arcomp\<close>
  | ForNod cint "byte list option" "('d, 'n, 'a) shnode" "('d, 'n, 'a) shnode" cint
      \<comment> \<open>fortyp, fornam, fortre, forlst, forline\<close>
  | SwNod cint "('d, 'n, 'a) argnod" "('d, 'n, 'a) regnod" "('d, 'n, 'a) ionod" cint
      \<comment> \<open>swtyp, swarg, swlst, swio, swline\<close>
  | FunctNod cint "byte list option" "('d, 'n, 'a) shnode" cint "('d, 'n, 'a) shnode"
      \<comment> \<open>functtyp, functnam, functtre, functline, functargs\<close>
  | TstParNod cint "('d, 'n, 'a) shnode" cint
      \<comment> \<open>tsttyp, tstlst.lstlef as a tree, tstline\<close>
  | TstNod cint "('d, 'n, 'a) argnod" "('d, 'n, 'a) argnod" cint
      \<comment> \<open>tsttyp, tstlst.lstlef and tstlst.lstrit as words, tstline\<close>
and ('d, 'n, 'a) argnod =
    ArgNil
  | ArgNod byte "byte list" "('d, 'n, 'a) argchn" "('d, 'n, 'a) argnod"
      \<comment> \<open>argflag, argval, argchn, argnxt\<close>
and ('d, 'n, 'a) argchn =
    ChnNil
  | ChnTree "('d, 'n, 'a) shnode"
      \<comment> \<open>the tree of a process substitution\<close>
  | ChnFor cint "byte list" "('d, 'n, 'a) shnode"
      \<comment> \<open>fortyp, fornam, fortre of a compound assignment\<close>
and ('d, 'n, 'a) ionod =
    IoNil
  | IoNod cint "('d, 'n, 'a) ioname" "(byte list \<times> 'd) option" "byte list option"
      "('d, 'n, 'a) ionod"
      \<comment> \<open>iofile, ioname, iodelim with the text's place, iovname, ionxt\<close>
and ('d, 'n, 'a) ioname =
    IoStr "byte list option"
  | IoTree "('d, 'n, 'a) shnode"
and ('d, 'n, 'a) comarg =
    ComNone
  | ComAp "('d, 'n, 'a) argnod"
  | ComDp cint "byte list list"
      \<comment> \<open>dolnum and the strings from dolval[ARG_SPARE] on\<close>
and ('d, 'n, 'a) regnod =
    RegNil
  | RegNod byte "('d, 'n, 'a) argnod" "('d, 'n, 'a) shnode" "('d, 'n, 'a) regnod"
      \<comment> \<open>regflag, regptr, regcom, regnxt\<close>

section \<open>Tags and flags\<close>

definition COMMSK :: cint where "COMMSK = 15"
definition COMSCAN :: cint where "COMSCAN = 16"
definition FLINENO :: cint where "FLINENO = 64"
definition TBINARY :: cint where "TBINARY = 32"
definition TUNARY :: cint where "TUNARY = 64"
definition TPAREN :: cint where "TPAREN = 96"

definition TCOM :: cint where "TCOM = 0"
definition TPAR :: cint where "TPAR = 1"
definition TFIL :: cint where "TFIL = 2"
definition TLST :: cint where "TLST = 3"
definition TIF :: cint where "TIF = 4"
definition TWH :: cint where "TWH = 5"
definition TTST :: cint where "TTST = 6"
definition TSW :: cint where "TSW = 7"
definition TAND :: cint where "TAND = 8"
definition TORF :: cint where "TORF = 9"
definition TFORK :: cint where "TFORK = 10"
definition TFOR :: cint where "TFOR = 11"
definition TARITH :: cint where "TARITH = 12"
definition TTIME :: cint where "TTIME = 13"
definition TSETIO :: cint where "TSETIO = 14"
definition TFUN :: cint where "TFUN = 15"

lemmas tag_defs = COMMSK_def TCOM_def TPAR_def TFIL_def TLST_def TIF_def TWH_def TTST_def TSW_def
  TAND_def TORF_def TFORK_def TFOR_def TARITH_def TTIME_def TSETIO_def TFUN_def

definition ARG_RAW :: byte where "ARG_RAW = 1"
definition ARG_EXP :: byte where "ARG_EXP = 8"
definition ARG_ARRAY :: byte where "ARG_ARRAY = 2"
definition ARG_QUOTED :: byte where "ARG_QUOTED = 32"
definition ARG_MESSAGE :: byte where "ARG_MESSAGE = 64"
definition ARG_APPEND :: byte where "ARG_APPEND = 128"

definition IOVNM :: cint where "IOVNM = 0x10000"
definition IOLSEEK :: cint where "IOLSEEK = 0x20000"
definition IOPROCSUB :: cint where "IOPROCSUB = 0x40000"

text \<open>The test \<open>(f & IOPROCSUB) && !(f & IOLSEEK)\<close>: the redirection names a process substitution.\<close>

definition io_is_tree :: "cint \<Rightarrow> bool" where
  "io_is_tree f \<longleftrightarrow> f AND IOPROCSUB \<noteq> 0 \<and> f AND IOLSEEK = 0"

text \<open>
  An argument whose text is empty and that has no flag besides the four below is a compound
  assignment: its chain field holds the \<open>fornod\<close> with the name and the body.
\<close>

definition arg_plain_flags :: "byte \<Rightarrow> bool" where
  "arg_plain_flags fl \<longleftrightarrow> fl AND NOT (ARG_APPEND OR ARG_MESSAGE OR ARG_QUOTED OR ARG_ARRAY) = 0"

section \<open>Well-formed trees\<close>

text \<open>
  What the parser guarantees of the trees it builds: tags agree with union members, the line-number
  flag is set on \<open>for\<close> and \<open>case\<close> nodes (\<open>parse.c\<close>, in \<open>item\<close>), the subject word of
  \<open>case\<close>, \<open>((\<close> and \<open>[[\<close> is present, text holds no NUL byte and fits an \<open>int\<close>, and a word's
  chain field is present exactly where its flags say so.
\<close>

definition wf_str :: "byte list \<Rightarrow> bool" where
  "wf_str s \<longleftrightarrow> 0 \<notin> set s \<and> length s < 2 ^ 31 - 3"

definition wf_name :: "byte list option \<Rightarrow> bool" where
  "wf_name nam \<longleftrightarrow> (case nam of None \<Rightarrow> False | Some s \<Rightarrow> wf_str s)"

definition tag_in :: "cint \<Rightarrow> cint list \<Rightarrow> bool" where
  "tag_in typ ts \<longleftrightarrow> (typ AND COMMSK) \<in> set ts \<and> 0 \<le>s typ"

primrec wf_tree :: "('d \<Rightarrow> bool) \<Rightarrow> ('d, 'n, 'a) shnode \<Rightarrow> bool"
  and wf_arg :: "('d \<Rightarrow> bool) \<Rightarrow> ('d, 'n, 'a) argnod \<Rightarrow> bool"
  and wf_chn :: "('d \<Rightarrow> bool) \<Rightarrow> byte \<Rightarrow> byte list \<Rightarrow> ('d, 'n, 'a) argchn \<Rightarrow> bool"
  and wf_io :: "('d \<Rightarrow> bool) \<Rightarrow> ('d, 'n, 'a) ionod \<Rightarrow> bool"
  and wf_ioname :: "('d \<Rightarrow> bool) \<Rightarrow> cint \<Rightarrow> ('d, 'n, 'a) ioname \<Rightarrow> bool"
  and wf_comarg :: "('d \<Rightarrow> bool) \<Rightarrow> cint \<Rightarrow> ('d, 'n, 'a) comarg \<Rightarrow> bool"
  and wf_reg :: "('d \<Rightarrow> bool) \<Rightarrow> ('d, 'n, 'a) regnod \<Rightarrow> bool" where
  "wf_tree D NullT = True"
| "wf_tree D (ParNod typ t) = (tag_in typ [TPAR, TTIME] \<and> wf_tree D t)"
| "wf_tree D (ComNod typ io arg cs np line) =
     (tag_in typ [TCOM] \<and> wf_io D io \<and> wf_comarg D typ arg \<and> wf_arg D cs)"
| "wf_tree D (ForkNod typ io t line) =
     (tag_in typ [TFORK, TSETIO] \<and> wf_io D io \<and> wf_tree D t)"
| "wf_tree D (IfNod typ c t e) =
     (tag_in typ [TIF] \<and> wf_tree D c \<and> wf_tree D t \<and> wf_tree D e)"
| "wf_tree D (WhNod typ c d i) =
     (tag_in typ [TWH] \<and> wf_tree D c \<and> wf_tree D d \<and> wf_tree D i)"
| "wf_tree D (LstNod typ l r) =
     (tag_in typ [TLST, TAND, TORF, TFIL] \<and> wf_tree D l \<and> wf_tree D r)"
| "wf_tree D (ArithNod typ line a ac) =
     (tag_in typ [TARITH] \<and> a \<noteq> ArgNil \<and> wf_arg D a)"
| "wf_tree D (ForNod typ nam t l line) =
     (tag_in typ [TFOR] \<and> typ AND FLINENO \<noteq> 0 \<and> wf_name nam \<and> wf_tree D t \<and> wf_tree D l)"
| "wf_tree D (SwNod typ a r io line) =
     (tag_in typ [TSW] \<and> typ AND FLINENO \<noteq> 0 \<and> typ AND COMSCAN = 0 \<and> io = IoNil \<and>
      wf_arg D a \<and> wf_reg D r)"
| "wf_tree D (FunctNod typ nam t line args) =
     (tag_in typ [TFUN] \<and> wf_name nam \<and> wf_tree D t \<and> wf_tree D args)"
| "wf_tree D (TstParNod typ t line) =
     (tag_in typ [TTST] \<and> typ AND TPAREN = TPAREN \<and> wf_tree D t)"
| "wf_tree D (TstNod typ l r line) =
     (tag_in typ [TTST] \<and> typ AND TPAREN \<noteq> TPAREN \<and> wf_arg D l \<and> wf_arg D r \<and>
      (typ AND TBINARY = 0 \<longrightarrow> r = ArgNil))"
| "wf_arg D ArgNil = True"
| "wf_arg D (ArgNod fl val chn nxt) = (wf_str val \<and> wf_chn D fl val chn \<and> wf_arg D nxt)"
| "wf_chn D fl val ChnNil = (val \<noteq> [] \<or> \<not> arg_plain_flags fl \<and> fl AND ARG_EXP = 0)"
| "wf_chn D fl val (ChnTree t) = (val = [] \<and> fl AND ARG_EXP \<noteq> 0 \<and> t \<noteq> NullT \<and> wf_tree D t)"
| "wf_chn D fl val (ChnFor typ nam t) =
     (val = [] \<and> arg_plain_flags fl \<and> fl AND ARG_EXP = 0 \<and> wf_str nam \<and> wf_tree D t)"
| "wf_io D IoNil = True"
| "wf_io D (IoNod f nam doc vn nxt) =
     (0 \<le>s f \<and> f AND IOVNM = 0 \<and> wf_ioname D f nam \<and>
      (case doc of None \<Rightarrow> True | Some (del, d) \<Rightarrow> wf_str del \<and> D d) \<and>
      (case vn of None \<Rightarrow> True | Some v \<Rightarrow> wf_str v) \<and> wf_io D nxt)"
| "wf_ioname D f (IoStr s) = (\<not> io_is_tree f \<and> wf_name s)"
| "wf_ioname D f (IoTree t) = (io_is_tree f \<and> wf_tree D t)"
| "wf_comarg D typ ComNone = (typ AND COMSCAN = 0)"
| "wf_comarg D typ (ComAp a) = (typ AND COMSCAN \<noteq> 0 \<and> a \<noteq> ArgNil \<and> wf_arg D a)"
| "wf_comarg D typ (ComDp n l) =
     (typ AND COMSCAN = 0 \<and> l \<noteq> [] \<and> length l < 2 ^ 31 \<and> n = of_nat (length l) \<and>
      (\<forall>s \<in> set l. wf_str s))"
| "wf_reg D RegNil = True"
| "wf_reg D (RegNod fl a t nxt) = (0 \<le>s fl \<and> wf_arg D a \<and> wf_tree D t \<and> wf_reg D nxt)"

end
