(* ===== verification/SfioNum.thy ===== *)
theory SfioNum
  imports KshPrelude
begin

text \<open>
  The portable variable-length integers of libast's sfio, used for compiled shell scripts and the
  history file: \<open>_sfputl\<close>, \<open>_sfputu\<close> (writers, \<open>src/src/lib/libast/sfio/_sfputl.c\<close> and
  \<open>_sfputu.c\<close>) and \<open>sfgetl\<close>, \<open>sfgetu\<close> (readers).  A write stream is the bytes it holds and the
  room the medium behind it still has; a read stream is the bytes not read yet.
\<close>

section \<open>Streams\<close>

record ostream =
  obytes :: "byte list"
  oroom :: nat

text \<open>
  \<open>sfwrite\<close>: all bytes when the medium takes them, otherwise the prefix that fits and its length,
  or -1 when nothing could be written.
\<close>

definition sfwrite :: "byte list \<Rightarrow> ostream \<Rightarrow> int \<times> ostream" where
  "sfwrite bs f =
     (let w = min (length bs) (oroom f);
          f' = f\<lparr>obytes := obytes f @ take w bs, oroom := oroom f - w\<rparr>
      in if w < length bs \<and> w = 0 then (-1, f') else (int w, f'))"

text \<open>\<open>sfputc\<close>: the byte written, or -1.\<close>

definition sfputc :: "byte \<Rightarrow> ostream \<Rightarrow> int \<times> ostream" where
  "sfputc c f = (let (r, f') = sfwrite [c] f in (if r < 0 then -1 else uint c, f'))"

section \<open>Writers\<close>

text \<open>\<open>SFUVALUE\<close> and \<open>SFSVALUE\<close> keep 7 and 6 bits; \<open>SFIO_MORE\<close> is bit 7, \<open>SFIO_SIGN\<close> bit 6.\<close>

definition sfuvalue :: "clong \<Rightarrow> byte" where
  "sfuvalue v = ucast (v AND 127)"

definition sfsvalue :: "clong \<Rightarrow> byte" where
  "sfsvalue v = ucast (v AND 63)"

text \<open>The loop that prepends the continuation bytes, most significant first.\<close>

lemma unat_drop7: "unat (drop_bit 7 v :: clong) = unat v div 128"
  using unat_drop_bit_eq [of 7 v] by (simp only: drop_bit_eq_div) simp

lemma drop_bit_less: "v \<noteq> 0 \<Longrightarrow> unat (drop_bit 7 v :: clong) < unat v"
  unfolding unat_drop7 by (simp add: unat_gt_0)

function sfmore_bytes :: "clong \<Rightarrow> byte list \<Rightarrow> byte list" where
  "sfmore_bytes v acc =
     (if v = 0 then acc else sfmore_bytes (drop_bit 7 v) ((sfuvalue v OR 128) # acc))"
  by pat_completeness auto
termination
  by (relation "measure (\<lambda>(v, acc). unat v)") (use drop_bit_less in auto)

declare sfmore_bytes.simps [simp del]

definition sfputu_bytes :: "clong \<Rightarrow> byte list" where
  "sfputu_bytes v = sfmore_bytes (drop_bit 7 v) [sfuvalue v]"

text \<open>A negative value is written as \<open>-(v+1)\<close> with the sign bit in the last byte.\<close>

definition sfputl_bytes :: "clong \<Rightarrow> byte list" where
  "sfputl_bytes v =
     (if v <s 0
      then let w = - (v + 1) in sfmore_bytes (drop_bit 6 w) [sfsvalue w OR 64]
      else sfmore_bytes (drop_bit 6 v) [sfsvalue v])"

definition sfputu :: "clong \<Rightarrow> ostream \<Rightarrow> int \<times> ostream" where
  "sfputu v f = sfwrite (sfputu_bytes v) f"

definition sfputl :: "clong \<Rightarrow> ostream \<Rightarrow> int \<times> ostream" where
  "sfputl v f = sfwrite (sfputl_bytes v) f"

section \<open>Readers\<close>

text \<open>
  The readers return the value and the bytes left.  At the end of the stream they set
  \<open>SFIO_ERROR\<close> and return -1, having consumed everything.
\<close>

fun sfgetu_loop :: "clong \<Rightarrow> byte list \<Rightarrow> clong \<times> byte list" where
  "sfgetu_loop v [] = (- 1, [])"
| "sfgetu_loop v (c # s) =
     (let v' = push_bit 7 v OR ucast (c AND 127)
      in if c AND 128 = 0 then (v', s) else sfgetu_loop v' s)"

definition sfgetu :: "byte list \<Rightarrow> clong \<times> byte list" where
  "sfgetu s = sfgetu_loop 0 s"

fun sfgetl_loop :: "clong \<Rightarrow> byte list \<Rightarrow> clong \<times> byte list" where
  "sfgetl_loop v [] = (- 1, [])"
| "sfgetl_loop v (c # s) =
     (if c AND 128 \<noteq> 0 then sfgetl_loop (push_bit 7 v OR ucast (c AND 127)) s
      else let v' = push_bit 6 v OR ucast (c AND 63)
           in (if c AND 64 \<noteq> 0 then - v' - 1 else v', s))"

definition sfgetl :: "byte list \<Rightarrow> clong \<times> byte list" where
  "sfgetl s = sfgetl_loop 0 s"

section \<open>The bytes of a continuation run\<close>

lemma sfmore_bytes_acc: "sfmore_bytes v (acc @ ys) = sfmore_bytes v acc @ ys"
proof (induction v acc rule: sfmore_bytes.induct)
  case (1 v acc)
  show ?case
  proof (cases "v = 0")
    case True
    then show ?thesis by (simp add: sfmore_bytes.simps)
  next
    case False
    have step: "sfmore_bytes v xs = sfmore_bytes (drop_bit 7 v) ((sfuvalue v OR 128) # xs)" for xs
      using False by (simp add: sfmore_bytes.simps [of v])
    show ?thesis
      using 1 [OF False] by (simp only: step append_Cons)
  qed
qed

lemma sfmore_bytes_single: "sfmore_bytes v [b] = sfmore_bytes v [] @ [b]"
  using sfmore_bytes_acc [of v "[]" "[b]"] by simp

lemma sfmore_bytes_step:
  "v \<noteq> 0 \<Longrightarrow> sfmore_bytes v acc = sfmore_bytes (drop_bit 7 v) [] @ (sfuvalue v OR 128) # acc"
  by (metis append_Nil sfmore_bytes.simps sfmore_bytes_acc)

text \<open>Reading a continuation run back puts its value in the accumulator.\<close>

lemma more_byte_value: "ucast ((sfuvalue v OR 128) AND 127) = v AND mask 7"
  unfolding sfuvalue_def mask_literals
  by (rule bit_word_eqI) (auto simp: bit_simps)

lemma last_byte_value: "ucast (sfuvalue v AND 127) = v AND mask 7"
  unfolding sfuvalue_def mask_literals
  by (rule bit_word_eqI) (auto simp: bit_simps)

lemma last_byte_svalue:
  "ucast (sfsvalue v AND 63) = v AND mask 6" "ucast ((sfsvalue v OR 64) AND 63) = v AND mask 6"
  unfolding sfsvalue_def mask_literals
  by (rule bit_word_eqI, auto simp: bit_simps)+

lemma byte_and_flag:
  "(b :: byte) AND 128 = 0 \<longleftrightarrow> \<not> bit b 7" "b AND 64 = 0 \<longleftrightarrow> \<not> bit b 6"
  using and_exp_eq_0_iff_not_bit [of b 7] and_exp_eq_0_iff_not_bit [of b 6] by simp_all

lemma byte_flags:
  "(sfuvalue v OR 128) AND 128 \<noteq> 0" "sfuvalue v AND 128 = 0"
  "sfsvalue v AND 128 = 0" "(sfsvalue v OR 64) AND 128 = 0"
  "sfsvalue v AND 64 = 0" "(sfsvalue v OR 64) AND 64 \<noteq> 0"
  unfolding byte_and_flag sfuvalue_def sfsvalue_def mask_literals
  by (auto simp: bit_simps)

text \<open>Both readers run over a continuation run in the same way.\<close>

lemma more_run:
  assumes step: "\<And>a c s. c AND 128 \<noteq> 0 \<Longrightarrow>
      rd a (c # s) = rd (push_bit 7 a OR ucast (c AND 127)) s"
  shows "rd 0 (sfmore_bytes v [] @ s) = rd v s"
proof (induction v arbitrary: s rule: measure_induct_rule [of unat])
  case (less v)
  show ?case
  proof (cases "v = 0")
    case True
    then show ?thesis by (simp add: sfmore_bytes.simps)
  next
    case False
    then have "rd 0 (sfmore_bytes v [] @ s) =
        rd 0 (sfmore_bytes (drop_bit 7 v) [] @ (sfuvalue v OR 128) # s)"
      by (simp add: sfmore_bytes_step)
    also have "\<dots> = rd (drop_bit 7 v) ((sfuvalue v OR 128) # s)"
      by (rule less.IH [OF drop_bit_less [OF False]])
    also have "\<dots> = rd (push_bit 7 (drop_bit 7 v) OR (v AND mask 7)) s"
      by (simp only: step byte_flags more_byte_value simp_thms)
    also have "\<dots> = rd v s"
      by (simp only: word_split_or)
    finally show ?thesis .
  qed
qed

section \<open>Round trips\<close>

lemma sfgetu_bytes: "sfgetu (sfputu_bytes v @ s) = (v, s)"
proof -
  have "sfgetu (sfputu_bytes v @ s) = sfgetu_loop 0 (sfmore_bytes (drop_bit 7 v) [] @ sfuvalue v # s)"
    by (simp add: sfgetu_def sfputu_bytes_def sfmore_bytes_single)
  also have "\<dots> = sfgetu_loop (drop_bit 7 v) (sfuvalue v # s)"
    by (rule more_run) (simp add: Let_def)
  also have "\<dots> = (push_bit 7 (drop_bit 7 v) OR (v AND mask 7), s)"
    by (simp only: sfgetu_loop.simps Let_def byte_flags last_byte_value if_True simp_thms)
  finally show ?thesis by (simp only: word_split_or)
qed

lemma sfgetl_nonneg:
  "sfgetl_loop 0 (sfmore_bytes (drop_bit 6 w) [] @ sfsvalue w # s) = (w, s)"
proof -
  have "sfgetl_loop 0 (sfmore_bytes (drop_bit 6 w) [] @ sfsvalue w # s) =
      sfgetl_loop (drop_bit 6 w) (sfsvalue w # s)"
    by (rule more_run) simp
  also have "\<dots> = (push_bit 6 (drop_bit 6 w) OR (w AND mask 6), s)"
    by (simp only: sfgetl_loop.simps Let_def byte_flags last_byte_svalue simp_thms if_False)
  finally show ?thesis by (simp only: word_split_or)
qed

lemma sfgetl_neg:
  "sfgetl_loop 0 (sfmore_bytes (drop_bit 6 w) [] @ (sfsvalue w OR 64) # s) = (- w - 1, s)"
proof -
  have "sfgetl_loop 0 (sfmore_bytes (drop_bit 6 w) [] @ (sfsvalue w OR 64) # s) =
      sfgetl_loop (drop_bit 6 w) ((sfsvalue w OR 64) # s)"
    by (rule more_run) simp
  also have "\<dots> = (- (push_bit 6 (drop_bit 6 w) OR (w AND mask 6)) - 1, s)"
    by (simp only: sfgetl_loop.simps Let_def byte_flags last_byte_svalue simp_thms
        if_False if_True)
  finally show ?thesis by (simp only: word_split_or)
qed

lemma sfgetl_bytes: "sfgetl (sfputl_bytes v @ s) = (v, s)"
  using sfgetl_neg [of "- (v + 1)" s] sfgetl_nonneg [of v s]
  by (auto simp: sfgetl_def sfputl_bytes_def Let_def sfmore_bytes_single)

section \<open>The contract of a byte code\<close>

text \<open>
  What a client of a byte code relies on: reading returns the value written and leaves exactly the
  bytes after it.  Uniqueness and prefix-freeness of the code follow.
\<close>

locale byte_code =
  fixes enc :: "'v \<Rightarrow> byte list" and dec :: "byte list \<Rightarrow> 'v \<times> byte list"
  assumes dec_enc: "dec (enc v @ s) = (v, s)"
begin

lemma prefix_free: "enc v @ s = enc w @ t \<Longrightarrow> v = w \<and> s = t"
  by (metis dec_enc prod.inject)

lemma enc_inj: "enc v = enc w \<Longrightarrow> v = w"
  using prefix_free [of v "[]" w "[]"] by simp

text \<open>Values written one after the other are read back in order.\<close>

lemma dec_two: "dec (enc v @ enc w @ s) = (v, enc w @ s) \<and> dec (enc w @ s) = (w, s)"
  by (simp add: dec_enc)

lemma concat_inj:
  "length vs = length ws \<Longrightarrow> concat (map enc vs) @ s = concat (map enc ws) @ t \<Longrightarrow> vs = ws \<and> s = t"
proof (induction vs arbitrary: ws)
  case Nil
  then show ?case by simp
next
  case (Cons v vs)
  then obtain w ws' where ws: "ws = w # ws'" by (cases ws) auto
  with Cons.prems have "enc v @ (concat (map enc vs) @ s) = enc w @ (concat (map enc ws') @ t)"
    by simp
  then have "v = w" and "concat (map enc vs) @ s = concat (map enc ws') @ t"
    using prefix_free by blast+
  with Cons ws show ?case by simp
qed

end

interpretation putu: byte_code sfputu_bytes sfgetu
  by unfold_locales (rule sfgetu_bytes)

interpretation putl: byte_code sfputl_bytes sfgetl
  by unfold_locales (rule sfgetl_bytes)

text \<open>Every code has at least one byte and at most ten, so the 16-byte buffer of the code suffices.\<close>

lemma sfmore_bytes_length: "unat v < 2 ^ (7 * k) \<Longrightarrow> length (sfmore_bytes v []) \<le> k"
proof (induction k arbitrary: v)
  case 0
  then show ?case by (simp add: sfmore_bytes.simps unat_eq_zero)
next
  case (Suc k)
  show ?case
  proof (cases "v = 0")
    case True
    then show ?thesis by (simp add: sfmore_bytes.simps)
  next
    case False
    have "unat v < 128 * 2 ^ (7 * k)"
      using Suc.prems by (simp add: power_add)
    then have "unat v div 128 < 2 ^ (7 * k)"
      by (simp add: div_less_iff_less_mult mult.commute)
    then have "unat (drop_bit 7 v) < 2 ^ (7 * k)"
      by (simp only: unat_drop7)
    from Suc.IH [OF this] show ?thesis
      using sfmore_bytes_step [OF False, of "[]"] by (simp only: length_append list.size)
  qed
qed

lemma drop_bits_small: "unat (drop_bit 7 v :: clong) < 2 ^ 63" "unat (drop_bit 6 v :: clong) < 2 ^ 63"
proof -
  have u: "unat v < 2 ^ 64" using unsigned_less [of v] by simp
  have "unat (drop_bit 6 v) = unat v div 64"
    using unat_drop_bit_eq [of 6 v] by (simp only: drop_bit_eq_div) simp
  with u show "unat (drop_bit 6 v) < 2 ^ 63" by (simp only:) simp
  from u show "unat (drop_bit 7 v) < 2 ^ 63" by (simp only: unat_drop7) simp
qed

lemma more_small:
  "length (sfmore_bytes (drop_bit 7 v) []) \<le> 9" "length (sfmore_bytes (drop_bit 6 v) []) \<le> 9"
  by (rule sfmore_bytes_length, use drop_bits_small in simp)+

lemma sfputu_bytes_length: "0 < length (sfputu_bytes v)" "length (sfputu_bytes v) \<le> 10"
  using more_small [of v] by (simp_all add: sfputu_bytes_def sfmore_bytes_single del: drop_bit_eq_div)

lemma sfputl_bytes_length: "0 < length (sfputl_bytes v)" "length (sfputl_bytes v) \<le> 10"
  using more_small(2) [of v] more_small(2) [of "- (v + 1)"]
  by (auto simp: sfputl_bytes_def Let_def sfmore_bytes_single)

lemma code_not_Nil [simp]: "sfputu_bytes v \<noteq> []" "sfputl_bytes v \<noteq> []"
  using sfputu_bytes_length(1) sfputl_bytes_length(1) by auto

end
