(* ===== verification/TDumpFormat.thy ===== *)
theory TDumpFormat
  imports TDump
begin

text \<open>The dump functions of \<open>TDump\<close> write exactly the format \<open>enc_tree\<close> describes.\<close>

definition oput :: "byte list \<Rightarrow> ostream \<Rightarrow> ostream" where
  "oput bs f = f\<lparr>obytes := obytes f @ bs, oroom := oroom f - length bs\<rparr>"

text \<open>A writer emits \<open>bs\<close>: whenever they fit, it succeeds, returns no error and writes them.\<close>

definition emits :: "writer \<Rightarrow> byte list \<Rightarrow> bool" where
  "emits w bs \<longleftrightarrow> (\<forall>f. length bs \<le> oroom f \<longrightarrow> (\<exists>r \<ge> 0. w f = Some (r, oput bs f)))"

lemma oput_oput [simp]: "oput b (oput a f) = oput (a @ b) f"
  by (simp add: oput_def)

lemma oput_Nil [simp]: "oput [] f = f"
  by (simp add: oput_def)

lemma oroom_oput [simp]: "oroom (oput a f) = oroom f - length a"
  by (simp add: oput_def)

lemma oput_inj: "oput a (f :: ostream) = oput b f \<Longrightarrow> a = b"
  by (metis oput_def append_same_eq ostream.select_convs(1) ostream.surjective ostream.update_convs(1)
      ostream.update_convs(2) same_append_eq)

text \<open>The bytes of a successful write are determined.\<close>

lemma emits_unique:
  "emits w bs \<Longrightarrow> length bs \<le> oroom f \<Longrightarrow> w f = Some (r, oput cs f) \<Longrightarrow> cs = bs"
  unfolding emits_def by (metis oput_inj option.inject prod.inject)

lemma emits_sfwrite: "emits (wput (sfwrite bs)) bs"
  by (simp add: emits_def wput_def sfwrite_def oput_def Let_def min_def)

lemma emits_sfputc: "emits (wput (sfputc c)) [c]"
  by (auto simp: emits_def wput_def sfputc_def sfwrite_def oput_def Let_def min_def)

lemma emits_sfputu: "emits (wput (sfputu v)) (sfputu_bytes v)"
  using emits_sfwrite [of "sfputu_bytes v"] by (simp add: emits_def wput_def sfputu_def)

lemma emits_sfputl: "emits (wput (sfputl v)) (sfputl_bytes v)"
  using emits_sfwrite [of "sfputl_bytes v"] by (simp add: emits_def wput_def sfputl_def)

lemma emits_wskip: "emits wskip []"
  by (simp add: emits_def wskip_def)

lemma emits_seq:
  assumes a: "emits a x" and b: "emits b y"
  shows "emits (wchk a b) (x @ y)" "emits (wthen a b) (x @ y)"
proof -
  have "\<exists>r \<ge> 0. wchk a b f = Some (r, oput (x @ y) f)" "\<exists>r \<ge> 0. wthen a b f = Some (r, oput (x @ y) f)"
    if room: "length (x @ y) \<le> oroom f" for f
  proof -
    have "length x \<le> oroom f"
      using room by simp
    then obtain r where r: "r \<ge> 0" "a f = Some (r, oput x f)"
      using a unfolding emits_def by blast
    have "length y \<le> oroom (oput x f)"
      using room by simp
    then obtain r' where r': "r' \<ge> 0" "b (oput x f) = Some (r', oput (x @ y) f)"
      using b unfolding emits_def by (metis oput_oput)
    show "\<exists>r \<ge> 0. wchk a b f = Some (r, oput (x @ y) f)" "\<exists>r \<ge> 0. wthen a b f = Some (r, oput (x @ y) f)"
      using r r' by (simp_all add: wchk_def wthen_def)
  qed
  then show "emits (wchk a b) (x @ y)" "emits (wthen a b) (x @ y)"
    by (simp_all add: emits_def)
qed

text \<open>The rules that decompose a dump into its pieces.\<close>

lemmas emits_intros = emits_seq emits_sfwrite emits_sfputc emits_sfputu emits_sfputl emits_wskip

lemma emits_skip_end: "emits a x \<Longrightarrow> emits (wchk a wskip) x" "emits a x \<Longrightarrow> emits (wthen a wskip) x"
  using emits_seq [OF _ emits_wskip] by fastforce+

lemma emits_p_string: "emits (p_string s) (enc_string s)"
  unfolding p_string_def enc_string_def by (intro emits_intros)

lemma emits_p_name: "wf_name nam \<Longrightarrow> emits (p_name nam) (enc_name nam)"
  by (auto simp: p_name_def enc_name_def wf_name_def emits_p_string split: option.splits)

lemma emits_p_strings: "emits (p_strings ss) (concat (map enc_string ss))"
  by (induction ss) (simp_all add: emits_intros emits_p_string)

lemma emits_p_comlist: "emits (p_comlist l) (enc_comarg H (ComDp n l))"
  unfolding p_comlist_def enc_comarg.simps by (intro emits_intros emits_p_strings)

text \<open>Text lengths of well-formed trees fit an \<open>int\<close> with room to spare.\<close>

lemma scast_of_nat_cint:
  assumes "n < 2 ^ 31"
  shows "(scast (of_nat n :: cint) :: clong) = of_nat n"
proof -
  have "sint (of_nat n :: cint) = int n"
    using assms by (simp add: signed_of_nat signed_take_bit_int_eq_self)
  then show ?thesis by (simp add: scast_eq)
qed

lemma clen_facts:
  assumes "wf_str s"
  shows "clen s = 0 \<longleftrightarrow> s = []"
    and "(scast (clen s + 1) :: clong) = of_nat (length s) + 1"
    and "(scast (clen s + 2) :: clong) = of_nat (length s) + 2"
proof -
  have len: "length s < 2 ^ 31 - 3" using assms by (simp add: wf_str_def)
  then have "unat (clen s) = length s"
    by (simp add: clen_def unat_of_nat take_bit_nat_eq_self)
  then show "clen s = 0 \<longleftrightarrow> s = []"
    by (metis length_0_conv unat_eq_zero)
  show "(scast (clen s + 1) :: clong) = of_nat (length s) + 1"
    using scast_of_nat_cint [of "length s + 1"] len by (simp add: clen_def add.commute)
  show "(scast (clen s + 2) :: clong) = of_nat (length s) + 2"
    using scast_of_nat_cint [of "length s + 2"] len by (simp add: clen_def add.commute)
qed

lemma clen_Nil [simp]: "clen [] = 0"
  by (simp add: clen_def)

lemma emits_p_value:
  assumes "wf_str val" "emits w bs"
  shows "emits (p_value fl val w) (sfputu_bytes (of_nat (length val) + 1) @ val @ [fl] @ bs)"
  unfolding p_value_def clen_facts(2) [OF assms(1)] by (intro emits_intros assms)

lemma plain_flags_no_exp: "arg_plain_flags fl \<Longrightarrow> fl AND ARG_EXP = 0"
proof -
  have "NOT (ARG_APPEND OR ARG_MESSAGE OR ARG_QUOTED OR ARG_ARRAY) = 29"
    unfolding ARG_APPEND_def ARG_MESSAGE_def ARG_QUOTED_def ARG_ARRAY_def by code_simp
  moreover assume "arg_plain_flags fl"
  ultimately have "fl AND 29 = 0"
    unfolding arg_plain_flags_def by simp
  moreover have "fl AND ARG_EXP = (fl AND 29) AND 8"
    by (simp add: ARG_EXP_def and.assoc)
  ultimately show ?thesis by simp
qed

lemma emits_word:
  assumes "wf_str val" "wf_chn D fl val chn"
    and "\<And>t. chn = ChnTree t \<Longrightarrow> emits (p_tree H t) (enc_tree H t)"
    and "\<And>typ nam t. chn = ChnFor typ nam t \<Longrightarrow> emits (p_tree H t) (enc_tree H t)"
  shows "emits (p_word H fl val chn) (enc_word H fl val chn)"
proof (cases chn)
  case ChnNil
  from emits_p_value [OF assms(1) emits_wskip, of fl] show ?thesis
    using ChnNil assms(1,2) by (auto simp: clen_facts(1))
next
  case (ChnTree t)
  then have "val = []" "fl AND ARG_EXP \<noteq> 0"
    using assms(2) by auto
  moreover from this have "\<not> arg_plain_flags fl"
    using plain_flags_no_exp by auto
  ultimately show ?thesis
    using ChnTree emits_p_value [OF assms(1) assms(3) [OF ChnTree], of fl] by simp
next
  case (ChnFor ty nam t)
  then have val: "val = []" "arg_plain_flags fl" "wf_str nam"
    using assms(2) by auto
  have n: "(scast (clen nam + 1 + 1) :: clong) = of_nat (length nam) + 2"
    using clen_facts(3) [OF \<open>wf_str nam\<close>] by (simp add: add.assoc)
  have "enc_word H fl val chn = sfputu_bytes (of_nat (length nam) + 2) @ [0] @ nam @ [fl] @
      sfputu_bytes (scast ty) @ enc_tree H t"
    using ChnFor by simp
  moreover have "p_word H fl val chn = wthen (wput (sfputu (scast (clen nam + 1 + 1))))
      (wthen (wput (sfputc 0)) (wthen (wput (sfwrite nam)) (wthen (wput (sfputc fl))
        (wthen (wput (sfputu (scast ty))) (p_tree H t)))))"
    using ChnFor val by (simp add: Let_def)
  ultimately show ?thesis
    by (simp only: n) (intro emits_intros assms(4) [OF ChnFor])
qed

lemma emits_tree:
  fixes t :: "(docpos, 'n, 'a) shnode" and a :: "(docpos, 'n, 'a) argnod"
    and c :: "(docpos, 'n, 'a) argchn" and i :: "(docpos, 'n, 'a) ionod"
    and n :: "(docpos, 'n, 'a) ioname" and ca :: "(docpos, 'n, 'a) comarg"
    and r :: "(docpos, 'n, 'a) regnod"
  shows "wf_tree D t \<Longrightarrow> emits (p_tree H t) (enc_tree H t)"
    and "wf_arg D a \<Longrightarrow> emits (p_arg H a) (enc_arg H a)"
    and "wf_chn D fl val c \<Longrightarrow> wf_str val \<Longrightarrow> emits (p_word H fl val c) (enc_word H fl val c)"
    and "wf_io D i \<Longrightarrow> emits (p_redirect H i) (enc_io H i)"
    and "wf_ioname D f n \<Longrightarrow> emits (p_ioname H f n) (enc_ioname H n)"
    and "wf_comarg D ty ca \<Longrightarrow> emits (p_comarg H ty ca) (enc_comarg H ca)"
    and "wf_reg D r \<Longrightarrow> emits (p_switch H r) (enc_reg H r)"
proof (induction t and a and c and i and n and ca and r
    arbitrary: and and fl val and and f and ty and)
  case (ArgNod fl val c nxt)
  then show ?case
    by (auto intro!: emits_seq)
next
  case ChnNil
  then show ?case
    by (intro emits_word) auto
next
  case (ChnTree t)
  then show ?case
    by (intro emits_word) auto
next
  case (ChnFor ty nam t)
  then show ?case
    by (intro emits_word) auto
next
  case (TstNod ty l r line)
  then show ?case
    by (auto intro!: emits_intros emits_skip_end)
next
  case (IoNod fl n doc vn nxt)
  then show ?case
    unfolding p_redirect.simps enc_io.simps
    by (intro emits_intros) (auto intro!: emits_intros emits_p_string split: option.splits)
next
  case (ComDp n l)
  then show ?case
    using emits_p_comlist [of l H n] by simp
qed (auto intro!: emits_intros emits_p_string emits_p_name)

end
