(* ===== verification/TRestore.thy ===== *)
theory TRestore
  imports TDump
begin

text \<open>
  Reading intermediate code back: \<open>src/src/cmd/ksh26/sh/trestore.c\<close>.  A reader takes the bytes
  left and the here-document file (\<open>sh.heredocs\<close>, null until the first here-document) and
  returns the node with the new state.  \<open>Undef\<close> stands for the places where the C code has no
  defined behaviour on a malformed file: a null pointer followed, a read that leaves part of a
  buffer unset, a write past a buffer.  The loops and the recursion are driven by fuel;
  \<open>sh_trestore\<close> gives one unit per byte and one more, which \<open>r_tree_total\<close> shows is enough.
\<close>

section \<open>Readers\<close>

datatype rerr = OutOfFuel | Undef

record rstate =
  rin :: "byte list"
  rdocs :: "byte list option"

type_synonym 'v rd = "rstate \<Rightarrow> rerr + 'v \<times> rstate"

definition rret :: "'v \<Rightarrow> 'v rd" where
  "rret v s = Inr (v, s)"

definition rfail :: "rerr \<Rightarrow> 'v rd" where
  "rfail e s = Inl e"

definition rbind :: "'v rd \<Rightarrow> ('v \<Rightarrow> 'w rd) \<Rightarrow> 'w rd" where
  "rbind m k s = (case m s of Inl e \<Rightarrow> Inl e | Inr (v, s') \<Rightarrow> k v s')"

definition r_getl :: "clong rd" where
  "r_getl s = (case sfgetl (rin s) of (v, bs) \<Rightarrow> Inr (v, s\<lparr>rin := bs\<rparr>))"

definition r_getu :: "clong rd" where
  "r_getu s = (case sfgetu (rin s) of (v, bs) \<Rightarrow> Inr (v, s\<lparr>rin := bs\<rparr>))"

text \<open>\<open>sfgetc\<close> stored in an unsigned char: end of file gives 255.\<close>

definition r_getc :: "byte rd" where
  "r_getc s = (case rin s of [] \<Rightarrow> Inr (255, s) | c # bs \<Rightarrow> Inr (c, s\<lparr>rin := bs\<rparr>))"

text \<open>\<open>sfread\<close> of \<open>n\<close> bytes: what there is, at most \<open>n\<close>.\<close>

definition r_read :: "nat \<Rightarrow> byte list rd" where
  "r_read n s = Inr (take n (rin s), s\<lparr>rin := drop n (rin s)\<rparr>)"

section \<open>Strings and argument vectors\<close>

text \<open>
  The buffer has \<open>(unsigned)l\<close> bytes; a length beyond 32 bits makes it too small for what is read.
  A short read returns null.
\<close>

definition r_string :: "byte list option rd" where
  "r_string =
     rbind r_getu (\<lambda>l.
       if l = 0 then rret None
       else rbind (r_read (unat (l - 1))) (\<lambda>bs.
         if unat (ucast l :: cint) < length bs then rfail Undef
         else if length bs < unat (l - 1) then rret None
         else if 2 ^ 32 \<le> unat l then rfail Undef
         else rret (Some (cstr bs))))"

text \<open>\<open>while(*argv++ = r_string());\<close> with room for \<open>k\<close> strings and the null pointer.\<close>

fun r_strings :: "nat \<Rightarrow> byte list list rd" where
  "r_strings k =
     rbind r_string (\<lambda>x. case x of
       None \<Rightarrow> rret []
     | Some w \<Rightarrow>
         (case k of 0 \<Rightarrow> rfail Undef
          | Suc k' \<Rightarrow> rbind (r_strings k') (\<lambda>ss. rret (w # ss))))"

declare r_strings.simps [simp del]

definition r_comlist :: "('d, 'n, 'a) comarg rd" where
  "r_comlist =
     rbind r_getl (\<lambda>l.
       if 0 <s l then rbind (r_strings (unat l)) (\<lambda>ss. rret (ComDp (ucast l) ss))
       else rret ComNone)"

section \<open>Resolving a command name\<close>

text \<open>
  What the loader asks of the rest of the shell: \<open>nv_search\<close> in the function tree, \<open>nv_open\<close> of a
  variable without adding it, and \<open>sh_arithcomp\<close>.
\<close>

record ('n, 'a) loader =
  nv_search_fun :: "byte list \<Rightarrow> 'n option"
  nv_open_var :: "byte list \<Rightarrow> 'n option"
  arithcomp :: "byte list \<Rightarrow> 'a"

definition DOT :: byte where "DOT = 46"

text \<open>The text before the last dot, as \<open>strrchr\<close> finds it.\<close>

definition before_last_dot :: "byte list \<Rightarrow> byte list option" where
  "before_last_dot s =
     (if DOT \<in> set s then Some (rev (tl (dropWhile (\<lambda>b. b \<noteq> DOT) (rev s)))) else None)"

definition resolve_command :: "('n, 'a) loader \<Rightarrow> byte list option \<Rightarrow> 'n option" where
  "resolve_command L cmdname =
     (case cmdname of
        None \<Rightarrow> None
      | Some nam \<Rightarrow>
          (case nv_search_fun L nam of
             None \<Rightarrow> None
           | Some np \<Rightarrow>
               (case before_last_dot (tl nam) of
                  None \<Rightarrow> Some np
                | Some pre \<Rightarrow> nv_open_var L (hd nam # pre))))"

definition r_comarg ::
  "('n, 'a) loader \<Rightarrow> cint \<Rightarrow> ('d, 'n option, 'a option) ionod rd \<Rightarrow> ('d, 'n option, 'a option) argnod rd \<Rightarrow>
   ('d, 'n option, 'a option) shnode rd" where
  "r_comarg L ty r_red r_ar =
     rbind r_red (\<lambda>io.
     rbind r_ar (\<lambda>cs.
       if ty AND COMSCAN \<noteq> 0 then
         rbind r_ar (\<lambda>a. case a of
           ArgNil \<Rightarrow> rfail Undef
         | ArgNod fl val chn nxt \<Rightarrow>
             rbind r_getu (\<lambda>line.
               rret (ComNod ty io (ComAp a) cs
                 (resolve_command L (if fl = ARG_RAW then Some val else None)) (ucast line))))
       else
         rbind r_comlist (\<lambda>c.
           let cmdname = (case c of ComDp n (s # ss) \<Rightarrow> Some s | _ \<Rightarrow> None)
           in rbind r_getu (\<lambda>line.
                rret (ComNod ty io c cs (resolve_command L cmdname) (ucast line))))))"

section \<open>The tree\<close>

definition mk_chn :: "('d, 'n option, 'a option) shnode \<Rightarrow> ('d, 'n option, 'a option) argchn" where
  "mk_chn t = (case t of NullT \<Rightarrow> ChnNil | _ \<Rightarrow> ChnTree t)"

text \<open>The here-document text is appended to \<open>sh.heredocs\<close>, which is created when absent.\<close>

definition r_heredoc :: "docpos rd" where
  "r_heredoc =
     rbind r_getl (\<lambda>size s.
       let D = (case rdocs s of None \<Rightarrow> [] | Some D \<Rightarrow> D);
           n = (if size <s 0 then length (rin s) else unat size)
       in Inr ((length D, size),
               \<lparr>rin = drop n (rin s), rdocs = Some (D @ take n (rin s))\<rparr>))"

definition r_iodelim :: "(byte list \<times> docpos) option rd" where
  "r_iodelim =
     rbind r_string (\<lambda>d. case d of
       None \<Rightarrow> rret None
     | Some del \<Rightarrow> rbind r_heredoc (\<lambda>pos. rret (Some (del, pos))))"

fun r_tree :: "('n, 'a) loader \<Rightarrow> nat \<Rightarrow> (docpos, 'n option, 'a option) shnode rd"
  and r_arg :: "('n, 'a) loader \<Rightarrow> nat \<Rightarrow> (docpos, 'n option, 'a option) argnod rd"
  and r_redirect :: "('n, 'a) loader \<Rightarrow> nat \<Rightarrow> (docpos, 'n option, 'a option) ionod rd"
  and r_switch :: "('n, 'a) loader \<Rightarrow> nat \<Rightarrow> (docpos, 'n option, 'a option) regnod rd" where
  "r_tree L 0 = rfail OutOfFuel"
| "r_tree L (Suc n) =
     rbind r_getl (\<lambda>l.
       if l <s 0 then rret NullT
       else let ty = ucast l :: cint; k = ty AND COMMSK in
         if k = TTIME \<or> k = TPAR then
           rbind (r_tree L n) (\<lambda>t. rret (ParNod ty t))
         else if k = TCOM then r_comarg L ty (r_redirect L n) (r_arg L n)
         else if k = TSETIO \<or> k = TFORK then
           rbind r_getu (\<lambda>line. rbind (r_tree L n) (\<lambda>t. rbind (r_redirect L n) (\<lambda>io.
             rret (ForkNod ty io t (ucast line)))))
         else if k = TIF then
           rbind (r_tree L n) (\<lambda>c. rbind (r_tree L n) (\<lambda>t. rbind (r_tree L n) (\<lambda>e.
             rret (IfNod ty c t e))))
         else if k = TWH then
           rbind (r_tree L n) (\<lambda>i. rbind (r_tree L n) (\<lambda>c. rbind (r_tree L n) (\<lambda>d.
             rret (WhNod ty c d i))))
         else if k = TLST \<or> k = TAND \<or> k = TORF \<or> k = TFIL then
           rbind (r_tree L n) (\<lambda>l'. rbind (r_tree L n) (\<lambda>r. rret (LstNod ty l' r)))
         else if k = TARITH then
           rbind r_getu (\<lambda>line. rbind (r_arg L n) (\<lambda>a. case a of
             ArgNil \<Rightarrow> rfail Undef
           | ArgNod fl val chn nxt \<Rightarrow>
               rret (ArithNod ty (ucast line) a
                 (if fl AND ARG_RAW \<noteq> 0 then Some (arithcomp L val) else None))))
         else if k = TFOR then
           rbind (if ty AND FLINENO \<noteq> 0 then r_getu else rret 0) (\<lambda>line.
             rbind (r_tree L n) (\<lambda>t. rbind r_string (\<lambda>nam. rbind (r_tree L n) (\<lambda>lst.
               rret (ForNod ty nam t lst (ucast line))))))
         else if k = TSW then
           rbind (if ty AND FLINENO \<noteq> 0 then r_getu else rret 0) (\<lambda>line.
             rbind (r_arg L n) (\<lambda>a.
               rbind (if ty AND COMSCAN \<noteq> 0 then r_redirect L n else rret IoNil) (\<lambda>io.
                 rbind (r_switch L n) (\<lambda>r. rret (SwNod ty a r io (ucast line))))))
         else if k = TFUN then
           rbind r_getu (\<lambda>line. rbind r_string (\<lambda>nam. rbind (r_tree L n) (\<lambda>t.
             rbind (r_tree L n) (\<lambda>args. rret (FunctNod ty nam t (ucast line) args)))))
         else
           rbind r_getu (\<lambda>line.
             if ty AND TPAREN = TPAREN then
               rbind (r_tree L n) (\<lambda>t. rret (TstParNod ty t (ucast line)))
             else
               rbind (r_arg L n) (\<lambda>l'.
                 rbind (if ty AND TBINARY \<noteq> 0 then r_arg L n else rret ArgNil) (\<lambda>r.
                   rret (TstNod ty l' r (ucast line))))))"
| "r_arg L 0 = rfail OutOfFuel"
| "r_arg L (Suc n) =
     rbind r_getu (\<lambda>l.
       if \<not> 0 <s l then rret ArgNil
       else rbind (r_read (unat (l - 1))) (\<lambda>raw.
         if 2 ^ 32 \<le> unat l \<or> length raw < unat (l - 1) then rfail Undef
         else rbind r_getc (\<lambda>fl.
           rbind
             (if cstr raw \<noteq> [] then rret ChnNil
              else if fl AND ARG_EXP \<noteq> 0 then rbind (r_tree L n) (\<lambda>t. rret (mk_chn t))
              else if arg_plain_flags fl then
                rbind r_getu (\<lambda>fty. rbind (r_tree L n) (\<lambda>t.
                  if raw = [] then rfail Undef
                  else rret (ChnFor (ucast fty) (cstr (tl raw)) t)))
              else rret ChnNil) (\<lambda>chn.
           rbind (r_arg L n) (\<lambda>nxt. rret (ArgNod fl (cstr raw) chn nxt))))))"
| "r_redirect L 0 = rfail OutOfFuel"
| "r_redirect L (Suc n) =
     rbind r_getl (\<lambda>l.
       if l <s 0 then rret IoNil
       else let f = ucast l :: cint in
         rbind (if io_is_tree f then rbind (r_tree L n) (\<lambda>t. rret (IoTree t))
                else rbind r_string (\<lambda>s. rret (IoStr s))) (\<lambda>nam.
         rbind r_iodelim (\<lambda>doc.
         rbind (if f AND IOVNM \<noteq> 0 then r_string else rret None) (\<lambda>vn.
         rbind (r_redirect L n) (\<lambda>nxt.
           rret (IoNod (f AND NOT IOVNM) nam doc vn nxt))))))"
| "r_switch L 0 = rfail OutOfFuel"
| "r_switch L (Suc n) =
     rbind r_getl (\<lambda>l.
       if l <s 0 then rret RegNil
       else rbind (r_arg L n) (\<lambda>a. rbind (r_tree L n) (\<lambda>t. rbind (r_switch L n) (\<lambda>nxt.
         rret (RegNod (ucast l) a t nxt)))))"

definition sh_trestore :: "('n, 'a) loader \<Rightarrow> (docpos, 'n option, 'a option) shnode rd" where
  "sh_trestore L s = r_tree L (Suc (length (rin s))) s"

end
