(* ===== verification/TRoundTrip.thy ===== *)
theory TRoundTrip
  imports TDumpFormat TRestore "HOL-Library.Sublist"
begin

text \<open>
  A dumped tree is read back as the same tree.  \<open>reload_*\<close> says which tree that is: every
  here-document now lies where the reader appended it, the compiled expression and the name-table
  entry are the loader's own, and everything else is as it was.
\<close>

section \<open>The reloaded tree\<close>

definition docs_text :: "byte list option \<Rightarrow> byte list" where
  "docs_text D = (case D of None \<Rightarrow> [] | Some d \<Rightarrow> d)"

definition reload_doc ::
  "byte list \<Rightarrow> (byte list \<times> docpos) option \<Rightarrow> byte list option \<Rightarrow>
   (byte list \<times> docpos) option \<times> byte list option" where
  "reload_doc H doc D =
     (case doc of
        None \<Rightarrow> (None, D)
      | Some (del, pos) \<Rightarrow>
          (Some (del, (length (docs_text D), snd pos)), Some (docs_text D @ doc_text H pos)))"

definition command_name :: "cint \<Rightarrow> ('d, 'n, 'a) comarg \<Rightarrow> byte list option" where
  "command_name ty ca =
     (case ca of
        ComAp (ArgNod fl val chn nxt) \<Rightarrow> if fl = ARG_RAW then Some val else None
      | ComDp n (s # ss) \<Rightarrow> Some s
      | _ \<Rightarrow> None)"

definition recompile :: "('n, 'a) loader \<Rightarrow> ('d, 'm, 'b) argnod \<Rightarrow> 'a option" where
  "recompile L a =
     (case a of ArgNil \<Rightarrow> None
      | ArgNod fl val chn nxt \<Rightarrow> if fl AND ARG_RAW \<noteq> 0 then Some (arithcomp L val) else None)"

primrec reload_tree :: "('n, 'a) loader \<Rightarrow> byte list \<Rightarrow> (docpos, 'n option, 'a option) shnode \<Rightarrow> byte list option \<Rightarrow>
       (docpos, 'n option, 'a option) shnode \<times> byte list option"
  and reload_arg :: "('n, 'a) loader \<Rightarrow> byte list \<Rightarrow> (docpos, 'n option, 'a option) argnod \<Rightarrow> byte list option \<Rightarrow>
       (docpos, 'n option, 'a option) argnod \<times> byte list option"
  and reload_chn :: "('n, 'a) loader \<Rightarrow> byte list \<Rightarrow> (docpos, 'n option, 'a option) argchn \<Rightarrow> byte list option \<Rightarrow>
       (docpos, 'n option, 'a option) argchn \<times> byte list option"
  and reload_io :: "('n, 'a) loader \<Rightarrow> byte list \<Rightarrow> (docpos, 'n option, 'a option) ionod \<Rightarrow> byte list option \<Rightarrow>
       (docpos, 'n option, 'a option) ionod \<times> byte list option"
  and reload_ioname :: "('n, 'a) loader \<Rightarrow> byte list \<Rightarrow> (docpos, 'n option, 'a option) ioname \<Rightarrow> byte list option \<Rightarrow>
       (docpos, 'n option, 'a option) ioname \<times> byte list option"
  and reload_comarg :: "('n, 'a) loader \<Rightarrow> byte list \<Rightarrow> (docpos, 'n option, 'a option) comarg \<Rightarrow> byte list option \<Rightarrow>
       (docpos, 'n option, 'a option) comarg \<times> byte list option"
  and reload_reg :: "('n, 'a) loader \<Rightarrow> byte list \<Rightarrow> (docpos, 'n option, 'a option) regnod \<Rightarrow> byte list option \<Rightarrow>
       (docpos, 'n option, 'a option) regnod \<times> byte list option" where
  "reload_tree L H NullT D = (NullT, D)"
| "reload_tree L H (ParNod ty t) D = (let (t', D') = reload_tree L H t D in (ParNod ty t', D'))"
| "reload_tree L H (ComNod ty io arg cs np line) D =
     (let (io', D1) = reload_io L H io D; (cs', D2) = reload_arg L H cs D1;
          (arg', D3) = reload_comarg L H arg D2
      in (ComNod ty io' arg' cs' (resolve_command L (command_name ty arg)) line, D3))"
| "reload_tree L H (ForkNod ty io t line) D =
     (let (t', D1) = reload_tree L H t D; (io', D2) = reload_io L H io D1
      in (ForkNod ty io' t' line, D2))"
| "reload_tree L H (IfNod ty c t e) D =
     (let (c', D1) = reload_tree L H c D; (t', D2) = reload_tree L H t D1;
          (e', D3) = reload_tree L H e D2
      in (IfNod ty c' t' e', D3))"
| "reload_tree L H (WhNod ty c d i) D =
     (let (i', D1) = reload_tree L H i D; (c', D2) = reload_tree L H c D1;
          (d', D3) = reload_tree L H d D2
      in (WhNod ty c' d' i', D3))"
| "reload_tree L H (LstNod ty l r) D =
     (let (l', D1) = reload_tree L H l D; (r', D2) = reload_tree L H r D1 in (LstNod ty l' r', D2))"
| "reload_tree L H (ArithNod ty line a ac) D =
     (let (a', D1) = reload_arg L H a D in (ArithNod ty line a' (recompile L a), D1))"
| "reload_tree L H (ForNod ty nam t l line) D =
     (let (t', D1) = reload_tree L H t D; (l', D2) = reload_tree L H l D1
      in (ForNod ty nam t' l' line, D2))"
| "reload_tree L H (SwNod ty a r io line) D =
     (let (a', D1) = reload_arg L H a D; (r', D2) = reload_reg L H r D1
      in (SwNod ty a' r' IoNil line, D2))"
| "reload_tree L H (FunctNod ty nam t line args) D =
     (let (t', D1) = reload_tree L H t D; (args', D2) = reload_tree L H args D1
      in (FunctNod ty nam t' line args', D2))"
| "reload_tree L H (TstParNod ty t line) D =
     (let (t', D1) = reload_tree L H t D in (TstParNod ty t' line, D1))"
| "reload_tree L H (TstNod ty l r line) D =
     (let (l', D1) = reload_arg L H l D; (r', D2) = reload_arg L H r D1
      in (TstNod ty l' r' line, D2))"
| "reload_arg L H ArgNil D = (ArgNil, D)"
| "reload_arg L H (ArgNod fl val chn nxt) D =
     (let (chn', D1) = reload_chn L H chn D; (nxt', D2) = reload_arg L H nxt D1
      in (ArgNod fl val chn' nxt', D2))"
| "reload_chn L H ChnNil D = (ChnNil, D)"
| "reload_chn L H (ChnTree t) D = (let (t', D1) = reload_tree L H t D in (ChnTree t', D1))"
| "reload_chn L H (ChnFor ty nam t) D =
     (let (t', D1) = reload_tree L H t D in (ChnFor ty nam t', D1))"
| "reload_io L H IoNil D = (IoNil, D)"
| "reload_io L H (IoNod f nam doc vn nxt) D =
     (let (nam', D1) = reload_ioname L H nam D; (doc', D2) = reload_doc H doc D1;
          (nxt', D3) = reload_io L H nxt D2
      in (IoNod f nam' doc' vn nxt', D3))"
| "reload_ioname L H (IoStr s) D = (IoStr s, D)"
| "reload_ioname L H (IoTree t) D = (let (t', D1) = reload_tree L H t D in (IoTree t', D1))"
| "reload_comarg L H ComNone D = (ComNone, D)"
| "reload_comarg L H (ComAp a) D = (let (a', D1) = reload_arg L H a D in (ComAp a', D1))"
| "reload_comarg L H (ComDp n l) D = (ComDp n l, D)"
| "reload_reg L H RegNil D = (RegNil, D)"
| "reload_reg L H (RegNod fl a t nxt) D =
     (let (a', D1) = reload_arg L H a D; (t', D2) = reload_tree L H t D1;
          (nxt', D3) = reload_reg L H nxt D2
      in (RegNod fl a' t' nxt', D3))"

section \<open>Reading one item back\<close>

text \<open>\<open>reads m bs v D D'\<close>: on \<open>bs\<close> followed by anything, \<open>m\<close> returns \<open>v\<close> and leaves the rest.\<close>

definition reads :: "'v rd \<Rightarrow> byte list \<Rightarrow> 'v \<Rightarrow> byte list option \<Rightarrow> byte list option \<Rightarrow> bool" where
  "reads m bs v D D' \<longleftrightarrow>
     (\<forall>rest. m \<lparr>rin = bs @ rest, rdocs = D\<rparr> = Inr (v, \<lparr>rin = rest, rdocs = D'\<rparr>))"

lemma reads_bind:
  "reads m x v D D1 \<Longrightarrow> reads (k v) y w D1 D2 \<Longrightarrow> reads (rbind m k) (x @ y) w D D2"
  by (simp add: reads_def rbind_def)

lemma reads_bind_last:
  "reads m x v D D1 \<Longrightarrow> reads (k v) [] w D1 D2 \<Longrightarrow> reads (rbind m k) x w D D2"
  using reads_bind [of m x v D D1 k "[]"] by simp

lemma reads_bind_first:
  "reads m [] v D D1 \<Longrightarrow> reads (k v) y w D1 D2 \<Longrightarrow> reads (rbind m k) y w D D2"
  using reads_bind [of m "[]" v D D1 k] by simp

lemma reads_ret: "v = w \<Longrightarrow> D = D' \<Longrightarrow> reads (rret v) [] w D D'"
  by (simp add: reads_def rret_def)

lemma reads_getl: "reads r_getl (sfputl_bytes v) v D D"
  by (simp add: reads_def r_getl_def sfgetl_bytes)

lemma reads_getu: "reads r_getu (sfputu_bytes v) v D D"
  by (simp add: reads_def r_getu_def sfgetu_bytes)

lemma reads_getc: "reads r_getc [c] c D D"
  by (simp add: reads_def r_getc_def)

lemma reads_read: "n = length bs \<Longrightarrow> reads (r_read n) bs bs D D"
  by (simp add: reads_def r_read_def)

lemma of_nat_len:
  assumes "n < 2 ^ 32"
  shows "unat (of_nat n :: clong) = n" "unat (ucast (of_nat n :: clong) :: cint) = n"
  using assms by (simp_all add: unat_of_nat unsigned_ucast_eq take_bit_nat_eq_self)

lemma of_nat_pred: "(of_nat n + 1 - 1 :: clong) = of_nat n"
  by simp

lemma reads_string: "wf_str s \<Longrightarrow> reads r_string (enc_string s) (Some s) D D"
proof -
  assume s: "wf_str s"
  then have len: "length s + 1 < 2 ^ 32" and nul: "0 \<notin> set s"
    by (auto simp: wf_str_def)
  let ?l = "of_nat (length s) + 1 :: clong"
  have l: "?l = of_nat (length s + 1)" by simp
  have u: "unat ?l = length s + 1" "unat (ucast ?l :: cint) = length s + 1"
    "unat (?l - 1) = length s"
    using of_nat_len [OF len] of_nat_len(1) [of "length s"] len
    by (metis l, metis l, metis of_nat_pred Suc_eq_plus1 Suc_lessD)
  then have "?l \<noteq> 0" by (metis unat_0 add_is_0 one_neq_zero)
  then show ?thesis
    unfolding r_string_def enc_string_def
    by (intro reads_bind [OF reads_getu])
      (use u len nul in \<open>auto intro!: reads_bind_last [OF reads_read] reads_ret\<close>)
qed

lemma reads_no_string: "reads r_string (sfputu_bytes 0) None D D"
  unfolding r_string_def by (rule reads_bind_last [OF reads_getu]) (simp add: reads_ret)

lemma reads_strings:
  "\<forall>s \<in> set ss. wf_str s \<Longrightarrow> length ss \<le> k \<Longrightarrow>
   reads (r_strings k) (concat (map enc_string ss) @ sfputu_bytes 0) ss D D"
proof (induction ss arbitrary: k)
  case Nil
  show ?case
    by (subst r_strings.simps, simp, rule reads_bind_last [OF reads_no_string]) (simp add: reads_ret)
next
  case (Cons s ss)
  then obtain k' where k: "k = Suc k'" by (cases k) auto
  have "reads (r_strings k') (concat (map enc_string ss) @ sfputu_bytes 0) ss D D"
    using Cons k by simp
  then have "reads (rbind (r_strings k') (\<lambda>ss. rret (s # ss)))
      (concat (map enc_string ss) @ sfputu_bytes 0) (s # ss) D D"
    by (rule reads_bind_last) (simp add: reads_ret)
  then show ?case
    using Cons.prems k
    by (subst r_strings.simps, simp, intro reads_bind [OF reads_string]) simp_all
qed

lemma reads_heredoc:
  assumes "fst pos + unat (snd pos) \<le> length H" "0 \<le>s snd pos"
  shows "reads r_heredoc (sfputl_bytes (snd pos) @ doc_text H pos)
     (length (docs_text D), snd pos) D (Some (docs_text D @ doc_text H pos))"
proof -
  have "length (doc_text H pos) = unat (snd pos)"
    using assms(1) by (auto simp: doc_text_def split: prod.splits)
  moreover have "\<not> snd pos <s 0"
    using assms(2) by (simp add: word_sless_alt word_sle_eq)
  ultimately show ?thesis
    unfolding r_heredoc_def
    by (intro reads_bind [OF reads_getl]) (auto simp: reads_def docs_text_def Let_def split: option.splits)
qed

definition doc_ok :: "byte list \<Rightarrow> docpos \<Rightarrow> bool" where
  "doc_ok H pos \<longleftrightarrow> fst pos + unat (snd pos) \<le> length H \<and> 0 \<le>s snd pos"

definition enc_doc :: "byte list \<Rightarrow> (byte list \<times> docpos) option \<Rightarrow> byte list" where
  "enc_doc H doc = (case doc of None \<Rightarrow> sfputu_bytes 0
      | Some (del, pos) \<Rightarrow> enc_string del @ sfputl_bytes (snd pos) @ doc_text H pos)"

lemma reads_iodelim:
  assumes "case doc of None \<Rightarrow> True | Some (del, d) \<Rightarrow> wf_str del \<and> doc_ok H d"
  shows "reads r_iodelim (enc_doc H doc) (fst (reload_doc H doc D)) D (snd (reload_doc H doc D))"
proof (cases doc)
  case None
  then show ?thesis
    unfolding r_iodelim_def enc_doc_def reload_doc_def
    by (simp add: reads_bind_last [OF reads_no_string] reads_ret)
next
  case (Some x)
  obtain del pos where x: "x = (del, pos)" by (cases x)
  then have "wf_str del" "doc_ok H pos"
    using assms Some by auto
  then show ?thesis
    unfolding r_iodelim_def enc_doc_def reload_doc_def Some x
    by (auto simp: doc_ok_def intro!: reads_bind [OF reads_string] reads_bind_last [OF reads_heredoc] reads_ret)
qed


section \<open>Reading a tree back\<close>

text \<open>The tag read back is the tag written, and not the mark of a null tree.\<close>

lemma reads_tag:
  assumes "tag_in ty ts"
  shows "\<not> (scast ty :: clong) <s 0"
  using assms by (simp add: tag_in_def word_sless_alt word_sle_eq sint_up_scast is_up)

lemma reads_io_word: "\<not> (ucast (f :: cint) :: clong) <s 0" "ucast (ucast f :: clong) = f"
proof -
  have "\<not> bit (ucast f :: clong) 63" by (auto simp: bit_simps dest: bit_imp_le_length)
  then show "\<not> (ucast f :: clong) <s 0"
    using bit_last_iff [of "ucast f :: clong"] by (simp add: word_sless_alt)
  show "ucast (ucast f :: clong) = f"
    by (rule bit_word_eqI) (simp add: bit_simps)
qed

lemma reads_flag: "0 \<le>s (fl :: byte) \<Longrightarrow> \<not> (scast fl :: clong) <s 0" "ucast (scast fl :: clong) = fl"
proof -
  show "0 \<le>s fl \<Longrightarrow> \<not> (scast fl :: clong) <s 0"
    by (simp add: word_sless_alt word_sle_eq sint_up_scast is_up)
  show "ucast (scast fl :: clong) = fl"
    by (rule bit_word_eqI) (simp add: bit_word_ucast_iff bit_word_scast_iff)
qed

lemma bit_io_flags:
  "bit IOVNM n \<longleftrightarrow> n = 16" "bit IOLSEEK n \<longleftrightarrow> n = 17" "bit IOPROCSUB n \<longleftrightarrow> n = 18"
proof -
  have "bit (push_bit 16 1 :: cint) n \<longleftrightarrow> n = 16" "bit (push_bit 17 1 :: cint) n \<longleftrightarrow> n = 17"
    "bit (push_bit 18 1 :: cint) n \<longleftrightarrow> n = 18"
    by (simp_all only: bit_push_bit_iff bit_1_iff) (auto simp: bit_simps)
  then show "bit IOVNM n \<longleftrightarrow> n = 16" "bit IOLSEEK n \<longleftrightarrow> n = 17" "bit IOPROCSUB n \<longleftrightarrow> n = 18"
    by (simp_all add: IOVNM_def IOLSEEK_def IOPROCSUB_def)
qed

lemma io_flag_test:
  "f AND IOVNM = 0 \<longleftrightarrow> \<not> bit f 16" "f AND IOLSEEK = 0 \<longleftrightarrow> \<not> bit f 17"
  "f AND IOPROCSUB = 0 \<longleftrightarrow> \<not> bit f 18"
  using and_exp_eq_0_iff_not_bit [of f 16] and_exp_eq_0_iff_not_bit [of f 17]
    and_exp_eq_0_iff_not_bit [of f 18]
  by (simp_all add: IOVNM_def IOLSEEK_def IOPROCSUB_def)

lemma IOVNM_nonzero [simp]: "IOVNM \<noteq> 0"
  by (simp add: IOVNM_def)

lemma iovnm_bits:
  assumes "f AND IOVNM = 0"
  shows "(f OR IOVNM) AND NOT IOVNM = f" "f AND NOT IOVNM = f" "(f OR IOVNM) AND IOVNM \<noteq> 0"
    "io_is_tree (f OR IOVNM) = io_is_tree f"
proof -
  have f: "\<not> bit f 16"
    using assms by (simp add: io_flag_test)
  show "(f OR IOVNM) AND NOT IOVNM = f" "f AND NOT IOVNM = f"
    using f by (auto intro!: bit_word_eqI simp: bit_simps bit_io_flags)
  show "(f OR IOVNM) AND IOVNM \<noteq> 0" "io_is_tree (f OR IOVNM) = io_is_tree f"
    by (simp_all only: io_is_tree_def io_flag_test) (simp_all add: bit_simps bit_io_flags)
qed

text \<open>What \<open>r_tree\<close> does once it has the tag.\<close>

definition r_body :: "('n, 'a) loader \<Rightarrow> nat \<Rightarrow> cint \<Rightarrow> (docpos, 'n option, 'a option) shnode rd" where
  "r_body L n ty =
       (let k = ty AND COMMSK in
         if k = TTIME \<or> k = TPAR then
           rbind (r_tree L n) (\<lambda>t. rret (ParNod ty t))
         else if k = TCOM then r_comarg L ty (r_redirect L n) (r_arg L n)
         else if k = TSETIO \<or> k = TFORK then
           rbind r_getu (\<lambda>line. rbind (r_tree L n) (\<lambda>t. rbind (r_redirect L n) (\<lambda>io.
             rret (ForkNod ty io t (ucast line)))))
         else if k = TIF then
           rbind (r_tree L n) (\<lambda>c. rbind (r_tree L n) (\<lambda>t. rbind (r_tree L n) (\<lambda>e.
             rret (IfNod ty c t e))))
         else if k = TWH then
           rbind (r_tree L n) (\<lambda>i. rbind (r_tree L n) (\<lambda>c. rbind (r_tree L n) (\<lambda>d.
             rret (WhNod ty c d i))))
         else if k = TLST \<or> k = TAND \<or> k = TORF \<or> k = TFIL then
           rbind (r_tree L n) (\<lambda>l'. rbind (r_tree L n) (\<lambda>r. rret (LstNod ty l' r)))
         else if k = TARITH then
           rbind r_getu (\<lambda>line. rbind (r_arg L n) (\<lambda>a. case a of
             ArgNil \<Rightarrow> rfail Undef
           | ArgNod fl val chn nxt \<Rightarrow>
               rret (ArithNod ty (ucast line) a
                 (if fl AND ARG_RAW \<noteq> 0 then Some (arithcomp L val) else None))))
         else if k = TFOR then
           rbind (if ty AND FLINENO \<noteq> 0 then r_getu else rret 0) (\<lambda>line.
             rbind (r_tree L n) (\<lambda>t. rbind r_string (\<lambda>nam. rbind (r_tree L n) (\<lambda>lst.
               rret (ForNod ty nam t lst (ucast line))))))
         else if k = TSW then
           rbind (if ty AND FLINENO \<noteq> 0 then r_getu else rret 0) (\<lambda>line.
             rbind (r_arg L n) (\<lambda>a.
               rbind (if ty AND COMSCAN \<noteq> 0 then r_redirect L n else rret IoNil) (\<lambda>io.
                 rbind (r_switch L n) (\<lambda>r. rret (SwNod ty a r io (ucast line))))))
         else if k = TFUN then
           rbind r_getu (\<lambda>line. rbind r_string (\<lambda>nam. rbind (r_tree L n) (\<lambda>t.
             rbind (r_tree L n) (\<lambda>args. rret (FunctNod ty nam t (ucast line) args)))))
         else
           rbind r_getu (\<lambda>line.
             if ty AND TPAREN = TPAREN then
               rbind (r_tree L n) (\<lambda>t. rret (TstParNod ty t (ucast line)))
             else
               rbind (r_arg L n) (\<lambda>l'.
                 rbind (if ty AND TBINARY \<noteq> 0 then r_arg L n else rret ArgNil) (\<lambda>r.
                   rret (TstNod ty l' r (ucast line))))))"

lemma r_tree_body:
  "r_tree L (Suc n) = rbind r_getl (\<lambda>l. if l <s 0 then rret NullT else r_body L n (ucast l))"
  by (simp only: r_tree.simps r_body_def Let_def)

lemma reads_node:
  assumes "tag_in ty ts" "length (sfputl_bytes (scast ty) @ bs) \<le> n"
    and "\<And>m. length bs \<le> m \<Longrightarrow> reads (r_body L m ty) bs v D D'"
  shows "reads (r_tree L n) (sfputl_bytes (scast ty) @ bs) v D D'"
proof -
  obtain m where m: "n = Suc m"
    using assms(2) sfputl_bytes_length(1) [of "scast ty"] by (cases n) auto
  then have "length bs \<le> m"
    using assms(2) sfputl_bytes_length(1) [of "scast ty"] unfolding length_append by linarith
  then show ?thesis
    unfolding m r_tree_body
    using assms(1,3) by (intro reads_bind [OF reads_getl]) (simp add: reads_tag)
qed

text \<open>The chain field of a word, as \<open>r_arg\<close> reads it after the flags.\<close>

definition r_chn :: "('n, 'a) loader \<Rightarrow> nat \<Rightarrow> byte list \<Rightarrow> byte \<Rightarrow> (docpos, 'n option, 'a option) argchn rd" where
  "r_chn L n raw fl =
     (if cstr raw \<noteq> [] then rret ChnNil
      else if fl AND ARG_EXP \<noteq> 0 then rbind (r_tree L n) (\<lambda>t. rret (mk_chn t))
      else if arg_plain_flags fl then
        rbind r_getu (\<lambda>fty. rbind (r_tree L n) (\<lambda>t.
          if raw = [] then rfail Undef else rret (ChnFor (ucast fty) (cstr (tl raw)) t)))
      else rret ChnNil)"

lemma len_word:
  assumes "n + 1 < 2 ^ 31"
  shows "0 <s (of_nat n + 1 :: clong)" "unat (of_nat n + 1 :: clong) = n + 1"
    "unat (of_nat n + 1 - 1 :: clong) = n"
proof -
  have l: "(of_nat n + 1 :: clong) = of_nat (Suc n)"
    by simp
  show "unat (of_nat n + 1 :: clong) = n + 1"
    unfolding l using of_nat_len(1) [of "Suc n"] assms by (simp del: of_nat_Suc)
  have "sint (of_nat (Suc n) :: clong) = int (Suc n)"
    using assms by (simp only: signed_of_nat) (simp add: signed_take_bit_int_eq_self)
  then show "0 <s (of_nat n + 1 :: clong)"
    unfolding l by (simp add: word_sless_alt)
  show "unat (of_nat n + 1 - 1 :: clong) = n"
    using of_nat_len(1) [of n] assms by simp
qed

lemma count_word:
  assumes "0 < n" "n < 2 ^ 31"
  shows "0 <s (of_nat n :: clong)" "unat (of_nat n :: clong) = n"
    "ucast (of_nat n :: clong) = (of_nat n :: cint)"
proof -
  obtain k where k: "n = k + 1"
    using assms(1) by (metis Suc_eq_plus1 gr0_implies_Suc)
  then show "0 <s (of_nat n :: clong)" "unat (of_nat n :: clong) = n"
    using len_word(1,2) [of k] assms(2) by (simp_all add: add.commute)
  show "ucast (of_nat n :: clong) = (of_nat n :: cint)"
    using assms(2) by (simp add: unsigned_of_nat take_bit_nat_eq_self)
qed

lemma reads_word:
  assumes len: "length raw + 1 < 2 ^ 31"
    and chn: "reads (r_chn L n raw fl) bs chn D D1"
    and nxt: "reads (r_arg L n) cs nxt D1 D2"
  shows "reads (r_arg L (Suc n)) (sfputu_bytes (of_nat (length raw) + 1) @ raw @ [fl] @ bs @ cs)
     (ArgNod fl (cstr raw) chn nxt) D D2"
proof -
  have short: "\<not> (2 ^ 32 \<le> length raw + 1 \<or> length raw < length raw)"
    using len by simp
  have "reads (rbind r_getc (\<lambda>fl. rbind (r_chn L n raw fl) (\<lambda>chn.
          rbind (r_arg L n) (\<lambda>nxt. rret (ArgNod fl (cstr raw) chn nxt)))))
        ([fl] @ bs @ cs) (ArgNod fl (cstr raw) chn nxt) D D2"
    by (intro reads_bind [OF reads_getc] reads_bind [OF chn] reads_bind_last [OF nxt] reads_ret refl)
  then show ?thesis
    unfolding r_arg.simps r_chn_def [symmetric]
    by (intro reads_bind [OF reads_getu])
      (simp only: len_word [OF len] short simp_thms if_False if_True reads_bind [OF reads_read])
qed

lemma reads_name: "wf_name nam \<Longrightarrow> reads r_string (enc_name nam) nam D D"
  by (auto simp: wf_name_def enc_name_def reads_string split: option.splits)

lemmas reads_items = reads_bind [OF reads_getu] reads_bind [OF reads_name] reads_bind_last [OF reads_getu]
  reads_bind_last [OF reads_name] reads_bind_first [OF reads_ret] reads_ret

lemma reload_not_null: "fst (reload_tree L H t D) = NullT \<longleftrightarrow> t = NullT"
  by (cases t) (auto simp: split_beta)

lemma mk_chn_tree: "t \<noteq> NullT \<Longrightarrow> mk_chn t = ChnTree t"
  by (cases t) (auto simp: mk_chn_def)

lemma enc_word_not_Nil [simp]: "enc_word H fl val chn \<noteq> []"
  by (cases chn) auto

lemma enc_arg_not_Nil [simp]: "enc_arg H a \<noteq> []"
  by (cases a) auto

lemma reads_tree:
  fixes t :: "(docpos, 'n option, 'a option) shnode" and a :: "(docpos, 'n option, 'a option) argnod"
    and c :: "(docpos, 'n option, 'a option) argchn" and i :: "(docpos, 'n option, 'a option) ionod"
    and nm :: "(docpos, 'n option, 'a option) ioname" and ca :: "(docpos, 'n option, 'a option) comarg"
    and r :: "(docpos, 'n option, 'a option) regnod"
  shows "wf_tree (doc_ok H) t \<Longrightarrow> length (enc_tree H t) \<le> n \<Longrightarrow>
      reads (r_tree L n) (enc_tree H t) (fst (reload_tree L H t D)) D (snd (reload_tree L H t D))"
    and "wf_arg (doc_ok H) a \<Longrightarrow> length (enc_arg H a) \<le> n \<Longrightarrow>
      reads (r_arg L n) (enc_arg H a) (fst (reload_arg L H a D)) D (snd (reload_arg L H a D))"
    and "(case c of ChnNil \<Rightarrow> True
          | ChnTree t \<Rightarrow> wf_tree (doc_ok H) t \<longrightarrow> length (enc_tree H t) \<le> n \<longrightarrow>
              reads (r_tree L n) (enc_tree H t) (fst (reload_tree L H t D)) D (snd (reload_tree L H t D))
          | ChnFor ty nam t \<Rightarrow> wf_tree (doc_ok H) t \<longrightarrow> length (enc_tree H t) \<le> n \<longrightarrow>
              reads (r_tree L n) (enc_tree H t) (fst (reload_tree L H t D)) D (snd (reload_tree L H t D)))"
    and "wf_io (doc_ok H) i \<Longrightarrow> length (enc_io H i) \<le> n \<Longrightarrow>
      reads (r_redirect L n) (enc_io H i) (fst (reload_io L H i D)) D (snd (reload_io L H i D))"
    and "wf_ioname (doc_ok H) f nm \<Longrightarrow> length (enc_ioname H nm) \<le> n \<Longrightarrow>
      reads (if io_is_tree f then rbind (r_tree L n) (\<lambda>t. rret (IoTree t))
             else rbind r_string (\<lambda>s. rret (IoStr s)))
        (enc_ioname H nm) (fst (reload_ioname L H nm D)) D (snd (reload_ioname L H nm D))"
    and "wf_comarg (doc_ok H) ty ca \<Longrightarrow> length (enc_comarg H ca) \<le> n \<Longrightarrow>
      (case ca of
         ComAp a \<Rightarrow> reads (r_arg L n) (enc_arg H a) (fst (reload_arg L H a D)) D (snd (reload_arg L H a D))
       | _ \<Rightarrow> reads r_comlist (enc_comarg H ca) ca D D)"
    and "wf_reg (doc_ok H) r \<Longrightarrow> length (enc_reg H r) \<le> n \<Longrightarrow>
      reads (r_switch L n) (enc_reg H r) (fst (reload_reg L H r D)) D (snd (reload_reg L H r D))"
proof (induction t and a and c and i and nm and ca and r
    arbitrary: n D and n D and n D and n D and f n D and ty n D and n D)
  case NullT
  then obtain m where "n = Suc m" by (cases n) auto
  then show ?case
    by (auto intro!: reads_bind_last [OF reads_getl] reads_ret)
next
  case (ParNod ty t)
  then show ?case
    unfolding enc_tree.simps
    by (intro reads_node [of _ "[TPAR, TTIME]"])
      (auto simp: r_body_def tag_in_def tag_defs split_beta Let_def intro!: reads_items
        reads_bind_last [OF ParNod.IH])
next
  case (ForkNod ty io t line)
  then show ?case
    unfolding enc_tree.simps
    by (intro reads_node [of _ "[TFORK, TSETIO]"])
      (auto simp: r_body_def tag_in_def tag_defs split_beta Let_def intro!: reads_items
        reads_bind [OF ForkNod.IH(2)] reads_bind_last [OF ForkNod.IH(1)])
next
  case (IfNod ty c t e)
  then show ?case
    unfolding enc_tree.simps
    by (intro reads_node [of _ "[TIF]"])
      (auto simp: r_body_def tag_in_def tag_defs split_beta Let_def intro!: reads_items
        reads_bind [OF IfNod.IH(1)] reads_bind [OF IfNod.IH(2)] reads_bind_last [OF IfNod.IH(3)])
next
  case (WhNod ty c d i)
  then show ?case
    unfolding enc_tree.simps
    by (intro reads_node [of _ "[TWH]"])
      (auto simp: r_body_def tag_in_def tag_defs split_beta Let_def intro!: reads_items
        reads_bind [OF WhNod.IH(3)] reads_bind [OF WhNod.IH(1)] reads_bind_last [OF WhNod.IH(2)])
next
  case (LstNod ty l r)
  then show ?case
    unfolding enc_tree.simps
    by (intro reads_node [of _ "[TLST, TAND, TORF, TFIL]"])
      (auto simp: r_body_def tag_in_def tag_defs split_beta Let_def intro!: reads_items
        reads_bind [OF LstNod.IH(1)] reads_bind_last [OF LstNod.IH(2)])
next
  case (ForNod ty nam t l line)
  then show ?case
    unfolding enc_tree.simps
    by (intro reads_node [of _ "[TFOR]"])
      (auto simp: r_body_def tag_in_def tag_defs split_beta Let_def intro!: reads_items
        reads_bind [OF ForNod.IH(1)] reads_bind_last [OF ForNod.IH(2)])
next
  case (SwNod ty a r io line)
  then show ?case
    unfolding enc_tree.simps
    by (intro reads_node [of _ "[TSW]"])
      (auto simp: r_body_def tag_in_def tag_defs split_beta Let_def intro!: reads_items
        reads_bind [OF SwNod.IH(1)] reads_bind_last [OF SwNod.IH(2)])
next
  case (FunctNod ty nam t line args)
  then show ?case
    unfolding enc_tree.simps
    by (intro reads_node [of _ "[TFUN]"])
      (auto simp: r_body_def tag_in_def tag_defs split_beta Let_def intro!: reads_items
        reads_bind [OF FunctNod.IH(1)] reads_bind_last [OF FunctNod.IH(2)])
next
  case (TstParNod ty t line)
  then show ?case
    unfolding enc_tree.simps
    by (intro reads_node [of _ "[TTST]"])
      (auto simp: r_body_def tag_in_def tag_defs split_beta Let_def intro!: reads_items
        reads_bind_last [OF TstParNod.IH])
next
  case (ArithNod ty line a ac)
  have "reads (case fst (reload_arg L H a D) of ArgNil \<Rightarrow> rfail Undef
      | ArgNod fl val chn nxt \<Rightarrow> rret (ArithNod ty (ucast (scast line :: clong)) (fst (reload_arg L H a D))
          (if fl AND ARG_RAW \<noteq> 0 then Some (arithcomp L val) else None))) []
      (ArithNod ty line (fst (reload_arg L H a D)) (recompile L a)) (snd (reload_arg L H a D))
      (snd (reload_arg L H a D))"
    using ArithNod.prems by (cases a) (auto simp: recompile_def split_beta intro!: reads_ret)
  then show ?case
    using ArithNod.prems unfolding enc_tree.simps
    by (intro reads_node [of _ "[TARITH]"])
      (auto simp: r_body_def tag_in_def tag_defs split_beta Let_def
        intro!: reads_items reads_bind_last [OF ArithNod.IH])
next
  case (TstNod ty l r line)
  show ?case
  proof (cases "ty AND TBINARY = 0")
    case True
    then show ?thesis
      using TstNod unfolding enc_tree.simps
      by (intro reads_node [of _ "[TTST]"])
        (auto simp: r_body_def tag_in_def tag_defs split_beta Let_def intro!: reads_items
          reads_bind_last [OF TstNod.IH(1)])
  next
    case False
    then show ?thesis
      using TstNod unfolding enc_tree.simps
      by (intro reads_node [of _ "[TTST]"])
        (auto simp: r_body_def tag_in_def tag_defs split_beta Let_def intro!: reads_items
          reads_bind [OF TstNod.IH(1)] reads_bind_last [OF TstNod.IH(2)])
  qed
next
  case ArgNil
  then obtain m where "n = Suc m" by (cases n) auto
  then show ?case
    by (auto intro!: reads_bind_last [OF reads_getu] reads_ret)
next
  case (ArgNod fl val chn nxt)
  then obtain m where m: "n = Suc m" by (cases n) auto
  have le: "length (enc_arg H nxt) \<le> m"
    "\<And>t. chn = ChnTree t \<Longrightarrow> length (enc_tree H t) \<le> m"
    "\<And>ty nam t. chn = ChnFor ty nam t \<Longrightarrow> length (enc_tree H t) \<le> m"
    using ArgNod.prems(2) m enc_word_not_Nil [of H fl val chn] enc_arg_not_Nil [of H nxt]
    by (auto simp flip: length_greater_0_conv simp del: enc_word_not_Nil)
  have wf: "wf_str val" "wf_chn (doc_ok H) fl val chn" "wf_arg (doc_ok H) nxt"
    using ArgNod.prems(1) by simp_all
  then have val: "length val + 1 < 2 ^ 31" "cstr val = val"
    by (auto simp: wf_str_def)
  note nxt = ArgNod.IH(2) [OF wf(3) le(1)]
  show ?case
  proof (cases chn)
    case ChnNil
    then have "reads (r_chn L m val fl) [] ChnNil D D"
      using wf(2) val(2) by (auto simp: r_chn_def intro: reads_ret)
    from reads_word [OF val(1) this nxt] show ?thesis
      using ChnNil val(2) by (simp add: m split_beta)
  next
    case (ChnTree t)
    then have t: "val = []" "fl AND ARG_EXP \<noteq> 0" "t \<noteq> NullT" "wf_tree (doc_ok H) t"
      using wf(2) by auto
    then have "reads (r_tree L m) (enc_tree H t) (fst (reload_tree L H t D)) D (snd (reload_tree L H t D))"
      using ArgNod.IH(1) [of m D] ChnTree le(2) by simp
    then have "reads (r_chn L m val fl) (enc_tree H t) (ChnTree (fst (reload_tree L H t D))) D
        (snd (reload_tree L H t D))"
      using t unfolding r_chn_def
      by (auto simp: mk_chn_tree reload_not_null intro!: reads_bind_last reads_ret)
    from reads_word [OF val(1) this nxt] show ?thesis
      using ChnTree val(2) by (simp add: m split_beta)
  next
    case (ChnFor ty nam t)
    then have t: "val = []" "arg_plain_flags fl" "fl AND ARG_EXP = 0" "wf_str nam" "wf_tree (doc_ok H) t"
      using wf(2) by auto
    then have nam: "length (0 # nam) + 1 < 2 ^ 31" "cstr nam = nam"
      by (auto simp: wf_str_def)
    have "reads (r_tree L m) (enc_tree H t) (fst (reload_tree L H t D)) D (snd (reload_tree L H t D))"
      using ArgNod.IH(1) [of m D] ChnFor t le(3) by simp
    then have "reads (r_chn L m (0 # nam) fl) (sfputu_bytes (scast ty) @ enc_tree H t)
        (ChnFor ty nam (fst (reload_tree L H t D))) D (snd (reload_tree L H t D))"
      using t nam(2) unfolding r_chn_def
      by (auto intro!: reads_bind [OF reads_getu] reads_bind_last reads_ret)
    from reads_word [OF nam(1) this nxt] show ?thesis
      using ChnFor t(1) by (simp add: m split_beta add.commute)
  qed
next
  case (IoNod f nm doc vn nxt)
  let ?D1 = "snd (reload_ioname L H nm D)"
  let ?D2 = "snd (reload_doc H doc ?D1)"
  obtain m where m: "n = Suc m" using IoNod by (cases n) auto
  have le: "length (enc_ioname H nm) \<le> m" "length (enc_io H nxt) \<le> m"
    using IoNod.prems(2) sfputl_bytes_length(1) [of "ucast (if vn = None then f else f OR IOVNM)"]
    unfolding m enc_io.simps length_append by linarith+
  have f: "f AND IOVNM = 0" using IoNod.prems by simp
  have wf: "wf_ioname (doc_ok H) f nm" "wf_io (doc_ok H) nxt"
    "case doc of None \<Rightarrow> True | Some (del, d) \<Rightarrow> wf_str del \<and> doc_ok H d"
    "case vn of None \<Rightarrow> True | Some v \<Rightarrow> wf_str v"
    using IoNod.prems by simp_all
  have vn: "reads (if (if vn = None then f else f OR IOVNM) AND IOVNM \<noteq> 0 then r_string else rret None)
      (case vn of None \<Rightarrow> [] | Some v \<Rightarrow> enc_string v) vn D' D'" for D'
    using wf(4) f by (cases vn) (auto simp: iovnm_bits(3) reads_string intro!: reads_ret)
  have ff: "io_is_tree (if vn = None then f else f OR IOVNM) = io_is_tree f"
    "(if vn = None then f else f OR IOVNM) AND NOT IOVNM = f"
    using iovnm_bits [OF f] by simp_all
  have items: "fst (reload_io L H (IoNod f nm doc vn nxt) D) =
      IoNod f (fst (reload_ioname L H nm D)) (fst (reload_doc H doc ?D1)) vn (fst (reload_io L H nxt ?D2))"
    "snd (reload_io L H (IoNod f nm doc vn nxt) D) = snd (reload_io L H nxt ?D2)"
    by (simp_all add: split_beta Let_def)
  show ?case
    unfolding m enc_io.simps enc_doc_def [symmetric] r_redirect.simps items
    by (rule reads_bind [OF reads_getl], simp only: reads_io_word if_False Let_def ff)
      (intro reads_bind [OF IoNod.IH(1) [OF wf(1) le(1)]] reads_bind [OF reads_iodelim [OF wf(3)]]
        reads_bind [OF vn] reads_bind_last [OF IoNod.IH(2) [OF wf(2) le(2)]] reads_ret refl)
next
  case IoNil
  then obtain m where "n = Suc m" by (cases n) auto
  then show ?case
    by (auto intro!: reads_bind_last [OF reads_getl] reads_ret)
next
  case (IoStr s)
  then show ?case
    by (auto intro!: reads_bind_last [OF reads_name] reads_ret)
next
  case (IoTree t)
  then show ?case
    by (auto simp: split_beta intro!: reads_bind_last [OF IoTree.IH] reads_ret)
next
  case ComNone
  then show ?case
    by (auto simp: r_comlist_def intro!: reads_bind_last [OF reads_getl] reads_ret)
next
  case (ComDp k l)
  then have l: "length l < 2 ^ 31" "l \<noteq> []" "k = of_nat (length l)" "\<forall>s \<in> set l. wf_str s"
    by simp_all
  have u: "unat (of_nat (length l) :: clong) = length l" "0 <s (of_nat (length l) :: clong)"
    "ucast (of_nat (length l) :: clong) = (of_nat (length l) :: cint)"
    using count_word [of "length l"] l(1,2) by simp_all
  show ?case
    using l(4) unfolding r_comlist_def l(3) comarg.case enc_comarg.simps
    by (intro reads_bind [OF reads_getl])
      (simp only: u if_True, intro reads_bind_last [OF reads_strings] reads_ret, simp_all)
next
  case RegNil
  then obtain m where "n = Suc m" by (cases n) auto
  then show ?case
    by (auto intro!: reads_bind_last [OF reads_getl] reads_ret)
next
  case (RegNod fl a t nxt)
  then obtain m where m: "n = Suc m" by (cases n) auto
  have le: "length (enc_arg H a) \<le> m" "length (enc_tree H t) \<le> m" "length (enc_reg H nxt) \<le> m"
    using RegNod.prems(2) sfputl_bytes_length(1) [of "scast fl"]
    unfolding m enc_reg.simps length_append by linarith+
  show ?case
    using RegNod.prems(1) unfolding m enc_reg.simps r_switch.simps
    by (intro reads_bind [OF reads_getl])
      (auto simp: reads_flag split_beta Let_def le intro!: reads_bind [OF RegNod.IH(1)]
        reads_bind [OF RegNod.IH(2)] reads_bind_last [OF RegNod.IH(3)] reads_ret)
next
  case (ComNod ty io ca cs np line)
  show ?case
    unfolding enc_tree.simps
  proof (rule reads_node [of _ "[TCOM]"])
    fix m assume m: "length (enc_io H io @ enc_arg H cs @ enc_comarg H ca @ sfputu_bytes (scast line)) \<le> m"
    let ?D1 = "snd (reload_io L H io D)"
    let ?D2 = "snd (reload_arg L H cs ?D1)"
    have wf: "wf_comarg (doc_ok H) ty ca" "tag_in ty [TCOM]"
      using ComNod.prems by simp_all
    have io: "reads (r_redirect L m) (enc_io H io) (fst (reload_io L H io D)) D ?D1"
      and cs: "reads (r_arg L m) (enc_arg H cs) (fst (reload_arg L H cs ?D1)) ?D1 ?D2"
      using ComNod.IH(1,3) ComNod.prems(1) m by simp_all
    have body: "r_body L m ty = r_comarg L ty (r_redirect L m) (r_arg L m)"
      using wf(2) by (simp add: r_body_def tag_in_def tag_defs Let_def)
    show "reads (r_body L m ty) (enc_io H io @ enc_arg H cs @ enc_comarg H ca @ sfputu_bytes (scast line))
        (fst (reload_tree L H (ComNod ty io ca cs np line) D)) D
        (snd (reload_tree L H (ComNod ty io ca cs np line) D))"
    proof (cases "ty AND COMSCAN = 0")
      case True
      then have "reads r_comlist (enc_comarg H ca) ca ?D2 ?D2" "reload_comarg L H ca ?D2 = (ca, ?D2)"
        and "command_name ty ca = (case ca of ComDp n (s # ss) \<Rightarrow> Some s | _ \<Rightarrow> None)"
        using ComNod.IH(2) [OF wf(1), of m ?D2] wf(1) m
        by (auto simp: command_name_def split: comarg.splits list.splits)
      then show ?thesis
        unfolding body r_comarg_def
        by (intro reads_bind [OF io] reads_bind [OF cs])
          (auto simp: True split_beta Let_def intro!: reads_bind reads_bind_last [OF reads_getu] reads_ret)
    next
      case False
      then obtain a where ca: "ca = ComAp a" "a \<noteq> ArgNil"
        using wf(1) by (cases ca) auto
      then obtain fl val c' n' where a': "fst (reload_arg L H a ?D2) = ArgNod fl val c' n'"
        and nm: "command_name ty ca = (if fl = ARG_RAW then Some val else None)"
        by (cases a) (auto simp: command_name_def split_beta)
      have "reads (r_arg L m) (enc_arg H a) (ArgNod fl val c' n') ?D2 (snd (reload_arg L H a ?D2))"
        using ComNod.IH(2) [OF wf(1), of m ?D2] m ca by (simp add: a')
      then show ?thesis
        using nm unfolding body r_comarg_def ca(1) enc_comarg.simps
        by (intro reads_bind [OF io] reads_bind [OF cs])
          (auto simp: False split_beta Let_def a'
            intro!: reads_bind reads_bind_last [OF reads_getu] reads_ret)
    qed
  qed (use ComNod.prems in auto)
qed auto


section \<open>The tree as its reader sees it\<close>

text \<open>
  A tree with each here-document's text in place of where it is stored, and without the two fields
  the loader computes.
\<close>

definition tree_view :: "byte list \<Rightarrow> (docpos, 'n, 'a) shnode \<Rightarrow> (byte list, unit, unit) shnode" where
  "tree_view H = map_shnode (doc_text H) (\<lambda>_. ()) (\<lambda>_. ())"

text \<open>The reader only appends to the here-document file.\<close>

lemma reload_doc_grows: "prefix (docs_text D) (docs_text (snd (reload_doc H doc D)))"
  by (auto simp: reload_doc_def docs_text_def split: option.splits)

lemma reload_grows:
  fixes t :: "(docpos, 'n option, 'a option) shnode" and a :: "(docpos, 'n option, 'a option) argnod"
    and c :: "(docpos, 'n option, 'a option) argchn" and i :: "(docpos, 'n option, 'a option) ionod"
    and nm :: "(docpos, 'n option, 'a option) ioname" and ca :: "(docpos, 'n option, 'a option) comarg"
    and r :: "(docpos, 'n option, 'a option) regnod"
  shows "prefix X (docs_text D) \<Longrightarrow> prefix X (docs_text (snd (reload_tree L H t D)))"
    and "prefix X (docs_text D) \<Longrightarrow> prefix X (docs_text (snd (reload_arg L H a D)))"
    and "prefix X (docs_text D) \<Longrightarrow> prefix X (docs_text (snd (reload_chn L H c D)))"
    and "prefix X (docs_text D) \<Longrightarrow> prefix X (docs_text (snd (reload_io L H i D)))"
    and "prefix X (docs_text D) \<Longrightarrow> prefix X (docs_text (snd (reload_ioname L H nm D)))"
    and "prefix X (docs_text D) \<Longrightarrow> prefix X (docs_text (snd (reload_comarg L H ca D)))"
    and "prefix X (docs_text D) \<Longrightarrow> prefix X (docs_text (snd (reload_reg L H r D)))"
proof (induction t and a and c and i and nm and ca and r
    arbitrary: D and D and D and D and D and D and D)
qed (auto simp: split_beta Let_def intro: prefix_order.trans [OF _ reload_doc_grows])

lemmas prefix_back = reload_grows [OF prefix_order.refl, THEN prefix_order.trans]
  reload_doc_grows [THEN prefix_order.trans]

lemma reload_doc_view:
  assumes "case doc of None \<Rightarrow> True | Some (del, d) \<Rightarrow> wf_str del \<and> doc_ok H d"
    and "prefix (docs_text (snd (reload_doc H doc D))) E"
  shows "map_option (map_prod id (doc_text E)) (fst (reload_doc H doc D)) =
    map_option (map_prod id (doc_text H)) doc"
proof (cases doc)
  case None
  then show ?thesis by (simp add: reload_doc_def)
next
  case (Some x)
  obtain del off size where x: "x = (del, off, size)" by (cases x)
  have len: "length (doc_text H (off, size)) = unat size"
    using assms(1) Some x by (auto simp: doc_ok_def doc_text_def)
  obtain y where E: "E = docs_text D @ doc_text H (off, size) @ y"
    using assms(2) Some x by (auto simp: reload_doc_def docs_text_def prefix_def)
  have "take (unat size) (drop (length (docs_text D)) E) = doc_text H (off, size)"
    unfolding E using len by simp
  then have "doc_text E (length (docs_text D), size) = doc_text H (off, size)"
    by (simp add: doc_text_def)
  then show ?thesis
    using Some x by (simp add: reload_doc_def)
qed

lemma reload_view:
  fixes t :: "(docpos, 'n option, 'a option) shnode" and a :: "(docpos, 'n option, 'a option) argnod"
    and c :: "(docpos, 'n option, 'a option) argchn" and i :: "(docpos, 'n option, 'a option) ionod"
    and nm :: "(docpos, 'n option, 'a option) ioname" and ca :: "(docpos, 'n option, 'a option) comarg"
    and r :: "(docpos, 'n option, 'a option) regnod"
  shows "wf_tree (doc_ok H) t \<Longrightarrow> prefix (docs_text (snd (reload_tree L H t D))) E \<Longrightarrow>
      map_shnode (doc_text E) (\<lambda>_. ()) (\<lambda>_. ()) (fst (reload_tree L H t D)) =
      map_shnode (doc_text H) (\<lambda>_. ()) (\<lambda>_. ()) t"
    and "wf_arg (doc_ok H) a \<Longrightarrow> prefix (docs_text (snd (reload_arg L H a D))) E \<Longrightarrow>
      map_argnod (doc_text E) (\<lambda>_. ()) (\<lambda>_. ()) (fst (reload_arg L H a D)) =
      map_argnod (doc_text H) (\<lambda>_. ()) (\<lambda>_. ()) a"
    and "wf_chn (doc_ok H) fl val c \<Longrightarrow> prefix (docs_text (snd (reload_chn L H c D))) E \<Longrightarrow>
      map_argchn (doc_text E) (\<lambda>_. ()) (\<lambda>_. ()) (fst (reload_chn L H c D)) =
      map_argchn (doc_text H) (\<lambda>_. ()) (\<lambda>_. ()) c"
    and "wf_io (doc_ok H) i \<Longrightarrow> prefix (docs_text (snd (reload_io L H i D))) E \<Longrightarrow>
      map_ionod (doc_text E) (\<lambda>_. ()) (\<lambda>_. ()) (fst (reload_io L H i D)) =
      map_ionod (doc_text H) (\<lambda>_. ()) (\<lambda>_. ()) i"
    and "wf_ioname (doc_ok H) f nm \<Longrightarrow> prefix (docs_text (snd (reload_ioname L H nm D))) E \<Longrightarrow>
      map_ioname (doc_text E) (\<lambda>_. ()) (\<lambda>_. ()) (fst (reload_ioname L H nm D)) =
      map_ioname (doc_text H) (\<lambda>_. ()) (\<lambda>_. ()) nm"
    and "wf_comarg (doc_ok H) tg ca \<Longrightarrow> prefix (docs_text (snd (reload_comarg L H ca D))) E \<Longrightarrow>
      map_comarg (doc_text E) (\<lambda>_. ()) (\<lambda>_. ()) (fst (reload_comarg L H ca D)) =
      map_comarg (doc_text H) (\<lambda>_. ()) (\<lambda>_. ()) ca"
    and "wf_reg (doc_ok H) r \<Longrightarrow> prefix (docs_text (snd (reload_reg L H r D))) E \<Longrightarrow>
      map_regnod (doc_text E) (\<lambda>_. ()) (\<lambda>_. ()) (fst (reload_reg L H r D)) =
      map_regnod (doc_text H) (\<lambda>_. ()) (\<lambda>_. ()) r"
proof (induction t and a and c and i and nm and ca and r
    arbitrary: D and D and D fl val and D and D f and D tg and D)
  case (IoNod f nm d vn nxt)
  let ?D1 = "snd (reload_ioname L H nm D)"
  let ?D2 = "snd (reload_doc H d ?D1)"
  have p3: "prefix (docs_text (snd (reload_io L H nxt ?D2))) E"
    using IoNod.prems(2) by (simp add: split_beta Let_def)
  then have p2: "prefix (docs_text ?D2) E" by (rule prefix_back)
  then have p1: "prefix (docs_text ?D1) E" by (rule prefix_back)
  show ?case
    using IoNod.IH(1) [OF _ p1, of f] IoNod.IH(2) [OF _ p3] IoNod.prems(1) reload_doc_view [OF _ p2]
    by (simp add: split_beta Let_def)
qed (auto simp: split_beta Let_def intro: prefix_back, (meson prefix_back)+)

theorem tree_view_reload:
  assumes "wf_tree (doc_ok H) t"
  shows "tree_view (docs_text (snd (reload_tree L H t D))) (fst (reload_tree L H t D)) = tree_view H t"
  using reload_view(1) [OF assms] by (simp add: tree_view_def)

end
