(* ===== verification/TRestoreTotal.thy ===== *)
theory TRestoreTotal
  imports TRestore
begin

text \<open>
  The loader stops on every input, well-formed or not: every node and every link of a chain takes
  at least one byte, and at the end of the file the readers return a null tree or an end of chain.
\<close>

definition safe :: "nat \<Rightarrow> 'v rd \<Rightarrow> bool" where
  "safe k m \<longleftrightarrow> (\<forall>s. length (rin s) \<le> k \<longrightarrow>
     (case m s of Inl e \<Rightarrow> e = Undef | Inr (v, s') \<Rightarrow> length (rin s') \<le> length (rin s)))"

lemma safeD:
  "safe k m \<Longrightarrow> length (rin s) \<le> k \<Longrightarrow>
    (case m s of Inl e \<Rightarrow> e = Undef | Inr (v, s') \<Rightarrow> length (rin s') \<le> length (rin s))"
  unfolding safe_def by blast

lemma safe_ret [simp, intro]: "safe k (rret v)"
  by (simp add: safe_def rret_def)

lemma safe_undef [simp, intro]: "safe k (rfail Undef)"
  by (simp add: safe_def rfail_def)

lemma safe_bind:
  assumes m: "safe k m" and f: "\<And>v. safe k (f v)"
  shows "safe k (rbind m f)"
  unfolding safe_def
proof (intro allI impI)
  fix s :: rstate assume len: "length (rin s) \<le> k"
  show "case rbind m f s of Inl e \<Rightarrow> e = Undef | Inr (v, s') \<Rightarrow> length (rin s') \<le> length (rin s)"
  proof (cases "m s")
    case (Inl e)
    then show ?thesis using m len by (auto simp: safe_def rbind_def)
  next
    case (Inr x)
    obtain v s' where x: "x = (v, s')" by (cases x)
    have le: "length (rin s') \<le> length (rin s)"
      using m len Inr x by (force simp: safe_def)
    then have "case f v s' of Inl e \<Rightarrow> e = Undef | Inr (w, s'') \<Rightarrow> length (rin s'') \<le> length (rin s')"
      using f [of v] len by (auto simp: safe_def)
    then show ?thesis
      using Inr x le by (auto simp: rbind_def split: sum.splits prod.splits)
  qed
qed

lemma safe_if: "safe k a \<Longrightarrow> safe k b \<Longrightarrow> safe k (if c then a else b)"
  by simp

lemma safe_word: "safe k (f ArgNil) \<Longrightarrow> (\<And>fl val chn nxt. safe k (f (ArgNod fl val chn nxt))) \<Longrightarrow> safe k (f a)"
  by (cases a) auto

lemma safe_mono: "safe k m \<Longrightarrow> j \<le> k \<Longrightarrow> safe j m"
  by (auto simp: safe_def)

text \<open>A number takes at least one byte unless the input is at its end, and then it is -1.\<close>

lemma sfgetl_loop_length:
  "sfgetl_loop v s = (w, s') \<Longrightarrow> (s = [] \<and> w = - 1 \<and> s' = []) \<or> length s' < length s"
  by (induction v s rule: sfgetl_loop.induct) (auto simp: Let_def split: if_splits)

lemma sfgetu_loop_length:
  "sfgetu_loop v s = (w, s') \<Longrightarrow> (s = [] \<and> w = - 1 \<and> s' = []) \<or> length s' < length s"
  by (induction v s rule: sfgetu_loop.induct) (auto simp: Let_def split: if_splits)

lemma safe_getl [simp, intro]: "safe k r_getl"
  unfolding safe_def
proof (intro allI impI)
  fix s :: rstate
  obtain v s' where l: "sfgetl_loop 0 (rin s) = (v, s')" by fastforce
  then show "case r_getl s of Inl e \<Rightarrow> e = Undef | Inr (v, s') \<Rightarrow> length (rin s') \<le> length (rin s)"
    using sfgetl_loop_length [OF l] by (auto simp: r_getl_def sfgetl_def)
qed

lemma safe_getu [simp, intro]: "safe k r_getu"
  unfolding safe_def
proof (intro allI impI)
  fix s :: rstate
  obtain v s' where l: "sfgetu_loop 0 (rin s) = (v, s')" by fastforce
  then show "case r_getu s of Inl e \<Rightarrow> e = Undef | Inr (v, s') \<Rightarrow> length (rin s') \<le> length (rin s)"
    using sfgetu_loop_length [OF l] by (auto simp: r_getu_def sfgetu_def)
qed

lemma safe_getc [simp, intro]: "safe k r_getc"
  by (auto simp: safe_def r_getc_def split: list.splits)

lemma safe_read [simp, intro]: "safe k (r_read n)"
  by (auto simp: safe_def r_read_def)

lemma safe_string [simp, intro]: "safe k r_string"
  unfolding r_string_def by (auto intro!: safe_bind)

lemma safe_strings [simp, intro]: "safe k (r_strings n)"
proof (induction n)
  case 0
  show ?case by (subst r_strings.simps) (auto intro!: safe_bind split: option.splits)
next
  case (Suc n)
  then show ?case by (subst r_strings.simps) (auto intro!: safe_bind split: option.splits)
qed

lemma safe_comlist [simp, intro]: "safe k r_comlist"
  unfolding r_comlist_def by (auto intro!: safe_bind)

lemma safe_heredoc [simp, intro]: "safe k r_heredoc"
  unfolding r_heredoc_def by (rule safe_bind) (auto simp: safe_def Let_def intro: safe_getl [unfolded safe_def, rule_format])

lemma safe_iodelim [simp, intro]: "safe k r_iodelim"
  unfolding r_iodelim_def by (auto intro!: safe_bind split: option.splits)

lemma safe_comarg:
  "safe k r \<Longrightarrow> safe k a \<Longrightarrow> safe k (r_comarg L ty r a)"
  unfolding r_comarg_def Let_def by (auto intro!: safe_bind split: argnod.splits)

text \<open>After the number that starts a node there is a byte less, or it was the end mark.\<close>

lemma safe_after_getl:
  assumes "\<And>l. \<not> l <s 0 \<Longrightarrow> safe k (f l)" "\<And>l. l <s 0 \<Longrightarrow> f l = rret z"
  shows "safe (Suc k) (rbind r_getl f)"
  unfolding safe_def
proof (intro allI impI)
  fix s :: rstate assume len: "length (rin s) \<le> Suc k"
  obtain l s' where l: "sfgetl_loop 0 (rin s) = (l, s')" by fastforce
  show "case rbind r_getl f s of Inl e \<Rightarrow> e = Undef | Inr (v, s') \<Rightarrow> length (rin s') \<le> length (rin s)"
  proof (cases "l <s 0")
    case True
    then show ?thesis
      using l assms(2) [OF True] sfgetl_loop_length [OF l]
      by (auto simp: rbind_def r_getl_def sfgetl_def rret_def)
  next
    case False
    then have less: "length s' < length (rin s)"
      using sfgetl_loop_length [OF l] by auto
    then have "length (rin (s\<lparr>rin := s'\<rparr>)) \<le> k" using len by simp
    then have "case f l (s\<lparr>rin := s'\<rparr>) of Inl e \<Rightarrow> e = Undef | Inr (v, s'') \<Rightarrow> length (rin s'') \<le> length s'"
      using safeD [OF assms(1) [OF False], of "s\<lparr>rin := s'\<rparr>"]
      by (auto split: sum.splits)
    then show ?thesis
      using l less by (auto simp: rbind_def r_getl_def sfgetl_def split: sum.splits prod.splits)
  qed
qed

lemma safe_after_getu:
  assumes "\<And>l. 0 <s l \<Longrightarrow> safe k (f l)" "\<And>l. \<not> 0 <s l \<Longrightarrow> f l = rret z"
  shows "safe (Suc k) (rbind r_getu f)"
  unfolding safe_def
proof (intro allI impI)
  fix s :: rstate assume len: "length (rin s) \<le> Suc k"
  obtain l s' where l: "sfgetu_loop 0 (rin s) = (l, s')" by fastforce
  show "case rbind r_getu f s of Inl e \<Rightarrow> e = Undef | Inr (v, s') \<Rightarrow> length (rin s') \<le> length (rin s)"
  proof (cases "0 <s l")
    case False
    then show ?thesis
      using l assms(2) [OF False] sfgetu_loop_length [OF l]
      by (auto simp: rbind_def r_getu_def sfgetu_def rret_def)
  next
    case True
    then have less: "length s' < length (rin s)"
      using sfgetu_loop_length [OF l] by auto
    then have "length (rin (s\<lparr>rin := s'\<rparr>)) \<le> k" using len by simp
    then have "case f l (s\<lparr>rin := s'\<rparr>) of Inl e \<Rightarrow> e = Undef | Inr (v, s'') \<Rightarrow> length (rin s'') \<le> length s'"
      using safeD [OF assms(1) [OF True], of "s\<lparr>rin := s'\<rparr>"]
      by (auto split: sum.splits)
    then show ?thesis
      using l less by (auto simp: rbind_def r_getu_def sfgetu_def split: sum.splits prod.splits)
  qed
qed

lemma safe_readers:
  "safe n (r_tree L (Suc n)) \<and> safe n (r_arg L (Suc n)) \<and> safe n (r_redirect L (Suc n)) \<and>
   safe n (r_switch L (Suc n))"
proof (induction n)
  case 0
  show ?case
    by (simp add: safe_def rbind_def r_getl_def r_getu_def sfgetl_def sfgetu_def rret_def)
next
  case (Suc n)
  note IH = Suc.IH [THEN conjunct1] Suc.IH [THEN conjunct2, THEN conjunct1]
    Suc.IH [THEN conjunct2, THEN conjunct2, THEN conjunct1]
    Suc.IH [THEN conjunct2, THEN conjunct2, THEN conjunct2]
  note step = safe_if safe_bind safe_comarg safe_ret safe_undef safe_getl safe_getu safe_getc
    safe_read safe_string safe_iodelim IH
  have "safe (Suc n) (r_tree L (Suc (Suc n)))"
    unfolding r_tree.simps(2) [of L "Suc n"] Let_def
    by (rule safe_after_getl, intro step) (auto split: argnod.splits intro!: step)
  moreover have "safe (Suc n) (r_arg L (Suc (Suc n)))"
    unfolding r_arg.simps(2) [of L "Suc n"] Let_def
    by (rule safe_after_getu, intro step) auto
  moreover have "safe (Suc n) (r_redirect L (Suc (Suc n)))"
    unfolding r_redirect.simps(2) [of L "Suc n"] Let_def
    by (rule safe_after_getl, intro step) auto
  moreover have "safe (Suc n) (r_switch L (Suc (Suc n)))"
    unfolding r_switch.simps(2) [of L "Suc n"] Let_def
    by (rule safe_after_getl, intro step) auto
  ultimately show ?case by blast
qed

lemma sh_trestore_safe:
  "case sh_trestore L s of Inl e \<Rightarrow> e = Undef | Inr (t, s') \<Rightarrow> length (rin s') \<le> length (rin s)"
  using safe_readers [of "length (rin s)" L] by (simp add: sh_trestore_def safe_def)

end
