(* ===== verification/ArithTables.thy ===== *)
theory ArithTables
  imports KshPrelude
begin

text \<open>
  Tokens and tables of the arithmetic evaluator: \<open>include/streval.h\<close>, the tables of
  \<open>data/strdata.c\<close> and \<open>gettok\<close> of \<open>sh/streval.c\<close> (all under \<open>src/src/cmd/ksh26\<close>).  A token
  or opcode is its number in the header; a C string is its bytes without the final NUL, and a
  position in it a \<open>nat\<close>.
\<close>

section \<open>Token and opcode numbers\<close>

abbreviation (input) A_EOF :: nat where "A_EOF \<equiv> 1"
abbreviation (input) A_NEQ :: nat where "A_NEQ \<equiv> 2"
abbreviation (input) A_NOT :: nat where "A_NOT \<equiv> 3"
abbreviation (input) A_MOD :: nat where "A_MOD \<equiv> 4"
abbreviation (input) A_ANDAND :: nat where "A_ANDAND \<equiv> 5"
abbreviation (input) A_AND :: nat where "A_AND \<equiv> 6"
abbreviation (input) A_LPAR :: nat where "A_LPAR \<equiv> 7"
abbreviation (input) A_RPAR :: nat where "A_RPAR \<equiv> 8"
abbreviation (input) A_POW :: nat where "A_POW \<equiv> 9"
abbreviation (input) A_TIMES :: nat where "A_TIMES \<equiv> 10"
abbreviation (input) A_PLUSPLUS :: nat where "A_PLUSPLUS \<equiv> 11"
abbreviation (input) A_PLUS :: nat where "A_PLUS \<equiv> 12"
abbreviation (input) A_COMMA :: nat where "A_COMMA \<equiv> 13"
abbreviation (input) A_MINUSMINUS :: nat where "A_MINUSMINUS \<equiv> 14"
abbreviation (input) A_MINUS :: nat where "A_MINUS \<equiv> 15"
abbreviation (input) A_DIV :: nat where "A_DIV \<equiv> 16"
abbreviation (input) A_LSHIFT :: nat where "A_LSHIFT \<equiv> 17"
abbreviation (input) A_LE :: nat where "A_LE \<equiv> 18"
abbreviation (input) A_LT :: nat where "A_LT \<equiv> 19"
abbreviation (input) A_EQ :: nat where "A_EQ \<equiv> 20"
abbreviation (input) A_ASSIGN :: nat where "A_ASSIGN \<equiv> 21"
abbreviation (input) A_COLON :: nat where "A_COLON \<equiv> 22"
abbreviation (input) A_RSHIFT :: nat where "A_RSHIFT \<equiv> 23"
abbreviation (input) A_GE :: nat where "A_GE \<equiv> 24"
abbreviation (input) A_GT :: nat where "A_GT \<equiv> 25"
abbreviation (input) A_QCOLON :: nat where "A_QCOLON \<equiv> 26"
abbreviation (input) A_QUEST :: nat where "A_QUEST \<equiv> 27"
abbreviation (input) A_XOR :: nat where "A_XOR \<equiv> 28"
abbreviation (input) A_OROR :: nat where "A_OROR \<equiv> 29"
abbreviation (input) A_OR :: nat where "A_OR \<equiv> 30"
abbreviation (input) A_TILDE :: nat where "A_TILDE \<equiv> 31"
abbreviation (input) A_REG :: nat where "A_REG \<equiv> 32"
abbreviation (input) A_DIG :: nat where "A_DIG \<equiv> 33"
abbreviation (input) A_INCR :: nat where "A_INCR \<equiv> 34"
abbreviation (input) A_DECR :: nat where "A_DECR \<equiv> 35"
abbreviation (input) A_PUSHV :: nat where "A_PUSHV \<equiv> 36"
abbreviation (input) A_PUSHN :: nat where "A_PUSHN \<equiv> 38"
abbreviation (input) A_PUSHF :: nat where "A_PUSHF \<equiv> 39"
abbreviation (input) A_STORE :: nat where "A_STORE \<equiv> 40"
abbreviation (input) A_POP :: nat where "A_POP \<equiv> 41"
abbreviation (input) A_SWAP :: nat where "A_SWAP \<equiv> 42"
abbreviation (input) A_UMINUS :: nat where "A_UMINUS \<equiv> 43"
abbreviation (input) A_JMPZ :: nat where "A_JMPZ \<equiv> 44"
abbreviation (input) A_JMPNZ :: nat where "A_JMPNZ \<equiv> 45"
abbreviation (input) A_JMP :: nat where "A_JMP \<equiv> 46"
abbreviation (input) A_CALL1F :: nat where "A_CALL1F \<equiv> 47"
abbreviation (input) A_CALL2F :: nat where "A_CALL2F \<equiv> 48"
abbreviation (input) A_CALL3F :: nat where "A_CALL3F \<equiv> 49"
abbreviation (input) A_CALL1I :: nat where "A_CALL1I \<equiv> 50"
abbreviation (input) A_CALL2I :: nat where "A_CALL2I \<equiv> 51"
abbreviation (input) A_DOT :: nat where "A_DOT \<equiv> 52"
abbreviation (input) A_LIT :: nat where "A_LIT \<equiv> 53"
abbreviation (input) A_NOTNOT :: nat where "A_NOTNOT \<equiv> 54"
abbreviation (input) A_ASSIGNOP :: nat where "A_ASSIGNOP \<equiv> 55"
abbreviation (input) A_ENUM :: nat where "A_ENUM \<equiv> 56"
abbreviation (input) A_ASSIGNOP1 :: nat where "A_ASSIGNOP1 \<equiv> 57"

text \<open>The flag bits of an opcode byte.\<close>

abbreviation (input) T_OP :: nat where "T_OP \<equiv> 0x3f"
abbreviation (input) T_BINARY :: nat where "T_BINARY \<equiv> 0x40"
abbreviation (input) T_NOFLOAT :: nat where "T_NOFLOAT \<equiv> 0x80"

abbreviation (input) MAXPREC :: nat where "MAXPREC \<equiv> 15"
abbreviation (input) A_LVALUE :: nat where "A_LVALUE \<equiv> 32"

section \<open>Tables\<close>

text \<open>An entry of \<open>strval_precedence\<close>: the level and the flags SEQPOINT, NOASSIGN, RASSOC.\<close>

record prec =
  level :: nat
  seqpoint :: bool
  noassign :: bool
  rassoc :: bool

abbreviation (input) pr :: "nat \<Rightarrow> bool \<Rightarrow> bool \<Rightarrow> bool \<Rightarrow> prec" where
  "pr l n s r \<equiv> \<lparr>level = l, seqpoint = s, noassign = n, rassoc = r\<rparr>"

definition strval_precedence :: "prec list" where
  "strval_precedence =
    [pr 15 True False False,
     pr 0 True False True,      \<comment> \<open>end\<close>
     pr 10 True False False,    \<comment> \<open>!=\<close>
     pr 15 True False False,    \<comment> \<open>!\<close>
     pr 14 False False False,   \<comment> \<open>%\<close>
     pr 6 True True False,      \<comment> \<open>&&\<close>
     pr 9 False False False,    \<comment> \<open>&\<close>
     pr 15 True True False,     \<comment> \<open>(\<close>
     pr 1 True True True,       \<comment> \<open>)\<close>
     pr 14 True False True,     \<comment> \<open>**\<close>
     pr 14 False False False,   \<comment> \<open>*\<close>
     pr 15 True True False,     \<comment> \<open>++\<close>
     pr 13 False False False,   \<comment> \<open>+\<close>
     pr 1 True True False,      \<comment> \<open>,\<close>
     pr 15 True True False,     \<comment> \<open>--\<close>
     pr 13 False False False,   \<comment> \<open>-\<close>
     pr 14 False False False,   \<comment> \<open>/\<close>
     pr 12 False False False,   \<comment> \<open><<\<close>
     pr 11 True False False,    \<comment> \<open><=\<close>
     pr 11 True False False,    \<comment> \<open><\<close>
     pr 10 True False False,    \<comment> \<open>==\<close>
     pr 2 False False True,     \<comment> \<open>=\<close>
     pr 0 True False False,     \<comment> \<open>:\<close>
     pr 12 False False False,   \<comment> \<open>>>\<close>
     pr 11 True False False,    \<comment> \<open>>=\<close>
     pr 11 True False False,    \<comment> \<open>>\<close>
     pr 3 True True False,      \<comment> \<open>?:\<close>
     pr 3 True True True,       \<comment> \<open>?\<close>
     pr 8 False False False,    \<comment> \<open>^\<close>
     pr 5 True True False,      \<comment> \<open>||\<close>
     pr 7 False False False,    \<comment> \<open>|\<close>
     pr 15 True False False, pr 15 True False False, pr 15 True False False, pr 15 True False False]"

definition strval_states :: "nat list" where
  "strval_states =
    [A_EOF, A_REG, A_REG, A_REG, A_REG, A_REG, A_REG, A_REG,
     A_REG, 0, 0, A_REG, A_REG, A_REG, A_REG, A_REG,
     A_REG, A_REG, A_REG, A_REG, A_REG, A_REG, A_REG, A_REG,
     A_REG, A_REG, A_REG, A_REG, A_REG, A_REG, A_REG, A_REG,
     0, A_NOT, 0, A_REG, A_REG, A_MOD, A_AND, A_LIT,
     A_LPAR, A_RPAR, A_TIMES, A_PLUS, A_COMMA, A_MINUS, A_DOT, A_DIV,
     A_DIG, A_DIG, A_DIG, A_DIG, A_DIG, A_DIG, A_DIG, A_DIG,
     A_DIG, A_DIG, A_COLON, A_REG, A_LT, A_ASSIGN, A_GT, A_QUEST]"

text \<open>\<open>getop\<close>; bytes from 128 on are negative \<open>char\<close>s and take the first branch as well.\<close>

definition getop :: "byte \<Rightarrow> nat" where
  "getop c =
     (if unat c \<ge> 64
      then (if c = 124 then A_OR else if c = 94 then A_XOR else if c = 126 then A_TILDE else A_REG)
      else strval_states ! unat c)"

section \<open>Tokens\<close>

text \<open>The byte at a position, NUL at the end of the string.\<close>

definition chr_at :: "byte list \<Rightarrow> nat \<Rightarrow> byte" where
  "chr_at s i = (if i < length s then s ! i else 0)"

definition is_digit :: "byte \<Rightarrow> bool" where
  "is_digit c \<longleftrightarrow> 48 \<le> c \<and> c \<le> 57"

text \<open>The characters \<open>gettok\<close> skips (token number 0).\<close>

fun blanks :: "byte list \<Rightarrow> nat" where
  "blanks [] = 0"
| "blanks (c # cs) = (if getop c = 0 then Suc (blanks cs) else 0)"

text \<open>
  The \<open>switch\<close> of \<open>gettok\<close> for a character \<open>c\<close> of class \<open>op\<close>, followed by \<open>peek\<close>: the token and how
  many characters it takes.  The end of the text, a digit, a name or a literal is left to be read
  again.  \<open>comma\<close> says whether the radix character is a comma.
\<close>

definition tok_at :: "bool \<Rightarrow> nat \<Rightarrow> byte \<Rightarrow> byte \<Rightarrow> nat \<times> nat" where
  "tok_at comma op c peek =
     (if op = A_EOF then (op, 0)
      else if op = A_COMMA then (if comma \<and> is_digit peek then (A_DIG, 0) else (op, 1))
      else if op = A_DOT then ((if is_digit peek then A_DIG else A_REG), 0)
      else if op = A_DIG \<or> op = A_REG \<or> op = A_LIT then (op, 0)
      else if op = A_QUEST then (if peek = 58 then (A_QCOLON, 2) else (op, 1))
      else if (op = A_LT \<or> op = A_GT) \<and> peek = c then (op - 2, 2)
      else if (op = A_LT \<or> op = A_GT \<or> op = A_NOT \<or> op = A_COLON) \<and> peek = 61 then (op - 1, 2)
      else if op \<in> {A_ASSIGN, A_TIMES, A_PLUS, A_MINUS, A_OR, A_AND} \<and> peek = c then (op - 1, 2)
      else (op, 1))"

text \<open>
  \<open>gettok\<close> from position \<open>i\<close>: the token, the position where it starts (\<open>errchr\<close>) and the
  position after it (\<open>nextchr\<close>).
\<close>

definition gettok :: "bool \<Rightarrow> byte list \<Rightarrow> nat \<Rightarrow> nat \<times> nat \<times> nat" where
  "gettok comma s i =
     (let p = i + blanks (drop i s);
          c = chr_at s p
      in case tok_at comma (getop c) c (chr_at s (p + 1)) of (op, n) \<Rightarrow> (op, p, p + n))"

section \<open>Facts about tokens\<close>

lemma blanks_le: "blanks s \<le> length s"
  by (induction s) auto

lemma getop_zero [simp]: "getop 0 = A_EOF"
  by (simp add: getop_def strval_states_def)

lemma blanks_stop: "blanks s < length s \<Longrightarrow> getop (s ! blanks s) \<noteq> 0"
  by (induction s) auto

lemma getop_after_blanks: "getop (chr_at s (i + blanks (drop i s))) \<noteq> 0"
proof (cases "i + blanks (drop i s) < length s")
  case True
  then have "blanks (drop i s) < length (drop i s)" by auto
  from blanks_stop [OF this] True show ?thesis by (simp add: chr_at_def)
qed (simp add: chr_at_def)

end
