(* ===== verification/ArithCompile.thy ===== *)
theory ArithCompile
  imports ArithTables
begin

text \<open>
  The compiler of arithmetic expressions: \<open>expr\<close> and \<open>arith_compile\<close> of
  \<open>src/src/cmd/ksh26/sh/streval.c\<close>.  The code is laid out on the stack \<open>sh.stk\<close>, modelled as the
  offset of its top and the item stored at each offset (LP64 with a 16-byte \<open>Sfdouble_t\<close>).
  \<open>'f\<close> is \<open>Sfdouble_t\<close>, \<open>'v\<close> a \<open>char*\<close> that names a variable, \<open>'m\<close> a \<open>Math_f\<close>.
\<close>

section \<open>The stack the code is laid out on\<close>

datatype ('f, 'v, 'm) cell = COp nat | CShort "16 word" | CPtr "'v option" | CNum 'f | CFun 'm

fun csize :: "('f, 'v, 'm) cell \<Rightarrow> nat" where
  "csize (COp _) = 1"
| "csize (CShort _) = 2"
| "csize (CPtr _) = 8"
| "csize (CFun _) = 8"
| "csize (CNum _) = 16"

record ('f, 'v, 'm) stk =
  items :: "nat \<Rightarrow> ('f, 'v, 'm) cell option"
  tell :: nat

text \<open>\<open>round\<close>, for a power of two.\<close>

definition round_up :: "nat \<Rightarrow> nat \<Rightarrow> nat" where
  "round_up x k = (x + k - 1) div k * k"

text \<open>\<open>stkpush\<close>: the item at the next offset aligned for it; a byte is \<open>sfputc\<close>.\<close>

definition stkpush :: "('f, 'v, 'm) cell \<Rightarrow> ('f, 'v, 'm) stk \<Rightarrow> nat \<times> ('f, 'v, 'm) stk" where
  "stkpush c s =
     (let off = round_up (tell s) (csize c)
      in (off, \<lparr>items = (items s)(off := Some c), tell = off + csize c\<rparr>))"

text \<open>\<open>stkseek\<close> to a lower offset: what reached beyond it is no longer whole.\<close>

definition stkseek :: "nat \<Rightarrow> ('f, 'v, 'm) stk \<Rightarrow> ('f, 'v, 'm) stk" where
  "stkseek t s =
     \<lparr>items = (\<lambda>o'. case items s o' of None \<Rightarrow> None
                | Some c \<Rightarrow> if o' + csize c \<le> t then Some c else None), tell = t\<rparr>"

definition patch :: "nat \<Rightarrow> ('f, 'v, 'm) stk \<Rightarrow> ('f, 'v, 'm) stk" where
  "patch off s = s\<lparr>items := (items s)(off := Some (CShort (of_nat (tell s))))\<rparr>"

section \<open>Compiler state\<close>

datatype aerr = e_moretokens | e_argcount | e_paren | e_badcolon | e_divzero | e_synbad | e_notlvalue
  | e_recursive | e_questcolon | e_incompatible | e_charconst

text \<open>\<open>errmsg.value\<close>: one of the messages above, or the text the conversion routine left.\<close>

datatype 'v emsg = Emsg aerr | Evalue 'v

text \<open>\<open>struct lval\<close>, the fields the compiler uses.\<close>

record ('v, 'm) lval =
  lvalue :: "'v option"
  lflag :: "16 word"
  lnargs :: int
  lfun :: "'m option"
  lfloat :: bool

text \<open>\<open>struct vars\<close>.  \<open>nextchr\<close> is set to an empty string on an error; that is the end of the text here.\<close>

record ('f, 'v, 'm) vars =
  nextchr :: nat
  errchr :: nat
  errmsg :: "'v emsg option"
  errstr :: "nat option"
  staksize :: int
  stakmaxsize :: int
  vparen :: byte
  infun :: byte
  stk :: "('f, 'v, 'm) stk"

text \<open>
  What the compiler is called with: the text, the conversion routine in mode \<open>LOOKUP\<close> (the
  variables it names and the functions it knows), \<open>chresc\<close>, and whether the radix character is a
  comma.
\<close>

record ('f, 'v, 'm) penv =
  ptext :: "byte list"
  pconvert :: "nat \<Rightarrow> ('v, 'm) lval \<Rightarrow> nat \<times> ('v, 'm) lval \<times> 'f"
  pchresc :: "nat \<Rightarrow> nat \<times> 'f"
  pbackslash :: 'f
  pcomma :: bool

section \<open>Results\<close>

text \<open>\<open>None\<close> when out of fuel, otherwise the C return value and the state.\<close>

type_synonym ('f, 'v, 'm) xres = "(bool \<times> ('f, 'v, 'm) vars) option"

text \<open>\<open>if(!expr(...)) return 0;\<close>\<close>

definition xdo :: "('f, 'v, 'm) xres \<Rightarrow> (('f, 'v, 'm) vars \<Rightarrow> ('f, 'v, 'm) xres) \<Rightarrow> ('f, 'v, 'm) xres" where
  "xdo r k = (case r of None \<Rightarrow> None | Some (ok, v) \<Rightarrow> if ok then k v else Some (False, v))"

definition seterror :: "('f, 'v, 'm) penv \<Rightarrow> aerr \<Rightarrow> ('f, 'v, 'm) vars \<Rightarrow> ('f, 'v, 'm) vars" where
  "seterror E e v =
     v\<lparr>errmsg := (case errmsg v of None \<Rightarrow> Some (Emsg e) | Some m \<Rightarrow> Some m),
       errchr := nextchr v, nextchr := length (ptext E)\<rparr>"

definition xerr :: "('f, 'v, 'm) penv \<Rightarrow> aerr \<Rightarrow> ('f, 'v, 'm) vars \<Rightarrow> ('f, 'v, 'm) xres" where
  "xerr E e v = Some (False, seterror E e v)"

section \<open>Emitting code\<close>

definition putop :: "nat \<Rightarrow> ('f, 'v, 'm) vars \<Rightarrow> ('f, 'v, 'm) vars" where
  "putop b v = v\<lparr>stk := snd (stkpush (COp b) (stk v))\<rparr>"

definition putcell :: "('f, 'v, 'm) cell \<Rightarrow> ('f, 'v, 'm) vars \<Rightarrow> ('f, 'v, 'm) vars" where
  "putcell c v = v\<lparr>stk := snd (stkpush c (stk v))\<rparr>"

text \<open>\<open>if(vp->staksize++>=vp->stakmaxsize) vp->stakmaxsize = vp->staksize\<close>\<close>

definition stak_up :: "('f, 'v, 'm) vars \<Rightarrow> ('f, 'v, 'm) vars" where
  "stak_up v =
     v\<lparr>staksize := staksize v + 1,
       stakmaxsize := (if staksize v \<ge> stakmaxsize v then staksize v + 1 else stakmaxsize v)\<rparr>"

definition stak_down :: "('f, 'v, 'm) vars \<Rightarrow> ('f, 'v, 'm) vars" where
  "stak_down v = v\<lparr>staksize := staksize v - 1\<rparr>"

text \<open>An instruction with a variable operand.\<close>

definition putvar :: "nat \<Rightarrow> ('v, 'm) lval \<Rightarrow> ('f, 'v, 'm) vars \<Rightarrow> ('f, 'v, 'm) vars" where
  "putvar op l v = putcell (CShort (lflag l)) (putcell (CPtr (lvalue l)) (putop op v))"

text \<open>\<open>if(lvalue.flag<0) lvalue.flag = 0\<close>\<close>

definition flag0 :: "('v, 'm) lval \<Rightarrow> ('v, 'm) lval" where
  "flag0 l = (if lflag l <s 0 then l\<lparr>lflag := 0\<rparr> else l)"

definition token :: "('f, 'v, 'm) penv \<Rightarrow> ('f, 'v, 'm) vars \<Rightarrow> nat \<times> ('f, 'v, 'm) vars" where
  "token E v =
     (case gettok (pcomma E) (ptext E) (nextchr v) of
        (op, e, q) \<Rightarrow> (op, v\<lparr>errchr := e, nextchr := q\<rparr>))"

section \<open>An operand\<close>

text \<open>The local variables of \<open>expr\<close>.\<close>

record ('v, 'm) loc =
  lprec :: nat
  wasop :: nat
  invalid :: bool
  lv :: "('v, 'm) lval"

text \<open>How an iteration of the loop of \<open>expr\<close> ends: \<open>return\<close>, or another iteration.\<close>

datatype ('f, 'v, 'm) iter = Return "('f, 'v, 'm) xres" | Again "('v, 'm) loc" "('f, 'v, 'm) vars"

text \<open>The code at label \<open>number\<close>: a literal, a number, a variable or a function name.\<close>

definition read_operand ::
  "('f, 'v, 'm) penv \<Rightarrow> nat \<Rightarrow> ('v, 'm) lval \<Rightarrow> nat \<Rightarrow> nat \<times> ('v, 'm) lval \<times> 'f" where
  "read_operand E op l pos =
     (if op = A_LIT
      then (if chr_at (ptext E) (pos + 1) = 92 \<and> chr_at (ptext E) (pos + 2) = 39 \<and>
               chr_at (ptext E) (pos + 3) \<noteq> 39
            then (let q = pos + 2 in ((if chr_at (ptext E) q = 39 then q + 1 else q), l, pbackslash E))
            else (case pchresc E (pos + 1) of (q, d) \<Rightarrow>
                    ((if chr_at (ptext E) q = 39 then q + 1 else q), l, d)))
      else pconvert E pos l)"

definition xnumber ::
  "('f, 'v, 'm) penv \<Rightarrow> nat \<Rightarrow> ('v, 'm) loc \<Rightarrow> ('f, 'v, 'm) vars \<Rightarrow> ('f, 'v, 'm) iter" where
  "xnumber E op L v =
     (let wide = (chr_at (ptext E) (nextchr v) = 76 \<and> chr_at (ptext E) (nextchr v + 1) = 39);
          pos = (if wide then nextchr v + 1 else nextchr v);
          op = (if wide then A_LIT else op)
      in case read_operand E op ((lv L)\<lparr>lfloat := False\<rparr>) pos of (q, l, d) \<Rightarrow>
        if q = pos then
          Return (xerr E (if op = A_LIT then e_charconst else e_synbad)
            (v\<lparr>nextchr := q, errmsg := map_option Evalue (lvalue l),
               errstr := (if lvalue l = None then errstr v else Some pos)\<rparr>))
        else
          let v = v\<lparr>nextchr := q\<rparr>;
              v = (if op = A_DIG \<or> op = A_LIT
                   then putop (if lfloat l then 1 else 0) (putcell (CNum d) (stak_up (putop A_PUSHN v)))
                   else v)
          in Again (L\<lparr>wasop := 0, lv := l, invalid := (if lfun l = None then False else invalid L)\<rparr>) v)"

section \<open>An operator\<close>

text \<open>
  The level of an operator and, for \<open>op=\<close>, the variable to assign to; \<open>None\<close> for an assignment
  without one.
\<close>

definition op_level :: "('f, 'v, 'm) penv \<Rightarrow> nat \<Rightarrow> ('v, 'm) loc \<Rightarrow> ('f, 'v, 'm) vars \<Rightarrow>
    (nat \<times> ('v, 'm) lval option \<times> ('v, 'm) loc \<times> ('f, 'v, 'm) vars) option" where
  "op_level E op L v =
     (let p = strval_precedence ! op in
      if chr_at (ptext E) (nextchr v) = 61 \<and> \<not> noassign p then
        (if lvalue (lv L) = None \<or> 3 < lprec L then None
         else Some (3, Some (lv L), L\<lparr>lprec := (if lprec L = 3 then 2 else lprec L)\<rparr>,
                    v\<lparr>nextchr := nextchr v + 1\<rparr>))
      else Some (2 * (if level p = MAXPREC \<or> op = A_POW then level p + 1 else level p), None, L, v))"

text \<open>The value of a variable that is the left operand.\<close>

definition put_left ::
  "nat \<Rightarrow> bool \<Rightarrow> ('v, 'm) loc \<Rightarrow> ('f, 'v, 'm) vars \<Rightarrow> ('v, 'm) loc \<times> ('f, 'v, 'm) vars" where
  "put_left op assignop L v =
     (let v = stak_up v;
          v = (if op = A_EQ \<or> op = A_NEQ then putop A_ENUM v else v);
          v = (if assignop then putop A_ASSIGNOP1 v else putop A_PUSHV v);
          v = putcell (CPtr (lvalue (lv L))) v;
          l = flag0 (lv L);
          v = putcell (CShort (lflag l)) v;
          l = (if seqpoint (strval_precedence ! op) then l else l\<lparr>lvalue := None\<rparr>)
      in (L\<lparr>lv := l, invalid := False\<rparr>, v))"

text \<open>A parenthesis: a subexpression or the arguments of a function.\<close>

definition call_op :: "int \<Rightarrow> nat" where
  "call_op nargs =
     (let n = nat \<bar>nargs\<bar>
      in A_CALL1F + (if nargs < 0 then T_BINARY else if n div 32 mod 2 = 1 then T_NOFLOAT else 0) +
         n mod 8 + (if n div 8 mod 2 = 1 then 2 else 0) - (if n div 8 mod 2 = 1 then 0 else 1))"

definition xparen :: "(nat \<Rightarrow> ('f, 'v, 'm) vars \<Rightarrow> ('f, 'v, 'm) xres) \<Rightarrow> ('f, 'v, 'm) penv \<Rightarrow>
    ('v, 'm) loc \<Rightarrow> ('f, 'v, 'm) vars \<Rightarrow> ('f, 'v, 'm) xres" where
  "xparen ex E L v =
     (let old = infun v;
          n = nat \<bar>lnargs (lv L)\<bar> mod 8;
          v1 = (case lfun (lv L) of
                  Some f \<Rightarrow> putop 1 (putcell (CFun f) (putop A_PUSHF (stak_up v\<lparr>infun := 1\<rparr>)))
                | None \<Rightarrow> v\<lparr>infun := 0\<rparr>)
      in if \<not> invalid L then xerr E e_synbad v1
         else xdo (ex 1 (v1\<lparr>vparen := vparen v1 + 1\<rparr>)) (\<lambda>v2.
           let v3 = v2\<lparr>vparen := vparen v2 - 1\<rparr> in
           if lfun (lv L) \<noteq> None \<and> unat (infun v3) \<noteq> n then xerr E e_argcount v3
           else
             let v4 = (if lfun (lv L) = None then v3
                  else putop (call_op (lnargs (lv L)))
                    (v3\<lparr>stakmaxsize := (if staksize v3 + int n \<ge> stakmaxsize v3
                        then staksize v3 + int n + int n else stakmaxsize v3)\<rparr>));
                 (t, v5) = token E (v4\<lparr>infun := old\<rparr>)
             in if t \<noteq> A_RPAR then xerr E e_paren v5 else Some (True, v5)))"

text \<open>\<open>c?a:b\<close>\<close>

definition xquest :: "(nat \<Rightarrow> ('f, 'v, 'm) vars \<Rightarrow> ('f, 'v, 'm) xres) \<Rightarrow> ('f, 'v, 'm) penv \<Rightarrow>
    ('f, 'v, 'm) vars \<Rightarrow> ('f, 'v, 'm) xres" where
  "xquest ex E v =
     (let v1 = putop A_JMPZ v;
          (off1, s1) = stkpush (CShort 0) (stk v1)
      in xdo (ex 1 (putop A_POP (v1\<lparr>stk := s1\<rparr>))) (\<lambda>v2.
        let (t, v3) = token E v2 in
        if t \<noteq> A_COLON then xerr E e_questcolon v3
        else
          let v4 = putop A_JMP v3;
              (off2, s2) = stkpush (CShort 0) (stk v4)
          in xdo (ex 3 (putop A_POP (v4\<lparr>stk := patch off1 s2\<rparr>))) (\<lambda>v5.
               Some (True, v5\<lparr>stk := patch off2 (stk v5)\<rparr>))))"

text \<open>
  \<open>&&\<close>, \<open>||\<close> and \<open>?:\<close>.  The test \<open>op!=A_QCOLON\<close> comes after \<open>op\<close> has become the jump, so
  \<open>A_NOTNOT\<close> is always written.
\<close>

definition xlogic :: "(nat \<Rightarrow> ('f, 'v, 'm) vars \<Rightarrow> ('f, 'v, 'm) xres) \<Rightarrow> nat \<Rightarrow> nat \<Rightarrow>
    ('f, 'v, 'm) vars \<Rightarrow> ('f, 'v, 'm) xres" where
  "xlogic ex op c v =
     (let jmp = (if op = A_ANDAND then A_JMPZ else A_JMPNZ);
          v1 = putop jmp v;
          (off, s1) = stkpush (CShort 0) (stk v1)
      in xdo (ex c (putop A_POP (v1\<lparr>stk := s1\<rparr>))) (\<lambda>v2.
           let v3 = v2\<lparr>stk := patch off (stk v2)\<rparr>
           in Some (True, if jmp \<noteq> A_QCOLON then putop A_NOTNOT v3 else v3)))"

definition xcomma :: "(nat \<Rightarrow> ('f, 'v, 'm) vars \<Rightarrow> ('f, 'v, 'm) xres) \<Rightarrow> nat \<Rightarrow>
    ('f, 'v, 'm) vars \<Rightarrow> ('f, 'v, 'm) xres" where
  "xcomma ex c v =
     (let v1 = (if infun v \<noteq> 0 then v\<lparr>infun := infun v + 1\<rparr> else stak_down (putop A_POP v))
      in case ex c v1 of
           None \<Rightarrow> None
         | Some (ok, v2) \<Rightarrow>
             if ok then Some (True, v2)
             else Some (False, v2\<lparr>stk := stkseek (tell (stk v2) - 1) (stk v2)\<rparr>))"

text \<open>The \<open>switch\<close> of the loop, after the right operand of a binary operator; \<open>Inl\<close> leaves it by \<open>done\<close>.\<close>

definition noval :: "('v, 'm) loc \<Rightarrow> ('v, 'm) loc" where
  "noval L = L\<lparr>lv := (lv L)\<lparr>lvalue := None\<rparr>\<rparr>"

text \<open>A branch that continues after the switch, or ends with an error.\<close>

definition xthen :: "('f, 'v, 'm) xres \<Rightarrow> ('v, 'm) loc \<Rightarrow> ('f, 'v, 'm) iter" where
  "xthen r L = (case r of Some (True, v) \<Rightarrow> Again L v | _ \<Rightarrow> Return r)"

definition xswitch :: "(nat \<Rightarrow> ('f, 'v, 'm) vars \<Rightarrow> ('f, 'v, 'm) xres) \<Rightarrow> ('f, 'v, 'm) penv \<Rightarrow>
    nat \<Rightarrow> nat \<Rightarrow> nat \<Rightarrow> ('v, 'm) loc \<Rightarrow> ('f, 'v, 'm) vars \<Rightarrow> ('f, 'v, 'm) iter" where
  "xswitch ex E op c start L v =
     (if op = A_RPAR then
        Return (if vparen v = 0 then xerr E e_paren v
                else if invalid L then xerr E e_synbad v
                else Some (True, v\<lparr>nextchr := start\<rparr>))
      else if op = A_COMMA then xthen (xcomma ex c v) (noval (L\<lparr>wasop := 0\<rparr>))
      else if op = A_LPAR then xthen (xparen ex E L v) (L\<lparr>wasop := 0, lv := (lv L)\<lparr>lfun := None\<rparr>\<rparr>)
      else if op = A_PLUSPLUS \<or> op = A_MINUSMINUS then
        (if lvalue (lv L) = None then Return (xerr E e_notlvalue v)
         else Again (noval (L\<lparr>wasop := 0\<rparr>)) (putop (op + T_NOFLOAT) v))
      else if op = A_ASSIGN then
        (if lvalue (lv L) = None then Return (xerr E e_notlvalue v)
         else Again (noval L) (stak_down (putvar A_STORE (lv L) v)))
      else if op = A_QUEST then xthen (xquest ex E v) (noval (L\<lparr>wasop := 0\<rparr>))
      else if op = A_COLON then Return (xerr E e_badcolon v)
      else if op = A_QCOLON \<or> op = A_ANDAND \<or> op = A_OROR then
        xthen (xlogic ex op c v) (noval (L\<lparr>wasop := 0\<rparr>))
      else if op \<in> {A_AND, A_OR, A_XOR, A_LSHIFT, A_RSHIFT, A_MOD} then
        Again L (stak_down (putop (op + T_NOFLOAT + T_BINARY) v))
      else if op \<in> {A_PLUS, A_MINUS, A_TIMES, A_DIV, A_EQ, A_NEQ, A_LT, A_LE, A_GT, A_GE, A_POW} then
        Again L (stak_down (putop (op + T_BINARY) v))
      else Return (xerr E e_synbad v))"

text \<open>After the switch: \<open>op=\<close> stores.\<close>

definition put_assignop :: "nat \<Rightarrow> ('v, 'm) lval option \<Rightarrow> ('f, 'v, 'm) vars \<Rightarrow> ('f, 'v, 'm) vars" where
  "put_assignop c assignop v =
     (case assignop of None \<Rightarrow> v
      | Some l \<Rightarrow> putvar (if odd c then A_ASSIGNOP else A_STORE) (flag0 l) (stak_up v))"

section \<open>The loop\<close>

text \<open>From the operator's level on: stop, or take the right operand and emit the operator.\<close>

definition xright :: "(nat \<Rightarrow> ('f, 'v, 'm) vars \<Rightarrow> ('f, 'v, 'm) xres) \<Rightarrow> ('f, 'v, 'm) penv \<Rightarrow> nat \<Rightarrow> nat \<Rightarrow>
    nat \<Rightarrow> ('v, 'm) lval option \<Rightarrow> ('v, 'm) loc \<Rightarrow> ('f, 'v, 'm) vars \<Rightarrow> ('f, 'v, 'm) iter" where
  "xright ex E op c start assignop L v =
     (if lprec L \<ge> c then Return (Some (True, v\<lparr>nextchr := start\<rparr>))
      else
        let p = strval_precedence ! op;
            c = (if rassoc p then c - 1 else c);
            operand = (c < 2 * MAXPREC + 1 \<and> \<not> seqpoint p)
        in case (if operand then ex c v else Some (True, v)) of
             Some (True, v) \<Rightarrow>
               (case xswitch ex E op c start (if operand then L\<lparr>wasop := 0\<rparr> else L) v of
                  Return r \<Rightarrow> Return r
                | Again L v \<Rightarrow> Again (L\<lparr>invalid := False\<rparr>) (put_assignop c assignop v))
           | r \<Rightarrow> Return r)"

definition xoperator :: "(nat \<Rightarrow> ('f, 'v, 'm) vars \<Rightarrow> ('f, 'v, 'm) xres) \<Rightarrow> ('f, 'v, 'm) penv \<Rightarrow> nat \<Rightarrow>
    ('v, 'm) loc \<Rightarrow> ('f, 'v, 'm) vars \<Rightarrow> ('f, 'v, 'm) iter" where
  "xoperator ex E op L v =
     (case op_level E op L v of
        None \<Rightarrow> Return (xerr E e_notlvalue v)
      | Some (c, assignop, L1, v1) \<Rightarrow>
          if lvalue (lv L1) \<noteq> None \<and> op \<noteq> A_ASSIGN then
            (case put_left op (assignop \<noteq> None) L1 v1 of
               (L2, v2) \<Rightarrow> xright ex E op c (errchr v) assignop L2 v2)
          else if lprec L1 = A_LVALUE then Return (xerr E e_notlvalue v1)
          else if invalid L1 \<and> op > A_ASSIGN then Return (xerr E e_synbad v1)
          else xright ex E op c (errchr v) assignop L1 v1)"

definition loop_step :: "(nat \<Rightarrow> ('f, 'v, 'm) vars \<Rightarrow> ('f, 'v, 'm) xres) \<Rightarrow> ('f, 'v, 'm) penv \<Rightarrow>
    ('v, 'm) loc \<Rightarrow> ('f, 'v, 'm) vars \<Rightarrow> ('f, 'v, 'm) iter" where
  "loop_step ex E L v =
     (case token E v of (op, v) \<Rightarrow>
        if op = A_DIG \<or> op = A_REG \<or> op = A_LIT then
          (if wasop L = 0 then Return (xerr E e_synbad v) else xnumber E op L v)
        else if wasop L \<noteq> 0 \<and> op \<noteq> A_LPAR then Return (xerr E e_synbad v)
        else xoperator ex E op (L\<lparr>wasop := wasop L + 1\<rparr>) v)"

primrec expr_loop :: "nat \<Rightarrow> (nat \<Rightarrow> ('f, 'v, 'm) vars \<Rightarrow> ('f, 'v, 'm) xres) \<Rightarrow> ('f, 'v, 'm) penv \<Rightarrow>
    ('v, 'm) loc \<Rightarrow> ('f, 'v, 'm) vars \<Rightarrow> ('f, 'v, 'm) xres" where
  "expr_loop 0 ex E L v = None"
| "expr_loop (Suc n) ex E L v =
     (case loop_step ex E L v of Return r \<Rightarrow> r | Again L v \<Rightarrow> expr_loop n ex E L v)"

definition start_loc :: "nat \<Rightarrow> nat \<Rightarrow> ('v, 'm) loc" where
  "start_loc p w =
     \<lparr>lprec = p, wasop = w, invalid = (w \<noteq> 0),
      lv = \<lparr>lvalue = None, lflag = 0, lnargs = 0, lfun = None, lfloat = False\<rparr>\<rparr>"

text \<open>The opcode and the level of the operand of a prefix operator.\<close>

definition prefix_op :: "nat \<Rightarrow> (nat \<times> nat) option" where
  "prefix_op op =
     (if op = A_MINUS then Some (A_UMINUS, 2 * MAXPREC + 1)
      else if op = A_NOT then Some (A_NOT, 2 * MAXPREC + 1)
      else if op = A_MINUSMINUS then Some (A_DECR + T_NOFLOAT, A_LVALUE)
      else if op = A_PLUSPLUS then Some (A_INCR + T_NOFLOAT, A_LVALUE)
      else if op = A_TILDE then Some (A_TILDE + T_NOFLOAT, 2 * MAXPREC + 1)
      else None)"

definition expr_body :: "nat \<Rightarrow> (nat \<Rightarrow> ('f, 'v, 'm) vars \<Rightarrow> ('f, 'v, 'm) xres) \<Rightarrow> ('f, 'v, 'm) penv \<Rightarrow>
    nat \<Rightarrow> ('f, 'v, 'm) vars \<Rightarrow> ('f, 'v, 'm) xres" where
  "expr_body n ex E p v =
     (case token E v of (op, v) \<Rightarrow>
        if op = A_PLUS then ex p v
        else if op = A_EOF then
          (if 2 < p then xerr E e_moretokens v else Some (True, v))
        else (case prefix_op op of
                Some (b, c) \<Rightarrow> xdo (ex c v) (\<lambda>v. expr_loop n ex E (start_loc p 0) (putop b v))
              | None \<Rightarrow> expr_loop n ex E (start_loc p 1) (v\<lparr>nextchr := errchr v\<rparr>)))"

primrec expr :: "nat \<Rightarrow> ('f, 'v, 'm) penv \<Rightarrow> nat \<Rightarrow> ('f, 'v, 'm) vars \<Rightarrow> ('f, 'v, 'm) xres" where
  "expr 0 E p v = None"
| "expr (Suc n) E p v = expr_body n (expr n E) E p v"

section \<open>The whole expression\<close>

abbreviation (input) ARITH_HDR :: nat where "ARITH_HDR \<equiv> 32"

definition init_vars :: "('f, 'v, 'm) vars" where
  "init_vars =
     \<lparr>nextchr = 0, errchr = 0, errmsg = None, errstr = None, staksize = 0, stakmaxsize = 0,
      vparen = 0, infun = 0, stk = \<lparr>items = (\<lambda>_. None), tell = ARITH_HDR\<rparr>\<rparr>"

record ('f, 'v, 'm) arith =
  acode :: "nat \<Rightarrow> ('f, 'v, 'm) cell option"
  asize :: nat
  astaksize :: int
  aexpr :: nat

text \<open>
  What the conversion routine does with an error message: it raises it, it returns a negative
  number (nothing is compiled) or it returns zero and what there is gets run.
\<close>

datatype onmsg = Raise | Decline | Continue

datatype ('f, 'v, 'm) compiled =
    Raised "'v emsg"
  | Declined
  | Code "('f, 'v, 'm) arith" nat
      \<comment> \<open>the program and the position where the expression ended\<close>

definition finish_code :: "nat \<Rightarrow> nat \<Rightarrow> ('f, 'v, 'm) vars \<Rightarrow> ('f, 'v, 'm) compiled" where
  "finish_code start stop v =
     (let s = snd (stkpush (COp 0) (stk v))
      in Code \<lparr>acode = items s, asize = tell s - ARITH_HDR, astaksize = stakmaxsize v + 1,
               aexpr = start\<rparr> stop)"

definition arith_compile :: "('f, 'v, 'm) penv \<Rightarrow> onmsg \<Rightarrow> ('f, 'v, 'm) compiled option" where
  "arith_compile E mode =
     (case expr (length (ptext E) + 2) E 0 init_vars of
        None \<Rightarrow> None
      | Some (ok, v) \<Rightarrow>
          (case (if ok then None else errmsg v) of
             None \<Rightarrow> Some (finish_code 0 (nextchr v) v)
           | Some m \<Rightarrow>
               (case mode of
                  Raise \<Rightarrow> Some (Raised m)
                | Decline \<Rightarrow> Some Declined
                | Continue \<Rightarrow>
                    Some (finish_code (case errstr v of None \<Rightarrow> 0 | Some p \<Rightarrow> p) (errchr v) v))))"

end
