(* ===== verification/ArithExec.thy ===== *)
theory ArithExec
  imports ArithCompile
begin

text \<open>
  The executor of compiled arithmetic: \<open>arith_exec\<close> of \<open>src/src/cmd/ksh26/sh/streval.c\<close>.  The value
  stack \<open>sp\<close> and the stack of value types \<open>tp\<close> are lists, top first; they are separate because
  the code does not always move them together.  Reading below the bottom of one is
  \<open>StackUnder\<close>, writing past its space \<open>StackOver\<close>, fetching an operand that is not there
  \<open>BadFetch\<close>.
\<close>

section \<open>Numbers and callbacks\<close>

text \<open>
  \<open>Sfdouble_t\<close> is the C type \<open>long double\<close> or \<open>double\<close>, as the build finds it: its operations and
  conversions are a parameter.
\<close>

record 'f fops =
  fadd :: "'f \<Rightarrow> 'f \<Rightarrow> 'f"
  fsub :: "'f \<Rightarrow> 'f \<Rightarrow> 'f"
  fmul :: "'f \<Rightarrow> 'f \<Rightarrow> 'f"
  fdiv :: "'f \<Rightarrow> 'f \<Rightarrow> 'f"
  fpow :: "'f \<Rightarrow> 'f \<Rightarrow> 'f"
  fneg :: "'f \<Rightarrow> 'f"
  feq :: "'f \<Rightarrow> 'f \<Rightarrow> bool"
  fle :: "'f \<Rightarrow> 'f \<Rightarrow> bool"
  flt :: "'f \<Rightarrow> 'f \<Rightarrow> bool"
  of_long :: "64 word \<Rightarrow> 'f"
  of_ulong :: "64 word \<Rightarrow> 'f"
  to_long :: "'f \<Rightarrow> 64 word"
  to_ulong :: "'f \<Rightarrow> 64 word"
  llong_max :: 'f
  ullong_max :: 'f
  llong_min :: 'f

definition fnum :: "'f fops \<Rightarrow> nat \<Rightarrow> 'f" where
  "fnum F n = of_long F (of_nat n)"

definition fbool :: "'f fops \<Rightarrow> bool \<Rightarrow> 'f" where
  "fbool F b = fnum F (if b then 1 else 0)"

text \<open>The test \<open>if(num)\<close>.\<close>

definition fnz :: "'f fops \<Rightarrow> 'f \<Rightarrow> bool" where
  "fnz F x \<longleftrightarrow> \<not> feq F x (fnum F 0)"

text \<open>The fields of \<open>struct lval node\<close> the executor sets or reads.\<close>

record 'v node =
  nvalue :: "'v option"
  nflag :: "16 word"
  nnosub :: int
  nenum_p :: bool
  nisenum :: bool
  nisfloat :: bool
  nassignop :: bool
  nlevel :: nat

text \<open>
  What the executor calls: the conversion routine in the modes \<open>VALUE\<close> and \<open>ASSIGN\<close>, the functions
  of the math library by their type, and \<open>sh_mathfun\<close>.  \<open>'s\<close> is the state of the shell; a callback
  may raise an error of its own, with its message.
\<close>

datatype 'v xerror =
    Arith aerr
  | Callback "'v option"
  | BadFetch
  | StackUnder
  | StackOver
  | UndefShift
  | UndefDiv

record ('f, 'v, 'm, 's) xenv =
  xops :: "'f fops"
  xvalue :: "'s \<Rightarrow> 'v node \<Rightarrow> 'f \<Rightarrow> 'v option + 'f \<times> 'v node \<times> 's"
  xassign :: "'s \<Rightarrow> 'v node \<Rightarrow> 'f \<Rightarrow> 'v option + 'f \<times> 'v node \<times> 's"
  xcallf :: "'m \<Rightarrow> 'f list \<Rightarrow> 'f"
  xcalli :: "'m \<Rightarrow> 'f list \<Rightarrow> 32 word"
  xcallfi :: "'m \<Rightarrow> 'f \<Rightarrow> 32 word \<Rightarrow> 'f"
  xmathfun :: "'s \<Rightarrow> 'm \<Rightarrow> 'f list \<Rightarrow> 'v option + 'f \<times> 's"
  xfatal :: bool

section \<open>Machine state\<close>

record ('f, 'v, 's) vm =
  vpc :: nat
  vnum :: 'f
  vtype :: nat
  vsp :: "'f list"
  vtp :: "nat list"
  vnode :: "'v node"
  vlastval :: "'v option"
  vlastsub :: int
  vmsgs :: "('v option + aerr) list"
  vsh :: 's

type_synonym ('f, 'v, 's) vres = "'v xerror + ('f, 'v, 's) vm"

definition vbind :: "'v xerror + 'a \<Rightarrow> ('a \<Rightarrow> 'v xerror + 'b) \<Rightarrow> 'v xerror + 'b" where
  "vbind m k = (case m of Inl e \<Rightarrow> Inl e | Inr x \<Rightarrow> k x)"

definition vcall :: "'v option + 'a \<Rightarrow> ('a \<Rightarrow> 'v xerror + 'b) \<Rightarrow> 'v xerror + 'b" where
  "vcall m k = (case m of Inl t \<Rightarrow> Inl (Callback t) | Inr x \<Rightarrow> k x)"

text \<open>\<open>arith_error\<close>: raised in a fatal mode, otherwise a message and execution goes on.\<close>

definition arith_error :: "('f, 'v, 'm, 's) xenv \<Rightarrow> aerr \<Rightarrow> ('f, 'v, 's) vm \<Rightarrow> ('f, 'v, 's) vres" where
  "arith_error X e s = (if xfatal X then Inl (Arith e) else Inr (s\<lparr>vmsgs := vmsgs s @ [Inr e]\<rparr>))"

text \<open>The space of the two stacks: \<open>small_stack\<close> has 13 numbers of 16 bytes.\<close>

abbreviation (input) SMALL_STACK :: int where "SMALL_STACK \<equiv> 12"

definition sp_room :: "int \<Rightarrow> nat" where
  "sp_room k = nat k"

definition tp_room :: "int \<Rightarrow> nat" where
  "tp_room k = nat (if k < SMALL_STACK then 16 * (SMALL_STACK + 1 - k) else k)"

definition push_sp :: "int \<Rightarrow> 'f \<Rightarrow> ('f, 'v, 's) vm \<Rightarrow> ('f, 'v, 's) vres" where
  "push_sp k x s = (if length (vsp s) < sp_room k then Inr (s\<lparr>vsp := x # vsp s\<rparr>) else Inl StackOver)"

definition push_tp :: "int \<Rightarrow> nat \<Rightarrow> ('f, 'v, 's) vm \<Rightarrow> ('f, 'v, 's) vres" where
  "push_tp k t s = (if length (vtp s) < tp_room k then Inr (s\<lparr>vtp := t # vtp s\<rparr>) else Inl StackOver)"

definition pop_sp :: "nat \<Rightarrow> ('f, 'v, 's) vm \<Rightarrow> ('f, 'v, 's) vres" where
  "pop_sp n s = (if n \<le> length (vsp s) then Inr (s\<lparr>vsp := drop n (vsp s)\<rparr>) else Inl StackUnder)"

definition pop_tp :: "nat \<Rightarrow> ('f, 'v, 's) vm \<Rightarrow> ('f, 'v, 's) vres" where
  "pop_tp n s = (if n \<le> length (vtp s) then Inr (s\<lparr>vtp := drop n (vtp s)\<rparr>) else Inl StackUnder)"

definition nth_top :: "nat \<Rightarrow> 'x list \<Rightarrow> 'v xerror + 'x" where
  "nth_top i xs = (if i < length xs then Inr (xs ! i) else Inl StackUnder)"

section \<open>Fetching operands\<close>

type_synonym ('f, 'v, 'm) code = "nat \<Rightarrow> ('f, 'v, 'm) cell option"

definition fetch_op :: "('f, 'v, 'm) code \<Rightarrow> nat \<Rightarrow> 'v xerror + nat" where
  "fetch_op C p = (case C p of Some (COp b) \<Rightarrow> Inr b | _ \<Rightarrow> Inl BadFetch)"

definition fetch_short :: "('f, 'v, 'm) code \<Rightarrow> nat \<Rightarrow> 'v xerror + 16 word" where
  "fetch_short C p = (case C p of Some (CShort h) \<Rightarrow> Inr h | _ \<Rightarrow> Inl BadFetch)"

definition fetch_ptr :: "('f, 'v, 'm) code \<Rightarrow> nat \<Rightarrow> 'v xerror + 'v option" where
  "fetch_ptr C p = (case C p of Some (CPtr q) \<Rightarrow> Inr q | _ \<Rightarrow> Inl BadFetch)"

definition fetch_num :: "('f, 'v, 'm) code \<Rightarrow> nat \<Rightarrow> 'v xerror + 'f" where
  "fetch_num C p = (case C p of Some (CNum d) \<Rightarrow> Inr d | _ \<Rightarrow> Inl BadFetch)"

definition fetch_fun :: "('f, 'v, 'm) code \<Rightarrow> nat \<Rightarrow> 'v xerror + 'm" where
  "fetch_fun C p = (case C p of Some (CFun f) \<Rightarrow> Inr f | _ \<Rightarrow> Inl BadFetch)"

section \<open>Instructions\<close>

text \<open>Jumps: the target is an offset from the header, a signed \<open>short\<close>.\<close>

definition step_jump :: "'f fops \<Rightarrow> ('f, 'v, 'm) code \<Rightarrow> nat \<Rightarrow> ('f, 'v, 's) vm \<Rightarrow> ('f, 'v, 's) vres" where
  "step_jump F C op s =
     (let p = round_up (vpc s) 2 in
      if (op = A_JMPZ \<and> fnz F (vnum s)) \<or> (op = A_JMPNZ \<and> \<not> fnz F (vnum s))
      then Inr (s\<lparr>vpc := p + 2\<rparr>)
      else vbind (fetch_short C p) (\<lambda>t.
        if t <s 0 then Inl BadFetch else Inr (s\<lparr>vpc := unat t\<rparr>)))"

text \<open>The type of a value: 0 for a signed integer, 2 for an unsigned one, 1 for a float.\<close>

definition value_type :: "'f fops \<Rightarrow> bool \<Rightarrow> 'f \<Rightarrow> nat" where
  "value_type F isfloat num =
     (if flt F (ullong_max F) num \<or> flt F num (llong_min F) then 1
      else
        let big = flt F (llong_max F) num \<and> fle F num (ullong_max F);
            d = (if big then fsub F num (llong_max F) else num);
            t = (if big then 2 else if isfloat then 1 else 0)
        in if feq F (of_long F (to_long F d)) d then t else 1)"

text \<open>\<open>A_PUSHV\<close> and \<open>A_ASSIGNOP1\<close>: the value of a variable.\<close>

definition step_pushv ::
  "('f, 'v, 'm, 's) xenv \<Rightarrow> int \<Rightarrow> ('f, 'v, 'm) code \<Rightarrow> nat \<Rightarrow> nat \<Rightarrow> ('f, 'v, 's) vm \<Rightarrow> ('f, 'v, 's) vres" where
  "step_pushv X k C lev op s =
     (let p = round_up (vpc s) 8 in
      vbind (fetch_ptr C p) (\<lambda>dp.
      vbind (fetch_short C (p + 8)) (\<lambda>fl.
        let nd = (vnode s)\<lparr>nassignop := (op = A_ASSIGNOP1 \<or> nassignop (vnode s)), nvalue := dp,
              nflag := fl, nisfloat := False, nlevel := lev, nnosub := 0\<rparr>
        in vcall (xvalue X (vsh s) nd (vnum s)) (\<lambda>(num, nd, sh).
          let lastsub = (if nassignop nd then nnosub nd else vlastsub s);
              nd' = (if nassignop nd then nd\<lparr>nnosub := 0, nassignop := False\<rparr> else nd);
              s1 = s\<lparr>vpc := p + 10, vnode := nd', vlastval := (if fl \<noteq> 0 then None else dp),
                     vlastsub := lastsub, vsh := sh\<rparr>
          in vbind (if nvalue nd' \<noteq> dp
                    then (if xfatal X then Inl (Callback (nvalue nd'))
                          else Inr (s1\<lparr>vmsgs := vmsgs s1 @ [Inl (nvalue nd')]\<rparr>))
                    else Inr s1) (\<lambda>s2.
             vbind (push_sp k num s2) (\<lambda>s3.
               let t = value_type (xops X) (nisfloat nd') num
               in push_tp k t (s3\<lparr>vnum := num, vtype := t\<rparr>)))))))"

text \<open>\<open>A_STORE\<close> and \<open>A_ASSIGNOP\<close>.\<close>

definition step_store ::
  "('f, 'v, 'm, 's) xenv \<Rightarrow> ('f, 'v, 'm) code \<Rightarrow> nat \<Rightarrow> ('f, 'v, 's) vm \<Rightarrow> ('f, 'v, 's) vres" where
  "step_store X C op s =
     (let p = round_up (vpc s) 8 in
      vbind (fetch_ptr C p) (\<lambda>dp.
      vbind (fetch_short C (p + 8)) (\<lambda>fl.
        let fl = (if fl <s 0 then 0 else fl);
            nd = (vnode s)\<lparr>nnosub := (if op = A_ASSIGNOP then vlastsub s else nnosub (vnode s)),
              nvalue := dp, nflag := fl,
              nisenum := (if vlastval s \<noteq> None then True else nisenum (vnode s)), nenum_p := False\<rparr>
        in vcall (xassign X (vsh s) nd (vnum s)) (\<lambda>(num, nd1, sh1).
             vbind
               (if vlastval s \<noteq> None \<and> nenum_p nd1 then
                  vcall (xvalue X sh1 (nd1\<lparr>nflag := 0, nvalue := vlastval s\<rparr>) num) (\<lambda>(r, nd2, sh2).
                    if feq (xops X) r num then Inr (num, nd2, sh2)
                    else vcall (xassign X sh2 (nd2\<lparr>nflag := fl, nvalue := dp\<rparr>) r) Inr)
                else Inr (num, nd1, sh1))
               (\<lambda>(num, nd3, sh3).
                  Inr (s\<lparr>vpc := p + 10, vnum := num, vnode := nd3, vlastval := None, vsh := sh3\<rparr>))))))"

text \<open>\<open>A_PUSHN\<close>, \<open>A_PUSHF\<close>.\<close>

definition step_pushn :: "int \<Rightarrow> ('f, 'v, 'm) code \<Rightarrow> ('f, 'v, 's) vm \<Rightarrow> ('f, 'v, 's) vres" where
  "step_pushn k C s =
     (let p = round_up (vpc s) 16 in
      vbind (fetch_num C p) (\<lambda>d.
      vbind (fetch_op C (p + 16)) (\<lambda>t.
      vbind (push_sp k d s) (\<lambda>s1.
        push_tp k t (s1\<lparr>vpc := p + 17, vnum := d, vtype := t\<rparr>)))))"

definition step_pushf :: "'f fops \<Rightarrow> int \<Rightarrow> ('f, 'v, 'm) code \<Rightarrow> ('f, 'v, 's) vm \<Rightarrow> ('f, 'v, 's) vres" where
  "step_pushf F k C s =
     (let p = round_up (vpc s) 8 in
      vbind (push_sp k (fnum F (p - ARITH_HDR)) s) (\<lambda>s1.
      vbind (fetch_op C (p + 8)) (\<lambda>t. push_tp k t (s1\<lparr>vpc := p + 9\<rparr>))))"

text \<open>\<open>++\<close> and \<open>--\<close>, before and after.\<close>

definition step_incr :: "('f, 'v, 'm, 's) xenv \<Rightarrow> nat \<Rightarrow> ('f, 'v, 's) vm \<Rightarrow> ('f, 'v, 's) vres" where
  "step_incr X op s =
     (let F = xops X; one = fnum F 1;
          n = (if op = A_PLUSPLUS \<or> op = A_INCR then fadd F (vnum s) one else fsub F (vnum s) one)
      in vcall (xassign X (vsh s) ((vnode s)\<lparr>nnosub := -1\<rparr>) n) (\<lambda>(r, nd, sh).
           Inr (s\<lparr>vnum := (if op = A_PLUSPLUS \<or> op = A_MINUSMINUS then vnum s else r),
                  vnode := nd, vsh := sh\<rparr>)))"

text \<open>
  The integer operators.  \<open>u\<close> chooses unsigned arithmetic.  Division by zero and
  \<open>LLONG_MIN / -1\<close>, and a shift by a count outside 0 to 63, have no defined result.
\<close>

definition long_div :: "64 word \<Rightarrow> 64 word \<Rightarrow> 'v xerror + 64 word" where
  "long_div a b =
     (if b = 0 \<or> (sint a = - (2 ^ 63) \<and> sint b = -1) then Inl UndefDiv
      else Inr (word_of_int (sgn (sint a) * sgn (sint b) * (\<bar>sint a\<bar> div \<bar>sint b\<bar>))))"

definition long_mod :: "64 word \<Rightarrow> 64 word \<Rightarrow> 'v xerror + 64 word" where
  "long_mod a b =
     (if b = 0 \<or> (sint a = - (2 ^ 63) \<and> sint b = -1) then Inl UndefDiv
      else Inr (word_of_int (sgn (sint a) * (\<bar>sint a\<bar> mod \<bar>sint b\<bar>))))"

definition ulong_div :: "64 word \<Rightarrow> 64 word \<Rightarrow> 'v xerror + 64 word" where
  "ulong_div a b = (if b = 0 then Inl UndefDiv else Inr (a div b))"

definition ulong_mod :: "64 word \<Rightarrow> 64 word \<Rightarrow> 'v xerror + 64 word" where
  "ulong_mod a b = (if b = 0 then Inl UndefDiv else Inr (a mod b))"

definition shift_left :: "64 word \<Rightarrow> 64 word \<Rightarrow> 'v xerror + 64 word" where
  "shift_left a n = (if unat n < 64 then Inr (push_bit (unat n) a) else Inl UndefShift)"

definition shift_right :: "bool \<Rightarrow> 64 word \<Rightarrow> 64 word \<Rightarrow> 'v xerror + 64 word" where
  "shift_right u a n =
     (if unat n < 64 then Inr (if u then drop_bit (unat n) a else signed_drop_bit (unat n) a)
      else Inl UndefShift)"

definition step_intop :: "'f fops \<Rightarrow> nat \<Rightarrow> nat \<Rightarrow> nat \<Rightarrow> 'f \<Rightarrow> 'f \<Rightarrow> 'v xerror + 'f" where
  "step_intop F op tyl tyr a b =
     (let u = (if op = A_LSHIFT \<or> op = A_RSHIFT then tyl = 2 else tyr = 2 \<or> tyl = 2);
          x = (if u then to_ulong F a else to_long F a);
          y = (if op = A_LSHIFT \<or> op = A_RSHIFT then to_long F b
               else if u then to_ulong F b else to_long F b)
      in vbind
           (if op = A_MOD then (if u then ulong_mod x y else long_mod x y)
            else if op = A_DIV then (if u then ulong_div x y else long_div x y)
            else if op = A_LSHIFT then shift_left x y
            else if op = A_RSHIFT then shift_right u x y
            else if op = A_XOR then Inr (x XOR y)
            else if op = A_OR then Inr (x OR y)
            else Inr (x AND y))
           (\<lambda>z. Inr (if u then of_ulong F z else of_long F z)))"

text \<open>\<open>A_MOD\<close> and \<open>A_DIV\<close> with their tests for zero.\<close>

definition step_mod :: "('f, 'v, 'm, 's) xenv \<Rightarrow> nat \<Rightarrow> 'f \<Rightarrow> ('f, 'v, 's) vm \<Rightarrow> ('f, 'v, 's) vres" where
  "step_mod X tyl a s =
     vbind (if to_long (xops X) (vnum s) = 0 then arith_error X e_divzero s else Inr s) (\<lambda>s.
     vbind (step_intop (xops X) A_MOD tyl (vtype s) a (vnum s)) (\<lambda>r. Inr (s\<lparr>vnum := r\<rparr>)))"

definition step_div :: "('f, 'v, 'm, 's) xenv \<Rightarrow> nat \<Rightarrow> 'f \<Rightarrow> ('f, 'v, 's) vm \<Rightarrow> ('f, 'v, 's) vres" where
  "step_div X tyl a s =
     (let F = xops X; n = vnum s in
      if vtype s = 1 \<or> tyl = 1 then Inr (s\<lparr>vnum := fdiv F a n, vtype := 1\<rparr>)
      else if to_ulong F (if flt F n (fnum F 0) then fneg F n else n) = 0 then arith_error X e_divzero s
      else vbind (step_intop F A_DIV tyl (vtype s) a n) (\<lambda>r. Inr (s\<lparr>vnum := r\<rparr>)))"

definition compare_op :: "'f fops \<Rightarrow> nat \<Rightarrow> 'f \<Rightarrow> 'f \<Rightarrow> bool" where
  "compare_op F op a b =
     (if op = A_EQ then feq F a b
      else if op = A_NEQ then \<not> feq F a b
      else if op = A_LE then fle F a b
      else if op = A_GE then fle F b a
      else if op = A_GT then flt F b a
      else flt F a b)"

text \<open>The operators that leave the stacks to the end of the loop body.\<close>

definition step_binary :: "('f, 'v, 'm, 's) xenv \<Rightarrow> nat \<Rightarrow> ('f, 'v, 's) vm \<Rightarrow> ('f, 'v, 's) vres" where
  "step_binary X op s =
     (let F = xops X in
      vbind (nth_top 1 (vsp s)) (\<lambda>a.
      vbind (nth_top 1 (vtp s)) (\<lambda>tyl.
        if op = A_PLUS then Inr (s\<lparr>vnum := fadd F (vnum s) a\<rparr>)
        else if op = A_MINUS then Inr (s\<lparr>vnum := fsub F a (vnum s)\<rparr>)
        else if op = A_TIMES then Inr (s\<lparr>vnum := fmul F (vnum s) a\<rparr>)
        else if op = A_POW then Inr (s\<lparr>vnum := fpow F a (vnum s)\<rparr>)
        else if op = A_MOD then step_mod X tyl a s
        else if op = A_DIV then step_div X tyl a s
        else if op \<in> {A_EQ, A_NEQ, A_LE, A_GE, A_GT, A_LT} then
          Inr (s\<lparr>vnum := fbool F (compare_op F op a (vnum s)), vtype := 0\<rparr>)
        else vbind (step_intop F op tyl (vtype s) a (vnum s)) (\<lambda>r. Inr (s\<lparr>vnum := r\<rparr>)))))"

text \<open>\<open>A_SWAP\<close>, which the compiler does not write.\<close>

definition step_swap :: "('f, 'v, 's) vm \<Rightarrow> ('f, 'v, 's) vres" where
  "step_swap s =
     (case (vsp s, vtp s) of
        (a # b # xs, t # u # ts) \<Rightarrow>
          Inr (s\<lparr>vnum := b, vsp := a # a # xs, vtype := u, vtp := t # t # ts\<rparr>)
      | _ \<Rightarrow> Inl StackUnder)"

text \<open>A function call with \<open>n\<close> arguments; the function's place in the code is below them.\<close>

definition call_args :: "nat \<Rightarrow> ('f, 'v, 's) vm \<Rightarrow> 'f list" where
  "call_args n s = rev (take (n - 1) (drop 1 (vsp s))) @ [vnum s]"

definition step_call :: "('f, 'v, 'm, 's) xenv \<Rightarrow> ('f, 'v, 'm) code \<Rightarrow> nat \<Rightarrow> nat \<Rightarrow> ('f, 'v, 's) vm \<Rightarrow>
    ('f, 'v, 's) vres" where
  "step_call X C c n s =
     (let op = c mod 64; args = call_args n s; F = xops X in
      vbind (pop_sp n s) (\<lambda>s1.
      vbind (pop_tp n s1) (\<lambda>s1.
      vbind (nth_top 0 (vsp s1)) (\<lambda>off.
      vbind (nth_top 0 (vtp s1)) (\<lambda>t.
      vbind (fetch_fun C (ARITH_HDR + unat (to_long F off))) (\<lambda>fn.
        let s2 = s1\<lparr>vtype := t\<rparr> in
        if op = A_CALL1I \<or> op = A_CALL2I then
          Inr (s2\<lparr>vnum := of_long F (scast (xcalli X fn args))\<rparr>)
        else if c div 64 mod 2 = 1 then
          vcall (xmathfun X (vsh s) fn args) (\<lambda>(r, sh). Inr (s2\<lparr>vnum := r, vsh := sh\<rparr>))
        else if op = A_CALL2F \<and> 128 \<le> c then
          Inr (s2\<lparr>vnum := xcallfi X fn (args ! 0) (ucast (to_long F (args ! 1)))\<rparr>)
        else Inr (s2\<lparr>vnum := xcallf X fn args\<rparr>)))))))"

text \<open>
  The end of the loop body, for the opcode byte as the \<open>switch\<close> left it: a binary operator drops
  an entry, and the value and its type are stored on top.
\<close>

definition vm_end :: "nat \<Rightarrow> ('f, 'v, 's) vm \<Rightarrow> ('f, 'v, 's) vres" where
  "vm_end c s =
     (let s = (if c \<noteq> 0 then s\<lparr>vlastval := None\<rparr> else s) in
      vbind
        (if c div 64 mod 2 = 1 then
           vbind (pop_sp 1 (s\<lparr>vnode := (vnode s)\<lparr>nenum_p := False\<rparr>\<rparr>)) (\<lambda>s.
           vbind (pop_tp 1 s) (\<lambda>s.
           vbind (nth_top 0 (vtp s)) (\<lambda>t. Inr (s\<lparr>vtype := Bit_Operations.or (vtype s) (if t \<noteq> 0 then 1 else 0)\<rparr>))))
         else Inr s)
        (\<lambda>s. case (vsp s, vtp s) of
               (_ # xs, _ # ts) \<Rightarrow> Inr (s\<lparr>vsp := vnum s # xs, vtp := vtype s # ts\<rparr>)
             | _ \<Rightarrow> Inl StackUnder))"

text \<open>The test for a float operand of an integer operator.\<close>

definition check_nofloat :: "('f, 'v, 'm, 's) xenv \<Rightarrow> nat \<Rightarrow> ('f, 'v, 's) vm \<Rightarrow> ('f, 'v, 's) vres" where
  "check_nofloat X c s =
     (if 128 \<le> c then
        if vtype s = 1 then arith_error X e_incompatible s
        else if c div 64 mod 2 = 1 \<and> c mod 64 \<noteq> A_MOD then
          vbind (nth_top 1 (vtp s)) (\<lambda>t. if t = 1 then arith_error X e_incompatible s else Inr s)
        else Inr s
      else Inr s)"

text \<open>One iteration for the opcode byte \<open>c\<close>, with \<open>vpc\<close> after it.\<close>

definition vm_op :: "('f, 'v, 'm, 's) xenv \<Rightarrow> int \<Rightarrow> ('f, 'v, 'm) code \<Rightarrow> nat \<Rightarrow> nat \<Rightarrow> ('f, 'v, 's) vm \<Rightarrow>
    ('f, 'v, 's) vres" where
  "vm_op X k C lev c s =
     (let op = c mod 64; F = xops X in
      if op = A_JMP \<or> op = A_JMPZ \<or> op = A_JMPNZ then step_jump F C op s
      else if op = A_POP then pop_sp 1 s
      else if op = A_ENUM then Inr (s\<lparr>vnode := (vnode s)\<lparr>nisenum := True\<rparr>\<rparr>)
      else if op = A_PUSHF then step_pushf F k C s
      else if op = A_PUSHV \<or> op = A_ASSIGNOP1 then vbind (step_pushv X k C lev op s) (vm_end 0)
      else if op = A_STORE \<or> op = A_ASSIGNOP then vbind (step_store X C op s) (vm_end 0)
      else if op = A_PUSHN then vbind (step_pushn k C s) (vm_end c)
      else if op = A_NOTNOT then vm_end c (s\<lparr>vnum := fbool F (fnz F (vnum s)), vtype := 0\<rparr>)
      else if op = A_NOT then vm_end c (s\<lparr>vnum := fbool F (\<not> fnz F (vnum s)), vtype := 0\<rparr>)
      else if op = A_UMINUS then vm_end c (s\<lparr>vnum := fneg F (vnum s)\<rparr>)
      else if op = A_TILDE then vm_end c (s\<lparr>vnum := of_long F (NOT (to_long F (vnum s)))\<rparr>)
      else if op = A_PLUSPLUS \<or> op = A_MINUSMINUS \<or> op = A_INCR \<or> op = A_DECR then
        vbind (step_incr X op s) (vm_end c)
      else if op \<in> {A_PLUS, A_MINUS, A_TIMES, A_POW, A_MOD, A_DIV, A_LSHIFT, A_RSHIFT, A_XOR, A_OR,
          A_AND, A_EQ, A_NEQ, A_LE, A_GE, A_GT, A_LT} then
        vbind (step_binary X op s) (vm_end c)
      else if op = A_CALL1F \<or> op = A_CALL1I then
        vbind (step_call X C c 1 s) (vm_end (if op = A_CALL1F then c mod 64 + c div 128 * 128 else c))
      else if op = A_CALL2F \<or> op = A_CALL2I then
        vbind (step_call X C c 2 s) (vm_end (if op = A_CALL2F then c mod 64 + c div 128 * 128 else c))
      else if op = A_CALL3F then vbind (step_call X C c 3 s) (vm_end (c mod 64 + c div 128 * 128))
      else if op = A_SWAP then vbind (step_swap s) (vm_end c)
      else vm_end c s)"

definition vm_step :: "('f, 'v, 'm, 's) xenv \<Rightarrow> int \<Rightarrow> ('f, 'v, 'm) code \<Rightarrow> nat \<Rightarrow> nat \<Rightarrow> ('f, 'v, 's) vm \<Rightarrow>
    ('f, 'v, 's) vres" where
  "vm_step X k C lev c s =
     vbind (check_nofloat X c (s\<lparr>vpc := vpc s + 1\<rparr>)) (vm_op X k C lev c)"

text \<open>The loop \<open>while(c = *cp++)\<close>, with fuel: \<open>None\<close> when it runs out.\<close>

primrec vm_run :: "nat \<Rightarrow> ('f, 'v, 'm, 's) xenv \<Rightarrow> int \<Rightarrow> ('f, 'v, 'm) code \<Rightarrow> nat \<Rightarrow> ('f, 'v, 's) vm \<Rightarrow>
    ('f, 'v, 's) vres option" where
  "vm_run 0 X k C lev s = None"
| "vm_run (Suc n) X k C lev s =
     (case fetch_op C (vpc s) of
        Inl e \<Rightarrow> Some (Inl e)
      | Inr c \<Rightarrow>
          if c = 0 then Some (Inr s)
          else (case vm_step X k C lev c s of
                  Inl e \<Rightarrow> Some (Inl e)
                | Inr s' \<Rightarrow> vm_run n X k C lev s'))"

abbreviation (input) MAXLEVEL :: nat where "MAXLEVEL \<equiv> 1024"

definition init_vm :: "'f fops \<Rightarrow> 's \<Rightarrow> ('f, 'v, 's) vm" where
  "init_vm F sh =
     \<lparr>vpc = ARITH_HDR, vnum = fnum F 0, vtype = 0, vsp = [], vtp = [],
      vnode = \<lparr>nvalue = None, nflag = 0, nnosub = 0, nenum_p = False, nisenum = False,
        nisfloat = False, nassignop = False, nlevel = 0\<rparr>,
      vlastval = None, vlastsub = 0, vmsgs = [], vsh = sh\<rparr>"

text \<open>
  \<open>arith_exec\<close> at recursion level \<open>rec\<close> (\<open>sh.arithrecursion\<close>): the number and the state, with the
  messages of a non-fatal mode.
\<close>

definition arith_exec :: "nat \<Rightarrow> ('f, 'v, 'm, 's) xenv \<Rightarrow> ('f, 'v, 'm) arith \<Rightarrow> nat \<Rightarrow> 's \<Rightarrow>
    ('v xerror + 'f \<times> ('v option + aerr) list \<times> 's) option" where
  "arith_exec fuel X ep lev sh =
     (if lev \<ge> MAXLEVEL then
        Some (if xfatal X then Inl (Arith e_recursive) else Inr (fnum (xops X) 0, [Inr e_recursive], sh))
      else (case vm_run fuel X (astaksize ep) (acode ep) (lev + 1) (init_vm (xops X) sh) of
              None \<Rightarrow> None
            | Some (Inl e) \<Rightarrow> Some (Inl e)
            | Some (Inr s) \<Rightarrow>
                Some (Inr (if vtype s = 0 \<and> \<not> fnz (xops X) (vnum s) then fnum (xops X) 0 else vnum s,
                           vmsgs s, vsh s))))"

end
