(* ===== verification/ArithVerify.thy ===== *)
theory ArithVerify
  imports ArithExec
begin

text \<open>
  A bytecode verifier for the arithmetic machine: \<open>instr\<close> types one instruction and \<open>seg\<close> a stretch
  of code by the stacks before and after it, and \<open>seg_sound\<close> shows that a stretch so typed runs to
  its end, in no more steps than it has bytes, without a bad fetch or a stack underflow.  A stack is
  described by a list of slots: \<open>None\<close> for a value, \<open>Some p\<close> for the place \<open>p\<close> of a function.
\<close>

section \<open>Typed code\<close>

type_synonym slots = "nat option list"

abbreviation (input) unary_codes :: "nat set" where
  "unary_codes \<equiv> {A_NOT, A_UMINUS, A_NOTNOT, A_TILDE + 128, A_INCR + 128, A_DECR + 128,
     A_PLUSPLUS + 128, A_MINUSMINUS + 128}"

abbreviation (input) binary_codes :: "nat set" where
  "binary_codes \<equiv> {A_AND + 192, A_OR + 192, A_XOR + 192, A_LSHIFT + 192, A_RSHIFT + 192, A_MOD + 192,
     A_PLUS + 64, A_MINUS + 64, A_TIMES + 64, A_DIV + 64, A_EQ + 64, A_NEQ + 64, A_LT + 64, A_LE + 64,
     A_GT + 64, A_GE + 64, A_POW + 64}"

text \<open>The argument counts the opcodes can express: 1 to 3, two at most for an integer result.\<close>

definition nargs_ok :: "int \<Rightarrow> bool" where
  "nargs_ok a \<longleftrightarrow> a \<in> {-3, -2, -1, 1, 2, 3, 9, 10, 33, 34, 35}"

inductive instr :: "('f, 'v, 'm) code \<Rightarrow> nat \<Rightarrow> slots \<Rightarrow> nat \<Rightarrow> slots \<Rightarrow> bool" for C where
  i_pushv: "C a = Some (COp c) \<Longrightarrow> c \<in> {A_PUSHV, A_ASSIGNOP1} \<Longrightarrow> p = round_up (Suc a) 8 \<Longrightarrow>
     C p = Some (CPtr q) \<Longrightarrow> C (p + 8) = Some (CShort h) \<Longrightarrow> instr C a \<sigma> (p + 10) (None # \<sigma>)"
| i_pushn: "C a = Some (COp A_PUSHN) \<Longrightarrow> p = round_up (Suc a) 16 \<Longrightarrow> C p = Some (CNum d) \<Longrightarrow>
     C (p + 16) = Some (COp t) \<Longrightarrow> instr C a \<sigma> (p + 17) (None # \<sigma>)"
| i_pushf: "C a = Some (COp A_PUSHF) \<Longrightarrow> p = round_up (Suc a) 8 \<Longrightarrow> C p = Some (CFun f) \<Longrightarrow>
     C (p + 8) = Some (COp t) \<Longrightarrow> ARITH_HDR \<le> p \<Longrightarrow> p < 2 ^ 15 \<Longrightarrow> instr C a \<sigma> (p + 9) (Some p # \<sigma>)"
| i_enum: "C a = Some (COp A_ENUM) \<Longrightarrow> instr C a \<sigma> (Suc a) \<sigma>"
| i_unary: "C a = Some (COp c) \<Longrightarrow> c \<in> unary_codes \<Longrightarrow> instr C a (None # \<sigma>) (Suc a) (None # \<sigma>)"
| i_binary: "C a = Some (COp c) \<Longrightarrow> c \<in> binary_codes \<Longrightarrow> instr C a (None # None # \<sigma>) (Suc a) (None # \<sigma>)"
| i_store: "C a = Some (COp c) \<Longrightarrow> c \<in> {A_STORE, A_ASSIGNOP} \<Longrightarrow> p = round_up (Suc a) 8 \<Longrightarrow>
     C p = Some (CPtr q) \<Longrightarrow> C (p + 8) = Some (CShort h) \<Longrightarrow> instr C a (None # \<sigma>) (p + 10) (None # \<sigma>)"
| i_pop: "C a = Some (COp A_POP) \<Longrightarrow> instr C a (None # \<sigma>) (Suc a) \<sigma>"
| i_call: "C a = Some (COp (call_op nargs)) \<Longrightarrow> nargs_ok nargs \<Longrightarrow> n = nat \<bar>nargs\<bar> mod 8 \<Longrightarrow>
     instr C a (replicate n None @ Some p # \<sigma>) (Suc a) (None # \<sigma>)"

text \<open>\<open>seg C m a \<sigma> b \<tau>\<close>: the code from \<open>a\<close> to \<open>b\<close> takes the stack \<open>\<sigma>\<close> to \<open>\<tau>\<close>, never deeper than \<open>m\<close>.\<close>

inductive seg :: "('f, 'v, 'm) code \<Rightarrow> nat \<Rightarrow> nat \<Rightarrow> slots \<Rightarrow> nat \<Rightarrow> slots \<Rightarrow> bool" for C m where
  s_nil: "seg C m a \<sigma> a \<sigma>"
| s_instr: "instr C a \<sigma> b \<tau> \<Longrightarrow> length \<tau> \<le> m \<Longrightarrow> seg C m a \<sigma> b \<tau>"
| s_seq: "seg C m a \<sigma> b \<tau> \<Longrightarrow> seg C m b \<tau> c \<upsilon> \<Longrightarrow> seg C m a \<sigma> c \<upsilon>"
| s_skip: "C a = Some (COp j) \<Longrightarrow> j \<in> {A_JMPZ, A_JMPNZ} \<Longrightarrow> p = round_up (Suc a) 2 \<Longrightarrow>
     C p = Some (CShort (of_nat b)) \<Longrightarrow> b < 2 ^ 15 \<Longrightarrow> seg C m (p + 2) \<sigma> b \<sigma> \<Longrightarrow> seg C m a \<sigma> b \<sigma>"
| s_cond: "C a = Some (COp A_JMPZ) \<Longrightarrow> p = round_up (Suc a) 2 \<Longrightarrow> C p = Some (CShort (of_nat (q + 2))) \<Longrightarrow>
     seg C m (p + 2) \<sigma> e \<tau> \<Longrightarrow> C e = Some (COp A_JMP) \<Longrightarrow> q = round_up (Suc e) 2 \<Longrightarrow>
     C q = Some (CShort (of_nat b)) \<Longrightarrow> b < 2 ^ 15 \<Longrightarrow> seg C m (q + 2) \<sigma> b \<tau> \<Longrightarrow> seg C m a \<sigma> b \<tau>"

lemma round_up_ge: "0 < k \<Longrightarrow> x \<le> round_up x k"
proof -
  assume "0 < k"
  have "x + k - 1 - (x + k - 1) mod k = (x + k - 1) div k * k"
    by (simp add: minus_mod_eq_div_mult)
  moreover have "(x + k - 1) mod k < k" using \<open>0 < k\<close> by simp
  ultimately show ?thesis unfolding round_up_def using \<open>0 < k\<close> by linarith
qed

lemma round_up_le: "0 < k \<Longrightarrow> round_up x k < x + k"
  unfolding round_up_def using div_times_less_eq_dividend [of "x + k - 1" k] by linarith

lemma round_up_gt: "0 < k \<Longrightarrow> a < round_up (Suc a) k + j"
  using round_up_ge [of k "Suc a"] by linarith

lemma instr_forward: "instr C a \<sigma> b \<tau> \<Longrightarrow> a < b"
  by (induction rule: instr.induct) (auto simp: round_up_gt)

lemma seg_forward: "seg C m a \<sigma> b \<tau> \<Longrightarrow> a \<le> b"
proof (induction rule: seg.induct)
  case (s_instr a \<sigma> b \<tau>)
  then show ?case using instr_forward by fastforce
next
  case (s_skip a j p b \<sigma>)
  then show ?case using round_up_ge [of 2 "Suc a"] by simp
next
  case (s_cond a p q \<sigma> e \<tau> b)
  then show ?case using round_up_ge [of 2 "Suc a"] round_up_ge [of 2 "Suc e"] by simp
qed auto

text \<open>The code outside the stretch does not matter, and a larger bound is a bound.\<close>

lemma instr_frame:
  "instr C a \<sigma> b \<tau> \<Longrightarrow> (\<And>i. a \<le> i \<Longrightarrow> i < b \<Longrightarrow> D i = C i) \<Longrightarrow> instr D a \<sigma> b \<tau>"
proof (induction rule: instr.induct)
  case (i_pushv a c p q h \<sigma>)
  then show ?case using round_up_ge [of 8 "Suc a"] by (intro instr.i_pushv) auto
next
  case (i_pushn a p d t \<sigma>)
  then show ?case using round_up_ge [of 16 "Suc a"] by (intro instr.i_pushn) auto
next
  case (i_pushf a p f t \<sigma>)
  then show ?case using round_up_ge [of 8 "Suc a"] by (intro instr.i_pushf) auto
next
  case (i_store a c p q h \<sigma>)
  then show ?case using round_up_ge [of 8 "Suc a"] by (intro instr.i_store) auto
qed (auto intro: instr.intros)

lemma seg_frame:
  "seg C m a \<sigma> b \<tau> \<Longrightarrow> (\<And>i. a \<le> i \<Longrightarrow> i < b \<Longrightarrow> D i = C i) \<Longrightarrow> seg D m a \<sigma> b \<tau>"
proof (induction rule: seg.induct)
  case (s_instr a \<sigma> b \<tau>)
  then show ?case using instr_frame by (blast intro: seg.s_instr)
next
  case (s_seq a \<sigma> b \<tau> c \<upsilon>)
  have "a \<le> b" "b \<le> c" using s_seq.hyps seg_forward by blast+
  then show ?case using s_seq by (intro seg.s_seq [of D m a \<sigma> b \<tau> c \<upsilon>]) auto
next
  case (s_skip a j p b \<sigma>)
  have "Suc a \<le> p" using s_skip round_up_ge [of 2 "Suc a"] by simp
  moreover have "p + 2 \<le> b" using s_skip seg_forward by blast
  ultimately show ?case using s_skip by (intro seg.s_skip [of D a j p b m \<sigma>]) auto
next
  case (s_cond a p q \<sigma> e \<tau> b)
  have "Suc a \<le> p" "Suc e \<le> q" using s_cond round_up_ge [of 2 "Suc a"] round_up_ge [of 2 "Suc e"] by simp_all
  moreover have "p + 2 \<le> e" "q + 2 \<le> b" using s_cond seg_forward by blast+
  ultimately show ?case using s_cond by (intro seg.s_cond [of D a p q m \<sigma> e \<tau> b]) auto
qed (rule seg.s_nil)

lemma seg_mono: "seg C m a \<sigma> b \<tau> \<Longrightarrow> m \<le> n \<Longrightarrow> seg C n a \<sigma> b \<tau>"
proof (induction rule: seg.induct)
  case (s_instr a \<sigma> b \<tau>)
  then show ?case by (intro seg.s_instr) auto
next
  case (s_seq a \<sigma> b \<tau> c \<upsilon>)
  then show ?case using seg.s_seq by blast
next
  case (s_skip a j p b \<sigma>)
  then show ?case using seg.s_skip by metis
next
  case (s_cond a p q \<sigma> e \<tau> b)
  then show ?case using seg.s_cond by metis
qed (rule seg.s_nil)

section \<open>Running typed code\<close>

text \<open>
  The stacks at run time fit a description: as many values, a function slot holds the place of its
  function.  The stack of types is never the shorter one; it is exactly as long in a program without
  \<open>A_POP\<close>, the instruction that forgets it.
\<close>

definition no_pop :: "('f, 'v, 'm) code \<Rightarrow> bool" where
  "no_pop C \<longleftrightarrow> (\<forall>o'. C o' \<noteq> Some (COp A_POP))"

definition exact_offsets :: "'f fops \<Rightarrow> bool" where
  "exact_offsets F \<longleftrightarrow> (\<forall>n < 2 ^ 15. to_long F (fnum F n) = of_nat n)"

definition slot_ok :: "'f fops \<Rightarrow> ('f, 'v, 'm) code \<Rightarrow> nat option \<Rightarrow> 'f \<Rightarrow> bool" where
  "slot_ok F C k x \<longleftrightarrow> (case k of None \<Rightarrow> True
     | Some p \<Rightarrow> to_long F x = of_nat (p - ARITH_HDR) \<and> ARITH_HDR \<le> p \<and> p < 2 ^ 15 \<and> (\<exists>f. C p = Some (CFun f)))"

definition fits :: "'f fops \<Rightarrow> ('f, 'v, 'm) code \<Rightarrow> slots \<Rightarrow> ('f, 'v, 's) vm \<Rightarrow> bool" where
  "fits F C \<sigma> s \<longleftrightarrow> list_all2 (slot_ok F C) \<sigma> (vsp s) \<and> length (vsp s) \<le> length (vtp s) \<and>
     (no_pop C \<longrightarrow> length (vtp s) = length (vsp s))"

text \<open>The errors that remain possible: overflow only where the bound does not fit the space.\<close>

definition tame :: "('f, 'v, 'm) code \<Rightarrow> nat \<Rightarrow> int \<Rightarrow> 'v xerror \<Rightarrow> bool" where
  "tame C m k e \<longleftrightarrow> e \<noteq> BadFetch \<and> e \<noteq> StackUnder \<and> (int m \<le> k \<and> no_pop C \<longrightarrow> e \<noteq> StackOver)"

definition goes :: "('f, 'v, 'm, 's) xenv \<Rightarrow> ('f, 'v, 'm) code \<Rightarrow> nat \<Rightarrow> int \<Rightarrow> nat \<Rightarrow> slots \<Rightarrow>
    ('f, 'v, 's) vres \<Rightarrow> bool" where
  "goes X C m k b \<tau> r \<longleftrightarrow>
     (case r of Inl e \<Rightarrow> tame C m k e | Inr s \<Rightarrow> vpc s = b \<and> fits (xops X) C \<tau> s)"

lemma goes_simps [simp]:
  "goes X C m k b \<tau> (Inl e) = tame C m k e"
  "goes X C m k b \<tau> (Inr s) = (vpc s = b \<and> fits (xops X) C \<tau> s)"
  by (simp_all add: goes_def)

lemma tame_simps [simp]:
  "tame C m k (Arith e)" "tame C m k (Callback t)" "tame C m k UndefShift" "tame C m k UndefDiv"
  by (simp_all add: tame_def)

text \<open>A bind goes on when its first part returns something good or a tame error.\<close>

definition mid :: "('f, 'v, 'm) code \<Rightarrow> nat \<Rightarrow> int \<Rightarrow> 'v xerror + 'a \<Rightarrow> ('a \<Rightarrow> bool) \<Rightarrow> bool" where
  "mid C m k r P \<longleftrightarrow> (case r of Inl e \<Rightarrow> tame C m k e | Inr x \<Rightarrow> P x)"

lemma mid_simps [simp]: "mid C m k (Inl e) P = tame C m k e" "mid C m k (Inr x) P = P x"
  by (simp_all add: mid_def)

lemma goes_bind: "mid C m k r P \<Longrightarrow> (\<And>x. P x \<Longrightarrow> goes X C m k b \<tau> (f x)) \<Longrightarrow> goes X C m k b \<tau> (vbind r f)"
  by (cases r) (auto simp: vbind_def)

lemma mid_bind: "mid C m k r P \<Longrightarrow> (\<And>x. P x \<Longrightarrow> mid C m k (f x) Q) \<Longrightarrow> mid C m k (vbind r f) Q"
  by (cases r) (auto simp: vbind_def)

lemma mid_call: "(\<And>x. mid C m k (f x) Q) \<Longrightarrow> mid C m k (vcall r f) Q"
  by (cases r) (auto simp: vcall_def)

lemma vbind_Inr [simp]: "vbind (Inr x) f = f x"
  by (simp add: vbind_def)

text \<open>Steps that leave the stacks alone.\<close>

definition kept :: "('f, 'v, 's) vm \<Rightarrow> ('f, 'v, 's) vm \<Rightarrow> bool" where
  "kept s s' \<longleftrightarrow> vsp s' = vsp s \<and> vtp s' = vtp s \<and> vpc s' = vpc s"

lemma kept_fits: "kept s s' \<Longrightarrow> fits F C \<sigma> s \<Longrightarrow> fits F C \<sigma> s'"
  by (simp add: kept_def fits_def)

lemma fits_vpc [simp]: "fits F C \<sigma> (s\<lparr>vpc := x\<rparr>) = fits F C \<sigma> s"
  by (simp add: fits_def)

lemma fits_length: "fits F C \<sigma> s \<Longrightarrow> length (vsp s) = length \<sigma> \<and> length \<sigma> \<le> length (vtp s)"
  by (auto simp: fits_def dest: list_all2_lengthD)

lemma mid_error: "mid C m k (arith_error X e s) (kept s)"
  by (simp add: arith_error_def kept_def)

lemma mid_nofloat:
  "c div 64 mod 2 = 1 \<Longrightarrow> 2 \<le> length (vtp s) \<Longrightarrow> mid C m k (check_nofloat X c s) (kept s)"
  "c div 64 mod 2 = 0 \<Longrightarrow> mid C m k (check_nofloat X c s) (kept s)"
  by (auto simp: check_nofloat_def nth_top_def mid_error arith_error_def kept_def)

lemma mid_incr: "mid C m k (step_incr X op s) (kept s)"
  by (auto simp: step_incr_def Let_def kept_def intro: mid_call split: prod.splits)

lemma mid_intop: "mid C m k (step_intop F op x y a b) (\<lambda>_. True)"
  unfolding step_intop_def Let_def
  by (rule mid_bind [where P = "\<lambda>_. True"])
    (auto simp: long_div_def long_mod_def ulong_div_def ulong_mod_def shift_left_def shift_right_def)

lemma mid_binary:
  assumes "2 \<le> length (vsp s)" "2 \<le> length (vtp s)"
  shows "mid C m k (step_binary X op s) (kept s)"
proof -
  have int: "mid C m k (vbind (step_intop F o' x y a b) (\<lambda>r. Inr (s'\<lparr>vnum := r\<rparr>))) (kept s)"
    if "kept s s'" for F o' x y a b s'
    by (rule mid_bind [OF mid_intop]) (use that in \<open>simp add: kept_def\<close>)
  have md: "mid C m k (step_mod X x a s) (kept s)" for x a
    unfolding step_mod_def by (rule mid_bind [where P = "kept s"]) (auto simp: mid_error int kept_def)
  have dv: "mid C m k (step_div X x a s) (kept s)" for x a
    unfolding step_div_def Let_def by (auto simp: mid_error int kept_def)
  show ?thesis
    using assms by (auto simp: step_binary_def Let_def nth_top_def md dv int kept_def)
qed

lemma mid_store:
  assumes "p = round_up (vpc s) 8" "C p = Some (CPtr q)" "C (p + 8) = Some (CShort h)"
  shows "mid C m k (step_store X C op s) (kept (s\<lparr>vpc := p + 10\<rparr>))"
  unfolding step_store_def Let_def fetch_ptr_def fetch_short_def assms(1) [symmetric] assms(2,3)
    option.case cell.case vbind_Inr
proof (rule mid_call)
  fix x
  show "mid C m k (case x of (num, nd1, sh1) \<Rightarrow> vbind
      (if vlastval s \<noteq> None \<and> nenum_p nd1 then vcall (xvalue X sh1 (nd1\<lparr>nflag := 0, nvalue := vlastval s\<rparr>) num)
          (\<lambda>(r, nd2, sh2). if feq (xops X) r num then Inr (num, nd2, sh2)
              else vcall (xassign X sh2 (nd2\<lparr>nflag := if h <s 0 then 0 else h, nvalue := q\<rparr>) r) Inr)
       else Inr (num, nd1, sh1))
      (\<lambda>(num, nd3, sh3). Inr (s\<lparr>vpc := p + 10, vnum := num, vnode := nd3, vlastval := None, vsh := sh3\<rparr>)))
    (kept (s\<lparr>vpc := p + 10\<rparr>))"
    by (auto simp: kept_def split: prod.splits intro!: mid_bind [where P = "\<lambda>_. True"] mid_call)
qed

text \<open>Pushing: there is room when the bound fits.\<close>

lemma tp_room_ge: "sp_room k \<le> tp_room k"
  unfolding sp_room_def tp_room_def by (rule nat_mono) simp

lemma mid_push:
  assumes "fits F C \<sigma> s" "length \<sigma> < m" "slot_ok F C j x"
  shows "mid C m k (push_sp k x s) (\<lambda>s1. s1 = s\<lparr>vsp := x # vsp s\<rparr>)"
    and "vsp s1 = x # vsp s \<Longrightarrow> vtp s1 = vtp s \<Longrightarrow> vpc s1 = b \<Longrightarrow>
      mid C m k (push_tp k t s1) (\<lambda>s2. fits F C (j # \<sigma>) s2 \<and> vpc s2 = b)"
proof -
  note len = fits_length [OF assms(1)]
  show "mid C m k (push_sp k x s) (\<lambda>s1. s1 = s\<lparr>vsp := x # vsp s\<rparr>)"
    using assms(2) len by (auto simp: push_sp_def tame_def sp_room_def)
  assume s1: "vsp s1 = x # vsp s" "vtp s1 = vtp s" "vpc s1 = b"
  have "length (vtp s) < tp_room k" if "int m \<le> k" "no_pop C"
  proof -
    have "length (vtp s) = length \<sigma>" using that assms(1) len by (simp add: fits_def)
    also have "\<dots> < sp_room k" using that assms(2) by (simp add: sp_room_def)
    finally show ?thesis using tp_room_ge [of k] by linarith
  qed
  then show "mid C m k (push_tp k t s1) (\<lambda>s2. fits F C (j # \<sigma>) s2 \<and> vpc s2 = b)"
    using s1 assms by (auto simp: push_tp_def tame_def fits_def)
qed

lemma slot_value [simp]: "slot_ok F C None x"
  by (simp add: slot_ok_def)

lemma mid_pushn:
  assumes "fits F C \<sigma> s" "length \<sigma> < m" "p = round_up (vpc s) 16" "C p = Some (CNum d)"
    "C (p + 16) = Some (COp t)"
  shows "mid C m k (step_pushn k C s) (\<lambda>s'. fits F C (None # \<sigma>) s' \<and> vpc s' = p + 17)"
  unfolding step_pushn_def Let_def fetch_num_def fetch_op_def assms(3) [symmetric] assms(4,5)
    option.case cell.case vbind_Inr
  by (rule mid_bind [OF mid_push(1) [OF assms(1,2) slot_value]], rule mid_push(2) [OF assms(1,2)]) auto

lemma mid_pushf:
  assumes "fits F C \<sigma> s" "length \<sigma> < m" "p = round_up (vpc s) 8" "C p = Some (CFun f)"
    "C (p + 8) = Some (COp t)" "ARITH_HDR \<le> p" "p < 2 ^ 15" "exact_offsets F"
  shows "mid C m k (step_pushf F k C s) (\<lambda>s'. fits F C (Some p # \<sigma>) s' \<and> vpc s' = p + 9)"
proof -
  have "slot_ok F C (Some p) (fnum F (p - ARITH_HDR))"
    using assms(4,6-8) by (simp add: slot_ok_def exact_offsets_def)
  note slot = this
  show ?thesis
    unfolding step_pushf_def Let_def fetch_op_def assms(3) [symmetric] assms(5)
      option.case cell.case vbind_Inr
    by (rule mid_bind [OF mid_push(1) [OF assms(1,2) slot]]) (simp, rule mid_push(2) [OF assms(1,2) slot], auto)
qed

lemma mid_pushv:
  fixes s :: "('f, 'v, 's) vm" and X :: "('f, 'v, 'm, 's) xenv"
  assumes "fits (xops X) C \<sigma> s" "length \<sigma> < m" "p = round_up (vpc s) 8" "C p = Some (CPtr q)"
    "C (p + 8) = Some (CShort h)"
  shows "mid C m k (step_pushv X k C lev op s) (\<lambda>s'. fits (xops X) C (None # \<sigma>) s' \<and> vpc s' = p + 10)"
  unfolding step_pushv_def Let_def fetch_ptr_def fetch_short_def assms(3) [symmetric] assms(4,5)
    option.case cell.case vbind_Inr
proof (rule mid_call, clarify)
  fix num :: 'f and nd :: "'v node" and sh :: 's
  let ?nd = "if nassignop nd then nd\<lparr>nnosub := 0, nassignop := False\<rparr> else nd"
  let ?s1 = "s\<lparr>vpc := p + 10, vnode := ?nd, vlastval := if h \<noteq> 0 then None else q,
    vlastsub := if nassignop nd then nnosub nd else vlastsub s, vsh := sh\<rparr>"
  let ?t = "value_type (xops X) (nisfloat ?nd) num"
  let ?r = "if nvalue ?nd \<noteq> q then if xfatal X then Inl (Callback (nvalue ?nd))
      else Inr (?s1\<lparr>vmsgs := vmsgs ?s1 @ [Inl (nvalue ?nd)]\<rparr>) else Inr ?s1"
  have "mid C m k ?r (kept (s\<lparr>vpc := p + 10\<rparr>))"
    by (simp add: kept_def)
  then show "mid C m k (vbind ?r (\<lambda>s2. vbind (push_sp k num s2)
        (\<lambda>s3. push_tp k ?t (s3\<lparr>vnum := num, vtype := ?t\<rparr>))))
      (\<lambda>s'. fits (xops X) C (None # \<sigma>) s' \<and> vpc s' = p + 10)"
  proof (rule mid_bind)
    fix s2 assume kept: "kept (s\<lparr>vpc := p + 10\<rparr>) s2"
    have fit: "fits (xops X) C \<sigma> s2"
      using kept_fits [OF kept] assms(1) by simp
    show "mid C m k (vbind (push_sp k num s2) (\<lambda>s3. push_tp k ?t (s3\<lparr>vnum := num, vtype := ?t\<rparr>)))
        (\<lambda>s'. fits (xops X) C (None # \<sigma>) s' \<and> vpc s' = p + 10)"
      by (rule mid_bind [OF mid_push(1) [OF fit assms(2) slot_value]],
          rule mid_push(2) [OF fit assms(2)]) (use kept in \<open>auto simp: kept_def\<close>)
  qed
qed

text \<open>A call leaves the function's slot, whose value the end of the loop body replaces.\<close>

lemma fits_drop:
  assumes "fits F C (replicate n None @ \<sigma>) s"
  shows "list_all2 (slot_ok F C) \<sigma> (drop n (vsp s))" "n \<le> length (vsp s)" "n \<le> length (vtp s)"
    "length (drop n (vsp s)) \<le> length (drop n (vtp s))"
    "no_pop C \<Longrightarrow> length (drop n (vtp s)) = length (drop n (vsp s))"
proof -
  have l: "length (vsp s) = n + length \<sigma>" "length (vsp s) \<le> length (vtp s)"
    using fits_length [OF assms] by auto
  then show "n \<le> length (vsp s)" "n \<le> length (vtp s)"
    "length (drop n (vsp s)) \<le> length (drop n (vtp s))" by auto
  show "no_pop C \<Longrightarrow> length (drop n (vtp s)) = length (drop n (vsp s))"
    using assms by (simp add: fits_def)
  have "list_all2 (slot_ok F C) (drop n (replicate n None @ \<sigma>)) (drop n (vsp s))"
    using assms unfolding fits_def by (blast intro: list_all2_dropI)
  then show "list_all2 (slot_ok F C) \<sigma> (drop n (vsp s))" by simp
qed

lemma mid_call_step:
  assumes fit: "fits (xops X) C (replicate n None @ Some p # \<sigma>) s"
  shows "mid C m k (step_call X C c n s) (\<lambda>s'. fits (xops X) C (Some p # \<sigma>) s' \<and> vpc s' = vpc s)"
proof -
  note d = fits_drop [OF fit]
  obtain x xs where x: "drop n (vsp s) = x # xs" "slot_ok (xops X) C (Some p) x"
    using d(1) by (auto simp: list_all2_Cons1)
  obtain t ts where t: "drop n (vtp s) = t # ts"
    using d(4) x(1) by (cases "drop n (vtp s)") auto
  obtain f where f: "C p = Some (CFun f)" "to_long (xops X) x = of_nat (p - 32)" "32 \<le> p" "p < 2 ^ 15"
    using x(2) by (auto simp: slot_ok_def)
  have "unat (of_nat (p - 32) :: 64 word) = p - 32"
    using f(4) by (simp add: unsigned_of_nat take_bit_nat_eq_self del: of_nat_diff)
  then have "32 + unat (to_long (xops X) x) = p"
    using f(2,3) by (simp del: of_nat_diff)
  then have fn: "fetch_fun C (32 + unat (to_long (xops X) x)) = Inr f"
    using f(1) by (simp add: fetch_fun_def)
  have fits: "fits (xops X) C (Some p # \<sigma>) (s\<lparr>vsp := x # xs, vtp := t # ts, vtype := t, vnum := v, vsh := sh\<rparr>)"
    for v sh using d(1,4,5) x t by (simp add: fits_def)
  show ?thesis
    unfolding step_call_def Let_def pop_sp_def pop_tp_def
    using d(2,3) x(1) t fits
    by (auto simp: nth_top_def fn fits_def intro!: mid_call)
qed

lemma goes_end_unary:
  assumes "fits (xops X) C (j # \<sigma>) s" "vpc s = b" "c div 64 mod 2 = 0"
  shows "goes X C m k b (None # \<sigma>) (vm_end c s)"
proof -
  obtain x xs where x: "vsp s = x # xs" using assms(1) by (auto simp: fits_def list_all2_Cons1)
  obtain t ts where t: "vtp s = t # ts" using assms(1) x by (cases "vtp s") (auto simp: fits_def)
  show ?thesis using assms x t by (auto simp: vm_end_def Let_def fits_def)
qed

lemma goes_end_binary:
  assumes "fits (xops X) C (i # j # \<sigma>) s" "vpc s = b" "c div 64 mod 2 = 1"
  shows "goes X C m k b (None # \<sigma>) (vm_end c s)"
proof -
  obtain x y xs where x: "vsp s = x # y # xs"
    using assms(1) by (auto simp: fits_def list_all2_Cons1)
  obtain t u ts where t: "vtp s = t # u # ts"
    using assms(1) x by (cases "vtp s"; cases "tl (vtp s)") (auto simp: fits_def)
  show ?thesis
    using assms x t by (auto simp: vm_end_def Let_def fits_def pop_sp_def pop_tp_def nth_top_def)
qed

lemma mid_goes:
  "mid C m k r P \<Longrightarrow> (\<And>s. P s \<Longrightarrow> vpc s = b \<and> fits (xops X) C \<tau> s) \<Longrightarrow> goes X C m k b \<tau> r"
  by (cases r) auto

text \<open>What \<open>vm_op\<close> does for each class of opcode.\<close>

lemma vm_op_binary:
  "c \<in> binary_codes \<Longrightarrow> vm_op X k C lev c s = vbind (step_binary X (c mod 64) s) (vm_end c)"
  "c \<in> binary_codes \<Longrightarrow> c div 64 mod 2 = 1"
  by (elim insertE emptyE; simp add: vm_op_def)+

lemma vm_op_incr:
  "c \<in> {A_INCR + 128, A_DECR + 128, A_PLUSPLUS + 128, A_MINUSMINUS + 128} \<Longrightarrow>
   vm_op X k C lev c s = vbind (step_incr X (c mod 64) s) (vm_end c)"
  by (elim insertE emptyE; simp add: vm_op_def)

lemma vm_op_sign:
  "c \<in> {A_NOT, A_UMINUS, A_NOTNOT, A_TILDE + 128} \<Longrightarrow>
   \<exists>s'. vm_op X k C lev c s = vm_end c s' \<and> kept s s'"
  by (elim insertE emptyE; simp add: vm_op_def Let_def; rule exI; rule conjI, rule refl, simp add: kept_def)

lemma unary_flag: "c \<in> unary_codes \<Longrightarrow> c div 64 mod 2 = 0"
  by (elim insertE emptyE; simp)

lemma call_op_code:
  assumes "nargs_ok a"
  shows "call_op a \<in> {47, 48, 49, 50, 51, 111, 112, 113, 175, 176, 177}" (is ?c)
    and "nat \<bar>a\<bar> mod 8 = (if call_op a mod 64 \<in> {47, 50} then 1 else if call_op a mod 64 \<in> {48, 51} then 2 else 3)"
    (is ?n)
proof -
  have "?c \<and> ?n"
    using assms unfolding nargs_ok_def
    by (elim insertE emptyE; simp add: call_op_def)
  then show ?c ?n by blast+
qed

lemma vm_op_call:
  assumes "c \<in> {47, 48, 49, 50, 51, 111, 112, 113, 175, 176, 177}"
  shows "\<exists>e. vm_op X k C lev c s =
     vbind (step_call X C c (if c mod 64 \<in> {47, 50} then 1 else if c mod 64 \<in> {48, 51} then 2 else 3) s)
       (vm_end e) \<and> e div 64 mod 2 = 0"
proof -
  have eq: "vm_op X k C lev c s =
     vbind (step_call X C c (if c mod 64 \<in> {47, 50} then 1 else if c mod 64 \<in> {48, 51} then 2 else 3) s)
       (vm_end (if c mod 64 \<in> {50, 51} then c else c mod 64 + c div 128 * 128))"
    using assms by (elim insertE emptyE; simp add: vm_op_def)
  have flag: "(if c mod 64 \<in> {50, 51} then c else c mod 64 + c div 128 * 128) div 64 mod 2 = 0"
    using assms by (elim insertE emptyE; simp)
  show ?thesis by (intro exI conjI, rule eq, rule flag)
qed

text \<open>One typed instruction, without the test for floats.\<close>

lemma op_sound:
  fixes X :: "('f, 'v, 'm, 's) xenv" and s :: "('f, 'v, 's) vm"
  assumes "instr C a \<sigma> b \<tau>" "fits (xops X) C \<sigma> s" "vpc s = Suc a" "length \<tau> \<le> m"
    "exact_offsets (xops X)" "C a = Some (COp c)"
  shows "goes X C m k b \<tau> (vm_op X k C lev c s)"
  using assms
proof (induction rule: instr.induct)
  case (i_pushv a c' p q h \<sigma>)
  have "goes X C m k (p + 10) (None # \<sigma>) (vbind (step_pushv X k C lev op s) (vm_end 0))" for op
    by (rule goes_bind [OF mid_pushv [where q = q and h = h]]) (use i_pushv in \<open>auto intro: goes_end_unary\<close>)
  then show ?case using i_pushv.hyps i_pushv.prems(5) by (auto simp: vm_op_def Let_def)
next
  case (i_pushn a p d t \<sigma>)
  have "goes X C m k (p + 17) (None # \<sigma>) (vbind (step_pushn k C s) (vm_end A_PUSHN))"
    by (rule goes_bind [OF mid_pushn [where d = d and t = t]]) (use i_pushn in \<open>auto intro: goes_end_unary\<close>)
  then show ?case using i_pushn.hyps i_pushn.prems(5) by (auto simp: vm_op_def Let_def)
next
  case (i_pushf a p f t \<sigma>)
  have "goes X C m k (p + 9) (Some p # \<sigma>) (step_pushf (xops X) k C s)"
    by (rule mid_goes [OF mid_pushf [where f = f and t = t]]) (use i_pushf in auto)
  then show ?case using i_pushf.hyps i_pushf.prems(5) by (auto simp: vm_op_def Let_def)
next
  case (i_enum a \<sigma>)
  then show ?case by (auto simp: vm_op_def Let_def fits_def)
next
  case (i_unary a c' \<sigma>)
  have c: "c \<in> unary_codes" using i_unary.hyps i_unary.prems(5) by simp
  show ?case
  proof (cases "c \<in> {A_NOT, A_UMINUS, A_NOTNOT, A_TILDE + 128}")
    case True
    obtain s' where s': "vm_op X k C lev c s = vm_end c s'" "kept s s'"
      using vm_op_sign [OF True] by blast
    show ?thesis unfolding s'(1)
      by (rule goes_end_unary [OF kept_fits [OF s'(2) i_unary.prems(1)] _ unary_flag [OF c]])
        (use s'(2) i_unary.prems(2) in \<open>simp add: kept_def\<close>)
  next
    case False
    then have incr: "c \<in> {A_INCR + 128, A_DECR + 128, A_PLUSPLUS + 128, A_MINUSMINUS + 128}" using c by blast
    show ?thesis unfolding vm_op_incr [OF incr]
      by (rule goes_bind [OF mid_incr], rule goes_end_unary [OF kept_fits _ unary_flag [OF c]],
        assumption, rule i_unary.prems(1), use i_unary.prems(2) in \<open>simp add: kept_def\<close>)
  qed
next
  case (i_binary a c' \<sigma>)
  have c: "c \<in> binary_codes" using i_binary.hyps i_binary.prems(5) by simp
  have len: "2 \<le> length (vsp s)" "2 \<le> length (vtp s)"
    using fits_length [OF i_binary.prems(1)] by auto
  show ?case unfolding vm_op_binary(1) [OF c]
    by (rule goes_bind [OF mid_binary [OF len]], rule goes_end_binary [OF kept_fits _ vm_op_binary(2) [OF c]],
        assumption, rule i_binary.prems(1), use i_binary.prems(2) in \<open>simp add: kept_def\<close>)
next
  case (i_store a c' p q h \<sigma>)
  have p: "p = round_up (vpc s) 8" using i_store by simp
  have "goes X C m k (p + 10) (None # \<sigma>) (vbind (step_store X C op s) (vm_end 0))" for op
    by (rule goes_bind [OF mid_store [OF p i_store.hyps(4,5)]], rule goes_end_unary [OF kept_fits],
        assumption, use i_store.prems(1) in \<open>auto simp: kept_def\<close>)
  then show ?case using i_store.hyps i_store.prems(5) by (auto simp: vm_op_def Let_def)
next
  case (i_pop a \<sigma>)
  have "\<not> no_pop C" using i_pop.hyps by (auto simp: no_pop_def)
  then show ?case using i_pop by (auto simp: vm_op_def Let_def pop_sp_def fits_def list_all2_Cons1)
next
  case (i_call a nargs n p \<sigma>)
  have c: "c = call_op nargs" using i_call.hyps(1) i_call.prems(5) by simp
  note code = call_op_code [OF i_call.hyps(2), folded c, folded i_call.hyps(3)]
  obtain e where
    e: "vm_op X k C lev c s = vbind (step_call X C c n s) (vm_end e)" "e div 64 mod 2 = 0"
    using vm_op_call [OF code(1), of X k C lev s] unfolding code(2) [symmetric] by (elim exE conjE)
  show ?case unfolding e(1)
    by (rule goes_bind [OF mid_call_step [OF i_call.prems(1)]], rule goes_end_unary)
      (use e(2) i_call.prems(2) in auto)
qed

text \<open>An opcode with both flags has two operands.\<close>

lemma instr_code:
  assumes "instr C a \<sigma> b \<tau>"
  shows "\<exists>c. C a = Some (COp c) \<and> c \<noteq> 0 \<and>
    (128 \<le> c \<and> c div 64 mod 2 = 1 \<longrightarrow> 2 \<le> length \<sigma>)"
  using assms
proof (induction rule: instr.induct)
  case (i_unary a c \<sigma>)
  have "c \<noteq> 0" using i_unary(2) by (elim insertE emptyE; simp)
  then show ?case using i_unary(1) unary_flag [OF i_unary(2)] by auto
next
  case (i_binary a c \<sigma>)
  have "c \<noteq> 0" using i_binary(2) by (elim insertE emptyE; simp)
  then show ?case using i_binary(1) by auto
next
  case (i_call a nargs n p \<sigma>)
  have "call_op nargs \<noteq> 0 \<and> (128 \<le> call_op nargs \<longrightarrow> call_op nargs div 64 mod 2 = 0)"
    using call_op_code(1) [OF i_call(2)] by (elim insertE emptyE; simp)
  then show ?case using i_call(1) by auto
qed auto

lemma mid_check:
  "(128 \<le> c \<and> c div 64 mod 2 = 1 \<longrightarrow> 2 \<le> length (vtp s)) \<Longrightarrow> mid C m k (check_nofloat X c s) (kept s)"
  by (cases "c div 64 mod 2 = 1"; cases "128 \<le> c") (auto simp: check_nofloat_def nth_top_def mid_error kept_def)

lemma instr_sound:
  fixes X :: "('f, 'v, 'm, 's) xenv" and s :: "('f, 'v, 's) vm"
  assumes i: "instr C (vpc s) \<sigma> b \<tau>" and fit: "fits (xops X) C \<sigma> s"
    and m: "length \<tau> \<le> m" and F: "exact_offsets (xops X)"
  shows "\<exists>c. fetch_op C (vpc s) = Inr c \<and> c \<noteq> 0 \<and> goes X C m k b \<tau> (vm_step X k C lev c s)"
proof -
  obtain c where c: "C (vpc s) = Some (COp c)" "c \<noteq> 0"
    "128 \<le> c \<and> c div 64 mod 2 = 1 \<longrightarrow> 2 \<le> length \<sigma>"
    using instr_code [OF i] by blast
  let ?s = "s\<lparr>vpc := vpc s + 1\<rparr>"
  have "128 \<le> c \<and> c div 64 mod 2 = 1 \<longrightarrow> 2 \<le> length (vtp ?s)"
    using c(3) fits_length [OF fit] by auto
  from mid_check [OF this] have "mid C m k (check_nofloat X c ?s) (kept ?s)" .
  then have "goes X C m k b \<tau> (vm_step X k C lev c s)"
    unfolding vm_step_def
  proof (rule goes_bind)
    fix s' assume k: "kept ?s s'"
    show "goes X C m k b \<tau> (vm_op X k C lev c s')"
      by (rule op_sound [OF i kept_fits [OF k]]) (use k fit m F c in \<open>auto simp: kept_def\<close>)
  qed
  with c show ?thesis by (auto simp: fetch_op_def)
qed

text \<open>A number of iterations of the loop.\<close>

primrec vm_iter :: "nat \<Rightarrow> ('f, 'v, 'm, 's) xenv \<Rightarrow> int \<Rightarrow> ('f, 'v, 'm) code \<Rightarrow> nat \<Rightarrow> ('f, 'v, 's) vm \<Rightarrow>
    ('f, 'v, 's) vres" where
  "vm_iter 0 X k C lev s = Inr s"
| "vm_iter (Suc n) X k C lev s =
     vbind (fetch_op C (vpc s)) (\<lambda>c.
       if c = 0 then Inl BadFetch else vbind (vm_step X k C lev c s) (vm_iter n X k C lev))"

lemma vm_iter_add: "vm_iter (i + j) X k C lev s = vbind (vm_iter i X k C lev s) (vm_iter j X k C lev)"
proof (induction i arbitrary: s)
  case (Suc i)
  have "vm_iter (i + j) X k C lev = (\<lambda>s. vbind (vm_iter i X k C lev s) (vm_iter j X k C lev))"
    using Suc by auto
  then show ?case
    by (auto simp: vbind_def split: sum.splits)
qed (simp add: vbind_def)

text \<open>An iteration that stops with a tame error, or comes to \<open>b\<close> with the stack \<open>\<tau>\<close>, in \<open>n\<close> steps at most.\<close>

definition reaches :: "('f, 'v, 'm, 's) xenv \<Rightarrow> int \<Rightarrow> ('f, 'v, 'm) code \<Rightarrow> nat \<Rightarrow> nat \<Rightarrow> nat \<Rightarrow> nat \<Rightarrow> slots \<Rightarrow>
    ('f, 'v, 's) vm \<Rightarrow> bool" where
  "reaches X k C m lev n b \<tau> s \<longleftrightarrow> (\<exists>j \<le> n. goes X C m k b \<tau> (vm_iter j X k C lev s))"

lemma reaches_refl: "fits (xops X) C \<tau> s \<Longrightarrow> vpc s = b \<Longrightarrow> reaches X k C m lev n b \<tau> s"
  unfolding reaches_def by (rule exI [of _ 0]) simp

lemma reaches_trans:
  assumes "reaches X k C m lev i b \<tau> s"
    and "\<And>s'. vpc s' = b \<Longrightarrow> fits (xops X) C \<tau> s' \<Longrightarrow> reaches X k C m lev j c \<upsilon> s'"
    and "i + j \<le> n"
  shows "reaches X k C m lev n c \<upsilon> s"
proof -
  obtain i' where i': "i' \<le> i" "goes X C m k b \<tau> (vm_iter i' X k C lev s)"
    using assms(1) by (auto simp: reaches_def)
  show ?thesis
  proof (cases "vm_iter i' X k C lev s")
    case (Inl e)
    then show ?thesis
      using i' assms(3) by (auto simp: reaches_def intro!: exI [of _ i'])
  next
    case (Inr s')
    then obtain j' where "j' \<le> j" "goes X C m k c \<upsilon> (vm_iter j' X k C lev s')"
      using assms(2) [of s'] i'(2) by (auto simp: reaches_def)
    then show ?thesis
      using Inr i' assms(3) by (auto simp: reaches_def vm_iter_add vbind_def intro!: exI [of _ "i' + j'"])
  qed
qed

lemma reaches_step:
  assumes "fetch_op C (vpc s) = Inr c" "c \<noteq> 0" "goes X C m k b \<tau> (vm_step X k C lev c s)"
  shows "reaches X k C m lev 1 b \<tau> s"
  unfolding reaches_def
  by (rule exI [of _ "Suc 0"]) (use assms in \<open>cases "vm_step X k C lev c s"; simp add: vbind_def\<close>)

lemma reaches_mono: "reaches X k C m lev i b \<tau> s \<Longrightarrow> i \<le> n \<Longrightarrow> reaches X k C m lev n b \<tau> s"
  unfolding reaches_def by (meson order_trans)

lemma short_target:
  "b < 2 ^ 15 \<Longrightarrow> \<not> (of_nat b :: 16 word) <s 0 \<and> unat (of_nat b :: 16 word) = b"
proof -
  assume b: "b < 2 ^ 15"
  have "signed_take_bit 15 (int b) = int b"
    using b by (intro signed_take_bit_int_eq_self) auto
  then have "sint (of_nat b :: 16 word) = int b"
    by (simp add: signed_of_nat)
  moreover have "unat (of_nat b :: 16 word) = b"
    using b by (simp add: unsigned_of_nat take_bit_nat_eq_self)
  ultimately show ?thesis by (simp add: word_sless_alt)
qed

lemma jump_step:
  assumes "c \<in> {A_JMP, A_JMPZ, A_JMPNZ}" "p = round_up (Suc (vpc s)) 2"
    "C p = Some (CShort (of_nat b))" "b < 2 ^ 15"
  shows "vm_step X k C lev c s =
    Inr (s\<lparr>vpc := (if (c = A_JMPZ \<and> fnz (xops X) (vnum s)) \<or> (c = A_JMPNZ \<and> \<not> fnz (xops X) (vnum s))
      then p + 2 else b)\<rparr>)"
  using assms short_target [OF assms(4)]
  by (elim insertE emptyE;
      simp add: vm_step_def vm_op_def check_nofloat_def step_jump_def fetch_short_def Let_def)

lemma reaches_jump:
  assumes "C (vpc s) = Some (COp c)" "c \<in> {A_JMP, A_JMPZ, A_JMPNZ}" "p = round_up (Suc (vpc s)) 2"
    "C p = Some (CShort (of_nat b))" "b < 2 ^ 15" "fits (xops X) C \<sigma> s"
  shows "(c \<noteq> A_JMP \<and> reaches X k C m lev 1 (p + 2) \<sigma> s) \<or> reaches X k C m lev 1 b \<sigma> s"
proof -
  have f: "fetch_op C (vpc s) = Inr c" "c \<noteq> 0" using assms(1,2) by (auto simp: fetch_op_def)
  note step = jump_step [where c = c and s = s and C = C and p = p and X = X and k = k and lev = lev,
      OF assms(2-5)]
  show ?thesis
  proof (cases "(c = A_JMPZ \<and> fnz (xops X) (vnum s)) \<or> (c = A_JMPNZ \<and> \<not> fnz (xops X) (vnum s))")
    case True
    then have "reaches X k C m lev 1 (p + 2) \<sigma> s"
      by (intro reaches_step [OF f]) (simp add: step assms(6))
    then show ?thesis using True by auto
  next
    case False
    then have "reaches X k C m lev 1 b \<sigma> s"
      by (intro reaches_step [OF f]) (simp only: step if_False goes_simps, simp add: assms(6))
    then show ?thesis by blast
  qed
qed

theorem seg_sound:
  fixes X :: "('f, 'v, 'm, 's) xenv" and s :: "('f, 'v, 's) vm"
  assumes "seg C m a \<sigma> b \<tau>" "vpc s = a" "fits (xops X) C \<sigma> s" "exact_offsets (xops X)"
  shows "reaches X k C m lev (b - a) b \<tau> s"
  using assms
proof (induction arbitrary: s rule: seg.induct)
  case (s_nil a \<sigma>)
  then show ?case by (intro reaches_refl)
next
  case (s_instr a \<sigma> b \<tau>)
  then obtain c where "fetch_op C (vpc s) = Inr c" "c \<noteq> 0" "goes X C m k b \<tau> (vm_step X k C lev c s)"
    using instr_sound [of C s \<sigma> b \<tau> X m k lev] by auto
  from reaches_step [OF this] instr_forward [OF s_instr.hyps(1)] show ?case
    by (elim reaches_mono) simp
next
  case (s_seq a \<sigma> b \<tau> c \<upsilon>)
  have "a \<le> b" "b \<le> c" using s_seq.hyps seg_forward by blast+
  then show ?case
    by (intro reaches_trans [OF s_seq.IH(1) [OF s_seq.prems(1-3)] s_seq.IH(2)]) (use s_seq.prems in auto)
next
  case (s_skip a j p b \<sigma>)
  have le: "Suc a \<le> p" "p + 2 \<le> b"
    using s_skip.hyps round_up_ge [of 2 "Suc a"] seg_forward by (simp, blast)
  have "(j \<noteq> A_JMP \<and> reaches X k C m lev 1 (p + 2) \<sigma> s) \<or> reaches X k C m lev 1 b \<sigma> s"
    by (rule reaches_jump) (use s_skip in auto)
  then show ?case
  proof (elim disjE conjE)
    assume r: "reaches X k C m lev 1 (p + 2) \<sigma> s"
    show ?thesis
      by (rule reaches_trans [OF r s_skip.IH [OF _ _ s_skip.prems(3)]]) (use le in auto)
  next
    assume "reaches X k C m lev 1 b \<sigma> s"
    then show ?thesis by (rule reaches_mono) (use le in simp)
  qed
next
  case (s_cond a p q \<sigma> e \<tau> b)
  have le: "Suc a \<le> p" "p + 2 \<le> e" "Suc e \<le> q" "q + 2 \<le> b"
    using s_cond.hyps round_up_ge [of 2 "Suc a"] round_up_ge [of 2 "Suc e"] seg_forward
    by (simp, blast, simp, blast)
  have "(A_JMPZ \<noteq> A_JMP \<and> reaches X k C m lev 1 (p + 2) \<sigma> s) \<or> reaches X k C m lev 1 (q + 2) \<sigma> s"
    by (rule reaches_jump) (use s_cond le in auto)
  then show ?case
  proof (elim disjE conjE)
    assume r: "reaches X k C m lev 1 (p + 2) \<sigma> s"
    have then_: "reaches X k C m lev (1 + (e - (p + 2))) e \<tau> s"
      by (rule reaches_trans [OF r s_cond.IH(1) [OF _ _ s_cond.prems(3)]]) auto
    show ?thesis
    proof (rule reaches_trans [OF then_])
      fix s' :: "('f, 'v, 's) vm" assume s': "vpc s' = e" "fits (xops X) C \<tau> s'"
      have "(A_JMP \<noteq> A_JMP \<and> reaches X k C m lev 1 (q + 2) \<tau> s') \<or> reaches X k C m lev 1 b \<tau> s'"
        by (rule reaches_jump) (use s_cond s' in auto)
      then show "reaches X k C m lev 1 b \<tau> s'" by simp
    qed (use le in auto)
  next
    assume r: "reaches X k C m lev 1 (q + 2) \<sigma> s"
    show ?thesis
      by (rule reaches_trans [OF r s_cond.IH(2) [OF _ _ s_cond.prems(3)]]) (use le in auto)
  qed
qed

text \<open>From iterations to the loop with fuel.\<close>

lemma vm_run_iter:
  "vm_iter n X k C lev s = Inr s' \<Longrightarrow> vm_run (n + j) X k C lev s = vm_run j X k C lev s'"
  "vm_iter n X k C lev s = Inl e \<Longrightarrow> e \<noteq> BadFetch \<Longrightarrow> vm_run (n + j) X k C lev s = Some (Inl e)"
proof (induction n arbitrary: s)
  case (Suc n)
  { case 1
    then show ?case
      using Suc.IH(1) by (auto simp: vbind_def split: sum.splits if_splits)
  next
    case 2
    then show ?case
      using Suc.IH(2) by (auto simp: vbind_def split: sum.splits if_splits)
  }
qed simp_all

lemma reaches_run:
  assumes "reaches X k C m lev n b \<tau> s" "C b = Some (COp 0)" "n < fuel"
  shows "\<exists>r. vm_run fuel X k C lev s = Some r \<and>
    (case r of Inl e \<Rightarrow> tame C m k e | Inr s' \<Rightarrow> vpc s' = b \<and> fits (xops X) C \<tau> s')"
proof -
  obtain j where j: "j \<le> n" "goes X C m k b \<tau> (vm_iter j X k C lev s)"
    using assms(1) by (auto simp: reaches_def)
  obtain i where i: "fuel = j + Suc i" using j(1) assms(3) less_imp_Suc_add [of j fuel] by auto
  show ?thesis
    using j(2) assms(2) vm_run_iter [of j X k C lev s _ "Suc i", folded i]
    by (cases "vm_iter j X k C lev s") (auto simp: tame_def fetch_op_def)
qed

end
