(* ===== verification/ArithEmit.thy ===== *)
theory ArithEmit
  imports ArithVerify
begin

text \<open>
  What the writing functions of the compiler lay out, as typed code: \<open>grow v \<sigma> v' \<tau>\<close> says that
  between the compiler states \<open>v\<close> and \<open>v'\<close> code from \<open>\<sigma>\<close> to \<open>\<tau>\<close> was added, and that the stack
  size kept in \<open>staksize\<close> and \<open>stakmaxsize\<close> bounds it unless it contains a plain assignment.
\<close>

section \<open>Added code\<close>

abbreviation (input) top :: "('f, 'v, 'm) vars \<Rightarrow> nat" where "top v \<equiv> tell (stk v)"
abbreviation (input) code :: "('f, 'v, 'm) vars \<Rightarrow> ('f, 'v, 'm) code" where "code v \<equiv> items (stk v)"

definition ext :: "('f, 'v, 'm) vars \<Rightarrow> ('f, 'v, 'm) vars \<Rightarrow> bool" where
  "ext v v' \<longleftrightarrow> top v \<le> top v' \<and> (\<forall>i < top v. code v' i = code v i)"

definition no_store :: "('f, 'v, 'm) vars \<Rightarrow> bool" where
  "no_store v \<longleftrightarrow> (\<forall>i < top v. code v i \<noteq> Some (COp A_STORE))"

text \<open>The size never passes its maximum.\<close>

definition sized :: "('f, 'v, 'm) vars \<Rightarrow> bool" where
  "sized v \<longleftrightarrow> staksize v \<le> stakmaxsize v"

definition grow :: "('f, 'v, 'm) vars \<Rightarrow> slots \<Rightarrow> ('f, 'v, 'm) vars \<Rightarrow> slots \<Rightarrow> bool" where
  "grow v \<sigma> v' \<tau> \<longleftrightarrow> ext v v' \<and> stakmaxsize v \<le> stakmaxsize v' \<and> (sized v \<longrightarrow> sized v') \<and>
     (\<exists>m. seg (code v') m (top v) \<sigma> (top v') \<tau> \<and>
        (no_store v' \<and> int (length \<sigma>) \<le> staksize v \<longrightarrow>
           int (length \<tau>) \<le> staksize v' \<and> int m \<le> stakmaxsize v'))"

lemma ext_refl [simp]: "ext v v"
  by (simp add: ext_def)

lemma ext_trans: "ext u v \<Longrightarrow> ext v w \<Longrightarrow> ext u w"
  by (auto simp: ext_def)

lemma ext_same [simp]: "stk v' = stk v \<Longrightarrow> ext v v'"
  by (simp add: ext_def)

lemma ext_at: "ext v v' \<Longrightarrow> i < top v \<Longrightarrow> code v' i = code v i"
  by (simp add: ext_def)

lemma no_store_except:
  "(\<And>i. i < top w \<Longrightarrow> i \<noteq> p \<Longrightarrow> code z i = code w i) \<Longrightarrow> top w \<le> top z \<Longrightarrow>
   code w p \<noteq> Some (COp A_STORE) \<Longrightarrow> no_store z \<Longrightarrow> no_store w"
  unfolding no_store_def
proof (intro allI impI)
  fix i
  assume eq: "\<And>i. i < top w \<Longrightarrow> i \<noteq> p \<Longrightarrow> code z i = code w i" and le: "top w \<le> top z"
    and p: "code w p \<noteq> Some (COp A_STORE)" and z: "\<forall>i < top z. code z i \<noteq> Some (COp A_STORE)"
    and i: "i < top w"
  show "code w i \<noteq> Some (COp A_STORE)"
    using eq [OF i] z i le p by (cases "i = p") auto
qed

lemma no_store_ext: "ext v v' \<Longrightarrow> no_store v' \<Longrightarrow> no_store v"
  by (auto simp: ext_def no_store_def)

lemma growI:
  assumes "ext v v'" "stakmaxsize v \<le> stakmaxsize v'" "sized v \<Longrightarrow> sized v'" "seg (code v') m (top v) \<sigma> (top v') \<tau>"
    and "no_store v' \<Longrightarrow> int (length \<sigma>) \<le> staksize v \<Longrightarrow>
      int (length \<tau>) \<le> staksize v' \<and> int m \<le> stakmaxsize v'"
  shows "grow v \<sigma> v' \<tau>"
  using assms unfolding grow_def by blast

lemma grow_ext: "grow v \<sigma> v' \<tau> \<Longrightarrow> ext v v'"
  by (simp add: grow_def)

lemma grow_trans:
  assumes "grow u \<sigma> v \<tau>" "grow v \<tau> w \<upsilon>"
  shows "grow u \<sigma> w \<upsilon>"
proof -
  obtain m where m: "seg (code v) m (top u) \<sigma> (top v) \<tau>"
    "no_store v \<and> int (length \<sigma>) \<le> staksize u \<longrightarrow> int (length \<tau>) \<le> staksize v \<and> int m \<le> stakmaxsize v"
    using assms(1) by (auto simp: grow_def)
  obtain n where n: "seg (code w) n (top v) \<tau> (top w) \<upsilon>"
    "no_store w \<and> int (length \<tau>) \<le> staksize v \<longrightarrow> int (length \<upsilon>) \<le> staksize w \<and> int n \<le> stakmaxsize w"
    using assms(2) by (auto simp: grow_def)
  have e: "ext u v" "ext v w" "stakmaxsize u \<le> stakmaxsize v" "stakmaxsize v \<le> stakmaxsize w"
    using assms by (auto simp: grow_def)
  have "seg (code w) m (top u) \<sigma> (top v) \<tau>"
    by (rule seg_frame [OF m(1)]) (use e(2) in \<open>auto simp: ext_def\<close>)
  then have seg: "seg (code w) (max m n) (top u) \<sigma> (top w) \<upsilon>"
    by (rule seg.s_seq [OF seg_mono [OF _ max.cobounded1] seg_mono [OF n(1) max.cobounded2]])
  have bound: "int (length \<upsilon>) \<le> staksize w \<and> int (max m n) \<le> stakmaxsize w"
    if "no_store w" "int (length \<sigma>) \<le> staksize u"
  proof -
    have "int (length \<tau>) \<le> staksize v" "int m \<le> stakmaxsize v"
      using m(2) that no_store_ext [OF e(2)] by auto
    with n(2) that(1) e(4) show ?thesis by (simp add: max_def)
  qed
  have size: "sized u \<Longrightarrow> sized w"
    using assms by (simp add: grow_def)
  show ?thesis
    by (rule growI [OF ext_trans [OF e(1,2)] order_trans [OF e(3,4)] size seg bound])
qed

lemma grow_same: "stk v' = stk v \<Longrightarrow> staksize v' = staksize v \<Longrightarrow> stakmaxsize v' = stakmaxsize v \<Longrightarrow>
   grow v' \<sigma> w \<tau> = grow v \<sigma> w \<tau> \<and> grow w \<tau> v' \<sigma> = grow w \<tau> v \<sigma>"
  by (simp add: grow_def ext_def no_store_def sized_def)

lemma grow_refl: "sized v \<Longrightarrow> grow v \<sigma> v \<sigma>"
  by (rule growI [where m = 0]) (auto intro: seg.s_nil simp: sized_def)

section \<open>Layout\<close>

lemma round_up_1 [simp]: "round_up x (Suc 0) = x"
  by (simp add: round_up_def)

lemma round_up_id: "k dvd x \<Longrightarrow> 0 < k \<Longrightarrow> round_up x k = x"
proof -
  assume "k dvd x" "0 < k"
  then obtain a where x: "x = a * k" by (metis dvd_def mult.commute)
  have "x + k - 1 = (k - 1) + a * k" using x \<open>0 < k\<close> by simp
  moreover have "((k - 1) + a * k) div k = a + (k - 1) div k" using \<open>0 < k\<close> by (intro div_mult_self1) simp
  ultimately have "(x + k - 1) div k = a" using \<open>0 < k\<close> by simp
  then show ?thesis by (simp add: round_up_def x)
qed

lemma round_up_dvd: "k dvd round_up x k"
  by (simp add: round_up_def)

lemma round_up_after [simp]: "round_up (round_up x 8 + 8) 2 = round_up x 8 + 8"
proof (rule round_up_id)
  have "(8 :: nat) dvd round_up x 8 + 8" by (simp add: round_up_dvd)
  then show "(2 :: nat) dvd round_up x 8 + 8" by (rule dvd_trans [rotated]) simp
qed simp

lemma put_simps [simp]:
  "top (putop b v) = Suc (top v)"
  "code (putop b v) = (code v)(top v := Some (COp b))"
  "top (putcell c v) = round_up (top v) (csize c) + csize c"
  "code (putcell c v) = (code v)(round_up (top v) (csize c) := Some c)"
  "staksize (putop b v) = staksize v" "stakmaxsize (putop b v) = stakmaxsize v"
  "staksize (putcell c v) = staksize v" "stakmaxsize (putcell c v) = stakmaxsize v"
  "stk (stak_up v) = stk v" "stk (stak_down v) = stk v"
  "staksize (stak_up v) = staksize v + 1" "staksize (stak_down v) = staksize v - 1"
  "stakmaxsize (stak_down v) = stakmaxsize v"
  "stakmaxsize (stak_up v) = max (stakmaxsize v) (staksize v + 1)"
  by (auto simp: putop_def putcell_def stkpush_def Let_def stak_up_def stak_down_def)

text \<open>The other fields are not touched.\<close>

lemma put_fields [simp]:
  "nextchr (putop b v) = nextchr v" "nextchr (putcell c v) = nextchr v"
  "nextchr (stak_up v) = nextchr v" "nextchr (stak_down v) = nextchr v"
  "infun (putop b v) = infun v" "infun (putcell c v) = infun v"
  "infun (stak_up v) = infun v" "infun (stak_down v) = infun v"
  by (simp_all add: putop_def putcell_def stak_up_def stak_down_def)

lemma less_round_up: "0 < k \<Longrightarrow> i < x \<Longrightarrow> i \<noteq> round_up x k \<and> i < round_up x k + j"
  using round_up_ge [of k x] by linarith

section \<open>Instructions\<close>

text \<open>An instruction that changes the stack by one entry at most, with the size kept with it.\<close>

lemma grow_op:
  assumes "instr (code v') (top v) \<sigma> (top v') \<tau>" "ext v v'" "stakmaxsize v \<le> stakmaxsize v'"
    "sized v \<Longrightarrow> sized v'"
    and "no_store v' \<Longrightarrow> int (length \<sigma>) \<le> staksize v \<Longrightarrow>
      int (length \<tau>) \<le> staksize v' \<and> int (length \<tau>) \<le> stakmaxsize v'"
  shows "grow v \<sigma> v' \<tau>"
  by (rule growI [OF assms(2-4), of "length \<tau>"]) (use assms in \<open>auto intro: seg.s_instr\<close>)

lemma grow_putop:
  assumes "\<And>C :: ('f, 'v, 'm) code. C (top v) = Some (COp b) \<Longrightarrow> instr C (top v) \<sigma> (Suc (top v)) \<tau>"
    and "length \<tau> \<le> length \<sigma>" "sized (v :: ('f, 'v, 'm) vars)"
  shows "grow v \<sigma> (putop b v) \<tau>" and "Suc (length \<tau>) \<le> length \<sigma> \<Longrightarrow> grow v \<sigma> (stak_down (putop b v)) \<tau>"
  by (rule grow_op; use assms in \<open>auto simp: ext_def sized_def\<close>)+

lemma grow_unary:
  "b \<in> unary_codes \<Longrightarrow> sized v \<Longrightarrow> grow v (None # \<sigma>) (putop b v) (None # \<sigma>)"
  by (rule grow_putop(1)) (blast intro: instr.i_unary, auto)

lemma grow_binary:
  "b \<in> binary_codes \<Longrightarrow> sized v \<Longrightarrow> grow v (None # None # \<sigma>) (stak_down (putop b v)) (None # \<sigma>)"
  by (rule grow_putop(2)) (blast intro: instr.i_binary, auto)

lemma grow_pop: "sized v \<Longrightarrow> grow v (None # \<sigma>) (stak_down (putop A_POP v)) \<sigma>"
  by (rule grow_putop(2)) (blast intro: instr.i_pop, auto)

lemma grow_enum: "sized v \<Longrightarrow> grow v \<sigma> (putop A_ENUM v) \<sigma>"
  by (rule grow_putop(1)) (blast intro: instr.i_enum, auto)

lemma after_round_up [simp]:
  "0 < k \<Longrightarrow> x \<noteq> round_up (Suc x) k" "0 < k \<Longrightarrow> x \<noteq> round_up (Suc x) k + j"
  "0 < k \<Longrightarrow> x \<noteq> j + round_up (Suc x) k" "0 < k \<Longrightarrow> x < round_up (Suc x) k + j"
  "0 < k \<Longrightarrow> x < j + round_up (Suc x) k" "0 < k \<Longrightarrow> x \<le> round_up (Suc x) k"
  "0 < k \<Longrightarrow> x \<le> j + round_up (Suc x) k" "0 < k \<Longrightarrow> \<not> round_up (Suc x) k < x"
  "0 < k \<Longrightarrow> \<not> Suc (round_up (Suc x) k) < x" "0 < k \<Longrightarrow> \<not> Suc (Suc (round_up (Suc x) k)) < x"
  "0 < k \<Longrightarrow> x \<noteq> Suc (round_up (Suc x) k)" "0 < k \<Longrightarrow> x \<noteq> Suc (Suc (round_up (Suc x) k))"
  "0 < k \<Longrightarrow> \<not> round_up (Suc x) k + j < x" "0 < k \<Longrightarrow> \<not> j + round_up (Suc x) k < x"
  using round_up_ge [of k "Suc x"] by auto

lemma grow_number: "grow v \<sigma> (putop t (putcell (CNum d) (stak_up (putop A_PUSHN v)))) (None # \<sigma>)"
proof (rule grow_op)
  let ?v = "putop t (putcell (CNum d) (stak_up (putop A_PUSHN v)))"
  have top: "top ?v = round_up (Suc (top v)) 16 + 17" by simp
  show "instr (code ?v) (top v) \<sigma> (top ?v) (None # \<sigma>)"
    unfolding top by (rule instr.i_pushn [where d = d and t = t]) simp_all
qed (auto simp: ext_def less_round_up sized_def)

lemma grow_putvar:
  assumes "b \<in> {A_PUSHV, A_ASSIGNOP1}"
  shows "grow v \<sigma> (putcell (CShort h) (putcell (CPtr q) (putop b (stak_up v)))) (None # \<sigma>)"
proof (rule grow_op)
  let ?v = "putcell (CShort h) (putcell (CPtr q) (putop b (stak_up v)))"
  have top: "top ?v = round_up (Suc (top v)) 8 + 10" by simp
  show "instr (code ?v) (top v) \<sigma> (top ?v) (None # \<sigma>)"
    unfolding top by (rule instr.i_pushv [where c = b and q = q and h = h]) (use assms in simp_all)
qed (use assms in \<open>auto simp: ext_def less_round_up sized_def\<close>)

lemma putvar_layout:
  fixes b :: nat and l :: "('v, 'm) lval" and v :: "('f, 'v, 'm) vars"
  defines "p \<equiv> round_up (Suc (top v)) 8"
  shows "top (putvar b l v) = p + 10" "code (putvar b l v) (top v) = Some (COp b)"
    "code (putvar b l v) p = Some (CPtr (lvalue l))"
    "code (putvar b l v) (p + 8) = Some (CShort (lflag l))" "ext v (putvar b l v)"
  by (auto simp: p_def putvar_def ext_def less_round_up)

lemma putvar_size [simp]:
  "staksize (putvar b l v) = staksize v" "stakmaxsize (putvar b l v) = stakmaxsize v"
  by (simp_all add: putvar_def)

lemma instr_putvar:
  assumes "b \<in> {A_STORE, A_ASSIGNOP}"
  shows "instr (code (putvar b l v)) (top v) (None # \<sigma>) (top (putvar b l v)) (None # \<sigma>)"
  unfolding putvar_layout(1)
  by (rule instr.i_store [OF putvar_layout(2) assms refl putvar_layout(3,4)])

lemma grow_assignop:
  assumes "sized v"
  shows "grow v (None # \<sigma>) (putvar A_ASSIGNOP l (stak_up v)) (None # \<sigma>)"
proof (rule grow_op)
  show "instr (code (putvar A_ASSIGNOP l (stak_up v))) (top v) (None # \<sigma>)
      (top (putvar A_ASSIGNOP l (stak_up v))) (None # \<sigma>)"
    using instr_putvar [of A_ASSIGNOP l "stak_up v"] by simp
  show "ext v (putvar A_ASSIGNOP l (stak_up v))"
    using putvar_layout(5) [of "stak_up v"] by (simp add: ext_def)
qed (use assms in \<open>auto simp: sized_def\<close>)

lemma grow_store: "grow v (None # \<sigma>) (stak_down (putvar A_STORE l v)) (None # \<sigma>)"
proof (rule grow_op)
  show "instr (code (stak_down (putvar A_STORE l v))) (top v) (None # \<sigma>)
      (top (stak_down (putvar A_STORE l v))) (None # \<sigma>)"
    using instr_putvar [of A_STORE l v] by simp
  show "ext v (stak_down (putvar A_STORE l v))"
    using putvar_layout(5) [of v] by (simp add: ext_def)
  assume "no_store (stak_down (putvar A_STORE l v))"
  moreover have "top v < top (stak_down (putvar A_STORE l v))"
    by (simp add: putvar_layout(1))
  ultimately have False
    using putvar_layout(2) [of A_STORE l v] unfolding no_store_def by auto
  then show "int (length (None # \<sigma>)) \<le> staksize (stak_down (putvar A_STORE l v)) \<and>
      int (length (None # \<sigma>)) \<le> stakmaxsize (stak_down (putvar A_STORE l v))" ..
qed (auto simp: sized_def)

lemma grow_pushf:
  assumes "ARITH_HDR \<le> top v" "top v + 8 < 2 ^ 15"
  shows "grow v \<sigma> (putop t (putcell (CFun f) (putop A_PUSHF (stak_up v))))
    (Some (round_up (Suc (top v)) 8) # \<sigma>)"
proof (rule grow_op)
  let ?v = "putop t (putcell (CFun f) (putop A_PUSHF (stak_up v)))"
  have top: "top ?v = round_up (Suc (top v)) 8 + 9" by simp
  have "ARITH_HDR \<le> round_up (Suc (top v)) 8" "round_up (Suc (top v)) 8 < 2 ^ 15"
    using assms round_up_ge [of 8 "Suc (top v)"] round_up_le [of 8 "Suc (top v)"] by simp_all
  then show "instr (code ?v) (top v) \<sigma> (top ?v) (Some (round_up (Suc (top v)) 8) # \<sigma>)"
    unfolding top by (intro instr.i_pushf [where f = f and t = t]) simp_all
qed (auto simp: ext_def less_round_up sized_def)

lemma grow_call:
  assumes "nargs_ok a" "n = nat \<bar>a\<bar> mod 8" "stk w = stk v" "staksize w = staksize v"
    and "stakmaxsize v \<le> stakmaxsize w" "sized v"
  shows "grow v (replicate n None @ Some p # \<sigma>) (putop (call_op a) w) (None # \<sigma>)"
proof (rule grow_op)
  show "instr (code (putop (call_op a) w)) (top v) (replicate n None @ Some p # \<sigma>)
      (top (putop (call_op a) w)) (None # \<sigma>)"
    using assms(3) instr.i_call [OF _ assms(1,2), of "code (putop (call_op a) w)" "top v" p \<sigma>] by simp
qed (use assms in \<open>auto simp: ext_def sized_def\<close>)

section \<open>Jumps\<close>

lemma stkpush_short: "stkpush (CShort h) (stk v) = (round_up (top v) 2, stk (putcell (CShort h) v))"
  by (simp add: stkpush_def putcell_def Let_def)

lemma stk_putcell [simp]: "v\<lparr>stk := stk (putcell c v)\<rparr> = putcell c v"
  by (simp add: putcell_def)

abbreviation (input) patched :: "nat \<Rightarrow> ('f, 'v, 'm) vars \<Rightarrow> ('f, 'v, 'm) vars" where
  "patched off v \<equiv> v\<lparr>stk := patch off (stk v)\<rparr>"

text \<open>\<open>&&\<close> and \<open>||\<close>: a jump over code that replaces the value.\<close>

lemma grow_skip:
  assumes j: "j \<in> {A_JMPZ, A_JMPNZ}" and v: "sized v"
    and g: "grow (putop A_POP (putcell (CShort 0) (putop j v))) \<sigma> w (None # \<sigma>)" and w: "top w < 2 ^ 15"
  shows "grow v (None # \<sigma>) (patched (round_up (Suc (top v)) 2) w) (None # \<sigma>)"
proof -
  let ?p = "round_up (Suc (top v)) 2" and ?u = "putop A_POP (putcell (CShort 0) (putop j v))"
  let ?w = "patched ?p w"
  have e: "ext ?u w" and max: "stakmaxsize v \<le> stakmaxsize w" and sz: "sized w"
    using g v by (auto simp: grow_def sized_def)
  have u: "top ?u = ?p + 3" "code ?u (top v) = Some (COp j)" "code ?u (?p + 2) = Some (COp A_POP)"
    by simp_all
  have le: "?p + 3 \<le> top w" using e u(1) by (simp add: ext_def)
  have c: "code ?w = (code w)(?p := Some (CShort (of_nat (top w))))" "top ?w = top w"
    by (simp_all add: patch_def)
  have old: "code ?w i = code ?u i" if "i < ?p + 3" "i \<noteq> ?p" for i
    using ext_at [OF e, of i] that unfolding c(1) u(1) by simp
  have "code ?u i = code v i" if "i < top v" for i
    using that round_up_ge [of 2 "Suc (top v)"] by (auto simp: less_round_up)
  moreover have "code ?w i = code ?u i" if "i < top v" for i
    by (rule old) (use that round_up_ge [of 2 "Suc (top v)"] in simp_all)
  moreover have "top v \<le> top ?w" using le round_up_ge [of 2 "Suc (top v)"] unfolding c(2) by simp
  ultimately have ex: "ext v ?w" unfolding ext_def by simp
  obtain m where m: "seg (code w) m (top ?u) \<sigma> (top w) (None # \<sigma>)"
    "no_store w \<and> int (length \<sigma>) \<le> staksize v \<longrightarrow>
      int (length (None # \<sigma>)) \<le> staksize w \<and> int m \<le> stakmaxsize w"
    using g by (auto simp: grow_def)
  have "seg (code ?w) (max m (Suc (length \<sigma>))) (top ?u) \<sigma> (top w) (None # \<sigma>)"
    by (rule seg_mono [OF seg_frame [OF m(1)] max.cobounded1]) (simp add: patch_def)
  then have inner: "seg (code ?w) (max m (Suc (length \<sigma>))) (Suc (?p + 2)) \<sigma> (top w) (None # \<sigma>)"
    unfolding u(1) by (simp add: eval_nat_numeral)
  have pop: "seg (code ?w) (max m (Suc (length \<sigma>))) (?p + 2) (None # \<sigma>) (Suc (?p + 2)) \<sigma>"
    by (rule seg.s_instr, rule instr.i_pop) (use old [of "?p + 2"] u(3) in simp_all)
  from seg.s_seq [OF pop inner]
  have "seg (code ?w) (max m (Suc (length \<sigma>))) (?p + 2) (None # \<sigma>) (top w) (None # \<sigma>)" .
  then have sg: "seg (code ?w) (max m (Suc (length \<sigma>))) (top v) (None # \<sigma>) (top ?w) (None # \<sigma>)"
    unfolding c(2)
    by (rule seg.s_skip [OF _ j refl _ w, rotated 2]) (use old [of "top v"] u(2) in \<open>simp_all add: patch_def\<close>)
  have "code w ?p \<noteq> Some (COp A_STORE)"
    using ext_at [OF e, of ?p] unfolding u(1) by simp
  moreover have "code ?w i = code w i" if "i \<noteq> ?p" for i
    using that by (simp only: c(1) fun_upd_apply if_False)
  ultimately have ns: "no_store ?w \<Longrightarrow> no_store w"
    using no_store_except [of w ?p ?w] c(2) by auto
  show ?thesis
  proof (rule growI [OF ex _ _ sg])
    assume "no_store ?w" "int (length (None # \<sigma>)) \<le> staksize v"
    then have "int (length (None # \<sigma>)) \<le> staksize w \<and> int m \<le> stakmaxsize w"
      using m(2) ns by simp
    then show "int (length (None # \<sigma>)) \<le> staksize ?w \<and> int (max m (Suc (length \<sigma>))) \<le> stakmaxsize ?w"
      using sz by (simp add: sized_def max_def)
  qed (use max sz in \<open>simp_all add: sized_def\<close>)
qed

text \<open>\<open>c?a:b\<close>: both branches replace the value.\<close>

lemma grow_cond:
  assumes v: "sized v"
    and g1: "grow (putop A_POP (putcell (CShort 0) (putop A_JMPZ v))) \<sigma> w (None # \<sigma>)"
    and u: "u = putop A_POP (patched (round_up (Suc (top v)) 2) (putcell (CShort 0) (putop A_JMP w)))"
    and g2: "grow u \<sigma> z (None # \<sigma>)" and z: "top z < 2 ^ 15"
  shows "grow v (None # \<sigma>) (patched (round_up (Suc (top w)) 2) z) (None # \<sigma>)"
proof -
  let ?p = "round_up (Suc (top v)) 2" and ?q = "round_up (Suc (top w)) 2"
  let ?t = "putop A_POP (putcell (CShort 0) (putop A_JMPZ v))" and ?z = "patched ?q z"
  have e1: "ext ?t w" and e2: "ext u z" using g1 g2 by (auto simp: grow_def)
  have max: "stakmaxsize v \<le> stakmaxsize w" "stakmaxsize w \<le> stakmaxsize z"
    using g1 g2 by (auto simp: grow_def u)
  have sz: "sized w" "sized z" using g1 g2 v by (auto simp: grow_def sized_def u)
  have t: "top ?t = ?p + 3" "code ?t (top v) = Some (COp A_JMPZ)" "code ?t (?p + 2) = Some (COp A_POP)"
    by simp_all
  have le1: "?p + 3 \<le> top w" using e1 t(1) by (simp add: ext_def)
  have u': "top u = ?q + 3" "code u (top w) = Some (COp A_JMP)" "code u (?q + 2) = Some (COp A_POP)"
    "code u ?p = Some (CShort (of_nat (?q + 2)))"
    using le1 round_up_ge [of 2 "Suc (top w)"] by (auto simp: u patch_def add.commute)
  have uold: "code u i = code w i" if "i < top w" "i \<noteq> ?p" for i
    using that by (auto simp: u patch_def less_round_up)
  have le2: "?q + 3 \<le> top z" "Suc (top w) \<le> ?q" using e2 u'(1) by (simp_all add: ext_def round_up_ge)
  have c: "code ?z = (code z)(?q := Some (CShort (of_nat (top z))))" "top ?z = top z"
    by (simp_all add: patch_def)
  have zu: "code ?z i = code u i" if "i < ?q + 3" "i \<noteq> ?q" for i
    using ext_at [OF e2, of i] that unfolding c(1) u'(1) by simp
  have zw: "code ?z i = code w i" if "i < top w" "i \<noteq> ?p" for i
    using that zu [of i] uold [of i] le2(2) by simp
  have zt: "code ?z i = code ?t i" if "i < ?p + 3" "i \<noteq> ?p" for i
    using that zw [of i] ext_at [OF e1, of i] le1 unfolding t(1) by simp
  have "code ?t i = code v i" if "i < top v" for i
    using that round_up_ge [of 2 "Suc (top v)"] by (auto simp: less_round_up)
  moreover have "code ?z i = code ?t i" if "i < top v" for i
    by (rule zt) (use that round_up_ge [of 2 "Suc (top v)"] in simp_all)
  moreover have "top v \<le> top ?z"
    using le1 le2 round_up_ge [of 2 "Suc (top v)"] unfolding c(2) by simp
  ultimately have ex: "ext v ?z" unfolding ext_def by simp
  obtain m where m: "seg (code w) m (top ?t) \<sigma> (top w) (None # \<sigma>)"
    "no_store w \<and> int (length \<sigma>) \<le> staksize v \<longrightarrow>
      int (length (None # \<sigma>)) \<le> staksize w \<and> int m \<le> stakmaxsize w"
    using g1 by (auto simp: grow_def)
  obtain n where n: "seg (code z) n (top u) \<sigma> (top z) (None # \<sigma>)"
    "no_store z \<and> int (length \<sigma>) \<le> staksize w \<longrightarrow>
      int (length (None # \<sigma>)) \<le> staksize z \<and> int n \<le> stakmaxsize z"
    using g2 by (auto simp: grow_def u)
  let ?m = "max (max m n) (Suc (length \<sigma>))"
  have pop: "seg (code ?z) ?m i (None # \<sigma>) (Suc i) \<sigma>" if "code ?z i = Some (COp A_POP)" for i
    by (rule seg.s_instr, rule instr.i_pop, rule that) simp
  have "seg (code ?z) m (top ?t) \<sigma> (top w) (None # \<sigma>)"
    by (rule seg_frame [OF m(1)]) (use zw t(1) in simp)
  from seg_mono [OF this, of ?m] have "seg (code ?z) ?m (Suc (?p + 2)) \<sigma> (top w) (None # \<sigma>)"
    unfolding t(1) by (simp add: eval_nat_numeral)
  from seg.s_seq [OF pop this] have then_: "seg (code ?z) ?m (?p + 2) (None # \<sigma>) (top w) (None # \<sigma>)"
    using zt [of "?p + 2"] t(3) by simp
  have "seg (code ?z) n (top u) \<sigma> (top z) (None # \<sigma>)"
    by (rule seg_frame [OF n(1)]) (use u'(1) in \<open>simp add: patch_def\<close>)
  from seg_mono [OF this, of ?m] have "seg (code ?z) ?m (Suc (?q + 2)) \<sigma> (top z) (None # \<sigma>)"
    unfolding u'(1) by (simp add: eval_nat_numeral)
  from seg.s_seq [OF pop this] have else_: "seg (code ?z) ?m (?q + 2) (None # \<sigma>) (top z) (None # \<sigma>)"
    using zu [of "?q + 2"] u'(3) by simp
  have ops: "code ?z (top v) = Some (COp A_JMPZ)" "code ?z ?p = Some (CShort (of_nat (?q + 2)))"
    "code ?z (top w) = Some (COp A_JMP)" "code ?z ?q = Some (CShort (of_nat (top z)))"
    using zt [of "top v"] t(2) zu [of ?p] u'(4) zu [of "top w"] u'(2) le1 le2(2)
    by (simp_all, simp add: patch_def)
  have sg: "seg (code ?z) ?m (top v) (None # \<sigma>) (top ?z) (None # \<sigma>)"
    unfolding c(2)
    by (rule seg.s_cond [OF ops(1) refl ops(2) then_ ops(3) refl ops(4) z else_])
  have "code z ?q \<noteq> Some (COp A_STORE)" "code w ?p \<noteq> Some (COp A_STORE)"
    using ext_at [OF e2, of ?q] ext_at [OF e1, of ?p] le1 le2(1) unfolding u'(1) t(1)
    by (auto simp: u patch_def)
  moreover have "code ?z i = code z i" if "i \<noteq> ?q" for i using that by (simp only: c(1) fun_upd_apply if_False)
  ultimately have ns: "no_store ?z \<Longrightarrow> no_store z" "no_store z \<Longrightarrow> no_store w"
    using no_store_except [of z ?q ?z] no_store_except [of w ?p z] zw le2 c(2) by auto
  show ?thesis
  proof (rule growI [OF ex _ _ sg])
    assume "no_store ?z" "int (length (None # \<sigma>)) \<le> staksize v"
    then have "int (length (None # \<sigma>)) \<le> staksize z \<and> int m \<le> stakmaxsize z \<and> int n \<le> stakmaxsize z"
      using m(2) n(2) ns max by force
    then show "int (length (None # \<sigma>)) \<le> staksize ?z \<and> int ?m \<le> stakmaxsize ?z"
      using sz by (simp add: sized_def max_def)
  qed (use max sz in \<open>simp_all add: sized_def\<close>)
qed

end
