(* ===== verification/ArithSafe.thy ===== *)
theory ArithSafe
  imports ArithEmit
begin

text \<open>
  The compiler writes typed code: by following \<open>expr\<close> with the stack it has built so far, under
  stated conditions on the text and on the conversion routine (\<open>text_ok\<close>, \<open>convert_ok\<close>).
\<close>

section \<open>Tokens\<close>

lemma blanks_drop: "blanks (drop (blanks s) s) = 0"
  by (induction s) auto

lemma chr_at_end: "chr_at s i \<noteq> 0 \<Longrightarrow> i < length s"
  by (simp add: chr_at_def split: if_splits)

lemma blanks_chr: "i \<le> length s \<Longrightarrow> i + blanks (drop i s) \<le> length s"
  using blanks_le [of "drop i s"] by simp

lemma getop_cases: "getop c \<in> {0..33} \<union> {A_DOT, A_LIT}"
proof -
  have "\<forall>n \<in> set [0..<64]. strval_states ! n \<in> {0..33} \<union> {A_DOT, A_LIT}"
    by code_simp
  then show ?thesis by (auto simp: getop_def)
qed

lemma getop_nonzero: "getop c \<noteq> A_EOF \<Longrightarrow> c \<noteq> 0"
  by auto

text \<open>The facts about \<open>tok_at\<close>, for a class that \<open>getop\<close> returns and that is not skipped.\<close>

lemma tok_at_facts:
  assumes "tok_at k op c peek = (t, n)" "op \<in> {1..33} \<union> {A_DOT, A_LIT}"
  shows "t \<in> {1..33} \<union> {A_LIT}" and "n \<le> 2"
    and "n = 0 \<longleftrightarrow> t \<in> {A_EOF, A_DIG, A_REG, A_LIT}"
    and "n = 2 \<Longrightarrow> peek = c \<or> peek = 58 \<or> peek = 61"
    and "t \<in> {A_QUEST, A_QCOLON} \<Longrightarrow> op \<in> {A_QUEST, A_QCOLON}"
    and "t = A_EOF \<longleftrightarrow> op = A_EOF"
    and "t = A_ASSIGN \<Longrightarrow> (op = A_COLON \<and> peek = 61 \<and> n = 2) \<or> (op = A_ASSIGN \<and> peek \<noteq> c \<and> n = 1)"
  using assms unfolding tok_at_def by (auto split: if_splits)

text \<open>Where a token starts and ends, and that it is read again from its start.\<close>

lemma gettok_at:
  assumes "gettok k s i = (op, e, q)"
  shows "e = i + blanks (drop i s)" and "q = e + snd (tok_at k (getop (chr_at s e)) (chr_at s e) (chr_at s (e + 1)))"
    and "op = fst (tok_at k (getop (chr_at s e)) (chr_at s e) (chr_at s (e + 1)))"
    and "getop (chr_at s e) \<in> {1..33} \<union> {A_DOT, A_LIT}"
proof -
  show e: "e = i + blanks (drop i s)"
    and "q = e + snd (tok_at k (getop (chr_at s e)) (chr_at s e) (chr_at s (e + 1)))"
    and "op = fst (tok_at k (getop (chr_at s e)) (chr_at s e) (chr_at s (e + 1)))"
    using assms by (auto simp: gettok_def Let_def split: prod.splits)
  show "getop (chr_at s e) \<in> {1..33} \<union> {A_DOT, A_LIT}"
    using getop_cases [of "chr_at s e"] getop_after_blanks [of s i] e by (auto simp: Suc_le_eq)
qed

lemma gettok_tok:
  assumes "gettok k s i = (op, e, q)"
  obtains n where "tok_at k (getop (chr_at s e)) (chr_at s e) (chr_at s (e + 1)) = (op, n)" "q = e + n"
  using gettok_at(2,3) [OF assms] by (metis prod.collapse)

lemma gettok_bounds:
  assumes "gettok k s i = (op, e, q)"
  shows "i \<le> e" and "e \<le> q" and "i \<le> length s \<Longrightarrow> e \<le> length s \<and> q \<le> length s"
    and "op \<notin> {A_EOF, A_DIG, A_REG, A_LIT} \<Longrightarrow> e < q"
    and "op \<in> {A_DIG, A_REG, A_LIT} \<Longrightarrow> q = e"
    and "op \<in> {1..33} \<union> {A_LIT}"
proof -
  note g = gettok_at [OF assms]
  obtain n where n: "tok_at k (getop (chr_at s e)) (chr_at s e) (chr_at s (e + 1)) = (op, n)" "q = e + n"
    using gettok_tok [OF assms] .
  note t = tok_at_facts [OF n(1) g(4)]
  show "i \<le> e" "e \<le> q" using g(1) n(2) by simp_all
  show "op \<notin> {A_EOF, A_DIG, A_REG, A_LIT} \<Longrightarrow> e < q" "op \<in> {A_DIG, A_REG, A_LIT} \<Longrightarrow> q = e"
    using t(3) n(2) by auto
  show "op \<in> {1..33} \<union> {A_LIT}" by (rule t(1))
  assume i: "i \<le> length s"
  have e: "e \<le> length s" using blanks_chr [OF i] g(1) by simp
  have c: "e < length s" if "n \<noteq> 0"
    using that t(3,6) getop_nonzero chr_at_end by blast
  have "e + 1 < length s" if "n = 2"
  proof (rule chr_at_end)
    show "chr_at s (e + 1) \<noteq> 0"
      using t(4) [OF that] t(3,6) that getop_nonzero [of "chr_at s e"] by auto
  qed
  then show "e \<le> length s \<and> q \<le> length s"
    using e c t(2) n(2) by (cases "n = 2"; cases "n = 0") auto
qed

lemma gettok_again: "gettok k s i = (op, e, q) \<Longrightarrow> gettok k s e = (op, e, q)"
proof -
  assume a: "gettok k s i = (op, e, q)"
  note g = gettok_at [OF a]
  have "blanks (drop e s) = 0" using blanks_drop [of "drop i s"] g(1) by (simp add: add.commute)
  then show ?thesis using g(2,3) by (simp add: gettok_def Let_def split_beta)
qed

lemma unat_byte: "n < 256 \<Longrightarrow> unat (c :: byte) = n \<longleftrightarrow> c = of_nat n"
  by (simp add: word_unat_eq_iff unsigned_of_nat take_bit_nat_eq_self)

lemma getop_chars:
  "getop c = A_ASSIGN \<longleftrightarrow> c = 61" "getop c = A_COLON \<longleftrightarrow> c = 58"
  "getop c \<in> {A_QUEST, A_QCOLON} \<longleftrightarrow> c = 63"
proof -
  have "\<forall>n \<in> set [0..<64]. (strval_states ! n = A_ASSIGN \<longleftrightarrow> n = 61) \<and> (strval_states ! n = A_COLON \<longleftrightarrow> n = 58)
      \<and> (strval_states ! n \<in> {A_QUEST, A_QCOLON} \<longleftrightarrow> n = 63)"
    by code_simp
  then have "(getop c = A_ASSIGN \<longleftrightarrow> unat c = 61) \<and> (getop c = A_COLON \<longleftrightarrow> unat c = 58) \<and>
      (getop c \<in> {A_QUEST, A_QCOLON} \<longleftrightarrow> unat c = 63)"
    unfolding getop_def by (cases "64 \<le> unat c") auto
  then show "getop c = A_ASSIGN \<longleftrightarrow> c = 61" "getop c = A_COLON \<longleftrightarrow> c = 58"
    "getop c \<in> {A_QUEST, A_QCOLON} \<longleftrightarrow> c = 63"
    by (simp_all add: unat_byte)
qed

lemma gettok_quest:
  assumes "gettok k s i = (op, e, q)" "op \<in> {A_QUEST, A_QCOLON}"
  shows "63 \<in> set s"
proof -
  note g = gettok_at [OF assms(1)]
  obtain n where n: "tok_at k (getop (chr_at s e)) (chr_at s e) (chr_at s (e + 1)) = (op, n)"
    using gettok_tok [OF assms(1)] .
  have "getop (chr_at s e) \<in> {A_QUEST, A_QCOLON}"
    by (rule tok_at_facts(5) [OF n g(4) assms(2)])
  then have c: "chr_at s e = 63" by (simp only: getop_chars)
  then have "e < length s" using chr_at_end [of s e] by simp
  with c have "s ! e = 63" by (simp add: chr_at_def)
  with \<open>e < length s\<close> show ?thesis using nth_mem by metis
qed

lemma chr_at_drop: "chr_at s i = c \<Longrightarrow> c \<noteq> 0 \<Longrightarrow> drop i s = c # drop (Suc i) s"
proof -
  assume c: "chr_at s i = c" "c \<noteq> 0"
  then have i: "i < length s" using chr_at_end [of s i] by simp
  then have "s ! i = c" using c by (simp add: chr_at_def)
  with Cons_nth_drop_Suc [OF i] show ?thesis by (simp only:)
qed

lemma gettok_lpar:
  assumes "chr_at s i = 40"
  shows "gettok k s i = (A_LPAR, i, i + 1)"
proof -
  have g: "getop 40 = A_LPAR" by (simp add: getop_def strval_states_def)
  have "drop i s = 40 # drop (Suc i) s" by (rule chr_at_drop [OF assms]) simp
  then have "blanks (drop i s) = 0" by (simp add: g)
  then show ?thesis by (simp add: gettok_def Let_def assms g tok_at_def)
qed

text \<open>An assignment token is followed by an equals sign only when it was \<open>:=\<close>.\<close>

lemma gettok_assign:
  assumes "gettok k s i = (A_ASSIGN, e, q)" "chr_at s q = 61"
  shows "chr_at s e = 58 \<and> chr_at s (e + 1) = 61 \<and> chr_at s (e + 2) = 61"
proof -
  note g = gettok_at [OF assms(1)]
  obtain n where n: "tok_at k (getop (chr_at s e)) (chr_at s e) (chr_at s (e + 1)) = (A_ASSIGN, n)" "q = e + n"
    using gettok_tok [OF assms(1)] .
  show ?thesis
    using tok_at_facts(7) [OF n(1) g(4) refl] n(2) assms(2) getop_chars by auto
qed

section \<open>Levels\<close>

abbreviation (input) binary_ops :: "nat set" where
  "binary_ops \<equiv> {A_AND, A_OR, A_XOR, A_LSHIFT, A_RSHIFT, A_MOD, A_PLUS, A_MINUS, A_TIMES, A_DIV,
     A_EQ, A_NEQ, A_LT, A_LE, A_GT, A_GE, A_POW}"

abbreviation (input) assign_ops :: "nat set" where
  "assign_ops \<equiv> {A_AND, A_OR, A_XOR, A_LSHIFT, A_RSHIFT, A_MOD, A_PLUS, A_MINUS, A_TIMES, A_DIV}"

definition op_c :: "nat \<Rightarrow> nat" where
  "op_c op = (let p = strval_precedence ! op in
     2 * (if level p = MAXPREC \<or> op = A_POW then level p + 1 else level p))"

definition op_right :: "nat \<Rightarrow> nat \<Rightarrow> nat" where
  "op_right op c = (if rassoc (strval_precedence ! op) then c - 1 else c)"

lemma op_table:
  "\<forall>op \<in> set [0..<32].
     op_c op \<le> 32 \<and>
     (op \<in> binary_ops \<longrightarrow> \<not> seqpoint (strval_precedence ! op) \<and> 14 \<le> op_right op (op_c op) \<and>
        op_right op (op_c op) < 31) \<and>
     (\<not> noassign (strval_precedence ! op) \<longrightarrow> op \<in> assign_ops \<union> {A_ASSIGN}) \<and>
     (op \<in> assign_ops \<longrightarrow> \<not> rassoc (strval_precedence ! op)) \<and>
     (op_c op \<le> 2 \<longrightarrow> op \<in> {A_EOF, A_RPAR, A_COMMA, A_COLON}) \<and>
     (seqpoint (strval_precedence ! op) \<longleftrightarrow>
        op \<in> {A_ANDAND, A_LPAR, A_RPAR, A_PLUSPLUS, A_COMMA, A_MINUSMINUS, A_QCOLON, A_QUEST, A_OROR})"
  by code_simp

lemma op_values:
  "op_c A_EOF = 0" "op_c A_COMMA = 2" "op_c A_RPAR = 2" "op_c A_COLON = 0" "op_c A_ASSIGN = 4"
  "op_c A_QUEST = 6" "op_c A_QCOLON = 6" "op_c A_OROR = 10" "op_c A_ANDAND = 12" "op_c A_LPAR = 32"
  "op_c A_PLUSPLUS = 32" "op_c A_MINUSMINUS = 32"
  "op_right A_COMMA c = c" "op_right A_ASSIGN c = c - 1" "op_right A_QCOLON c = c"
  "op_right A_OROR c = c" "op_right A_ANDAND c = c"
  by (simp_all add: op_c_def op_right_def strval_precedence_def)

section \<open>Conditions\<close>

text \<open>
  The text is at most 255 bytes long (the counts of parentheses and arguments are bytes, the jump
  targets shorts), has no \<open>:==\<close>, and does not use both functions and \<open>?\<close>.
\<close>

abbreviation (input) text_len :: "('f, 'v, 'm) penv \<Rightarrow> nat" where
  "text_len E \<equiv> length (ptext E)"

definition no_functions :: "('f, 'v, 'm) penv \<Rightarrow> bool" where
  "no_functions E \<longleftrightarrow> (\<forall>pos l. lfun l = None \<longrightarrow> lfun (fst (snd (pconvert E pos l))) = None)"

definition text_ok :: "('f, 'v, 'm) penv \<Rightarrow> bool" where
  "text_ok E \<longleftrightarrow> text_len E \<le> 255 \<and> (no_functions E \<or> 63 \<notin> set (ptext E)) \<and>
     (\<forall>i. \<not> (chr_at (ptext E) i = 58 \<and> chr_at (ptext E) (i + 1) = 61 \<and> chr_at (ptext E) (i + 2) = 61))"

abbreviation (input) tok :: "('f, 'v, 'm) penv \<Rightarrow> nat \<Rightarrow> nat \<times> nat \<times> nat" where
  "tok E i \<equiv> gettok (pcomma E) (ptext E) i"

text \<open>
  The conversion routine, at a number: it returns no variable and no function.  At a name: either a
  variable, or a function with one to three arguments and then an opening parenthesis follows.
\<close>

definition convert_ok :: "('f, 'v, 'm) penv \<Rightarrow> bool" where
  "convert_ok E \<longleftrightarrow>
     (\<forall>pos l. pos \<le> text_len E \<and> lvalue l = None \<and> lfun l = None \<longrightarrow>
        (case pconvert E pos l of (q, l', d) \<Rightarrow>
           pos \<le> q \<and> q \<le> text_len E \<and>
           (q \<noteq> pos \<longrightarrow>
             (fst (tok E pos) = A_DIG \<longrightarrow> lvalue l' = None \<and> lfun l' = None) \<and>
             (fst (tok E pos) = A_REG \<longrightarrow>
                (lvalue l' \<noteq> None \<and> lfun l' = None) \<or>
                (lvalue l' = None \<and> lfun l' \<noteq> None \<and> nargs_ok (lnargs l') \<and> chr_at (ptext E) q = 40))))) \<and>
     (\<forall>pos. pos \<le> text_len E \<longrightarrow> pos \<le> fst (pchresc E pos) \<and> fst (pchresc E pos) \<le> text_len E)"

section \<open>What a call of \<open>expr\<close> adds\<close>

text \<open>The space used and the space the rest of the text can still take.\<close>

definition weight :: "('f, 'v, 'm) penv \<Rightarrow> ('f, 'v, 'm) vars \<Rightarrow> nat" where
  "weight E v = tell (stk v) + 64 * (text_len E - nextchr v)"

definition pre :: "('f, 'v, 'm) penv \<Rightarrow> ('f, 'v, 'm) vars \<Rightarrow> bool" where
  "pre E v \<longleftrightarrow> nextchr v \<le> text_len E \<and> unat (infun v) + (text_len E - nextchr v) \<le> 255 \<and>
     weight E v < 2 ^ 15 \<and> ARITH_HDR \<le> tell (stk v) \<and> sized v \<and> (63 \<in> set (ptext E) \<longrightarrow> infun v = 0)"

text \<open>\<open>n\<close> values more: one, or in a list of arguments one for each.\<close>

definition adds :: "('f, 'v, 'm) penv \<Rightarrow> nat \<Rightarrow> ('f, 'v, 'm) vars \<Rightarrow> slots \<Rightarrow> ('f, 'v, 'm) vars \<Rightarrow> nat \<Rightarrow> bool" where
  "adds E p v \<sigma> v' n \<longleftrightarrow>
     0 < n \<and> grow v \<sigma> v' (replicate n None @ \<sigma>) \<and> unat (infun v') + 1 = unat (infun v) + n \<and>
     (infun v = 0 \<or> 2 \<le> p \<longrightarrow> n = 1)"

definition post :: "('f, 'v, 'm) penv \<Rightarrow> nat \<Rightarrow> ('f, 'v, 'm) vars \<Rightarrow> slots \<Rightarrow> ('f, 'v, 'm) vars \<Rightarrow> bool" where
  "post E p v \<sigma> v' \<longleftrightarrow>
     nextchr v \<le> nextchr v' \<and> nextchr v' \<le> text_len E \<and>
     ((\<exists>n. adds E p v \<sigma> v' n \<and> unat (infun v') + (text_len E - nextchr v') \<le> 255 \<and>
           weight E v' \<le> weight E v)
      \<or> (p \<le> 2 \<and> fst (tok E (nextchr v')) = A_EOF \<and> (infun v = 0 \<longrightarrow> (\<exists>\<tau>. grow v \<sigma> v' \<tau>)))
      \<or> (4 \<le> p \<and> fst (tok E (nextchr v')) = A_ASSIGN))"

definition call_ok :: "('f, 'v, 'm) penv \<Rightarrow> (nat \<Rightarrow> ('f, 'v, 'm) vars \<Rightarrow> ('f, 'v, 'm) xres) \<Rightarrow> bool" where
  "call_ok E ex \<longleftrightarrow> (\<forall>p v \<sigma> v'. p \<le> 32 \<longrightarrow> pre E v \<longrightarrow> ex p v = Some (True, v') \<longrightarrow> post E p v \<sigma> v')"

section \<open>The states of the loop\<close>

definition same_code :: "('f, 'v, 'm) vars \<Rightarrow> ('f, 'v, 'm) vars \<Rightarrow> bool" where
  "same_code v v' \<longleftrightarrow> stk v' = stk v \<and> staksize v' = staksize v \<and> stakmaxsize v' = stakmaxsize v \<and>
     infun v' = infun v"

text \<open>
  Nothing read; a value on the stack; a variable not pushed yet; a function before its parenthesis;
  an assignment that cannot be (it ends in an error); the end of the text after a comma.
\<close>

definition st_start :: "('f, 'v, 'm) vars \<Rightarrow> ('v, 'm) loc \<Rightarrow> ('f, 'v, 'm) vars \<Rightarrow> bool" where
  "st_start v0 L v \<longleftrightarrow> wasop L \<noteq> 0 \<and> invalid L \<and> lvalue (lv L) = None \<and> lfun (lv L) = None \<and> same_code v0 v"

definition st_value :: "('f, 'v, 'm) penv \<Rightarrow> nat \<Rightarrow> ('f, 'v, 'm) vars \<Rightarrow> slots \<Rightarrow> ('v, 'm) loc \<Rightarrow>
    ('f, 'v, 'm) vars \<Rightarrow> bool" where
  "st_value E p v0 \<sigma> L v \<longleftrightarrow> wasop L = 0 \<and> \<not> invalid L \<and> lvalue (lv L) = None \<and> lfun (lv L) = None \<and>
     (\<exists>n. adds E p v0 \<sigma> v n \<and> unat (infun v) + (text_len E - nextchr v) \<le> 255 \<and> weight E v \<le> weight E v0)"

definition st_var :: "('f, 'v, 'm) vars \<Rightarrow> ('v, 'm) loc \<Rightarrow> ('f, 'v, 'm) vars \<Rightarrow> bool" where
  "st_var v0 L v \<longleftrightarrow> wasop L = 0 \<and> \<not> invalid L \<and> lvalue (lv L) \<noteq> None \<and> lfun (lv L) = None \<and>
     same_code v0 v \<and> nextchr v0 < nextchr v"

definition st_fun :: "('f, 'v, 'm) penv \<Rightarrow> ('f, 'v, 'm) vars \<Rightarrow> ('v, 'm) loc \<Rightarrow> ('f, 'v, 'm) vars \<Rightarrow> bool" where
  "st_fun E v0 L v \<longleftrightarrow> wasop L = 0 \<and> invalid L \<and> lvalue (lv L) = None \<and> lfun (lv L) \<noteq> None \<and>
     nargs_ok (lnargs (lv L)) \<and> chr_at (ptext E) (nextchr v) = 40 \<and> 63 \<notin> set (ptext E) \<and>
     same_code v0 v \<and> nextchr v0 < nextchr v"

definition st_junk :: "('f, 'v, 'm) penv \<Rightarrow> ('v, 'm) loc \<Rightarrow> ('f, 'v, 'm) vars \<Rightarrow> bool" where
  "st_junk E L v \<longleftrightarrow> wasop L = 0 \<and> lvalue (lv L) = None \<and> lfun (lv L) = None \<and>
     fst (tok E (nextchr v)) = A_ASSIGN"

definition st_eof :: "('f, 'v, 'm) penv \<Rightarrow> nat \<Rightarrow> ('f, 'v, 'm) vars \<Rightarrow> slots \<Rightarrow> ('v, 'm) loc \<Rightarrow>
    ('f, 'v, 'm) vars \<Rightarrow> bool" where
  "st_eof E p v0 \<sigma> L v \<longleftrightarrow> wasop L = 0 \<and> \<not> invalid L \<and> lvalue (lv L) = None \<and> lfun (lv L) = None \<and>
     p \<le> 1 \<and> fst (tok E (nextchr v)) = A_EOF \<and> (infun v0 = 0 \<longrightarrow> (\<exists>\<tau>. grow v0 \<sigma> v \<tau>))"

definition loop_inv :: "('f, 'v, 'm) penv \<Rightarrow> nat \<Rightarrow> ('f, 'v, 'm) vars \<Rightarrow> slots \<Rightarrow> ('v, 'm) loc \<Rightarrow>
    ('f, 'v, 'm) vars \<Rightarrow> bool" where
  "loop_inv E p v0 \<sigma> L v \<longleftrightarrow>
     (lprec L = p \<or> (p = 3 \<and> lprec L = 2)) \<and> nextchr v0 \<le> nextchr v \<and> nextchr v \<le> text_len E \<and>
     (st_start v0 L v \<or> st_value E p v0 \<sigma> L v \<or> st_var v0 L v \<or> st_fun E v0 L v \<or> st_junk E L v \<or>
      st_eof E p v0 \<sigma> L v)"

text \<open>What an iteration gives.\<close>

definition iter_ok :: "('f, 'v, 'm) penv \<Rightarrow> nat \<Rightarrow> ('f, 'v, 'm) vars \<Rightarrow> slots \<Rightarrow> ('f, 'v, 'm) iter \<Rightarrow> bool" where
  "iter_ok E p v0 \<sigma> it \<longleftrightarrow>
     (case it of Return r \<Rightarrow> (\<forall>v'. r = Some (True, v') \<longrightarrow> post E p v0 \<sigma> v')
      | Again L v \<Rightarrow> loop_inv E p v0 \<sigma> L v)"

lemma iter_ok_simps [simp]:
  "iter_ok E p v0 \<sigma> (Return r) = (\<forall>v'. r = Some (True, v') \<longrightarrow> post E p v0 \<sigma> v')"
  "iter_ok E p v0 \<sigma> (Again L v) = loop_inv E p v0 \<sigma> L v"
  by (simp_all add: iter_ok_def)

lemma xerr_not_ok [simp]: "xerr E e v \<noteq> Some (True, w)"
  by (simp add: xerr_def)

end
