(* ===== verification/ArithTyped.thy ===== *)
theory ArithTyped
  imports ArithSafe
begin

text \<open>
  The compiler writes typed code: an iteration of the loop of \<open>expr\<close> keeps its invariant, token by
  token, and so does \<open>expr\<close>.
\<close>

section \<open>States with a value\<close>

text \<open>The code between \<open>v0\<close> and \<open>v\<close> adds values, with \<open>k\<close> bytes of space to spare.\<close>

definition has_values :: "('f, 'v, 'm) penv \<Rightarrow> nat \<Rightarrow> ('f, 'v, 'm) vars \<Rightarrow> slots \<Rightarrow> ('f, 'v, 'm) vars \<Rightarrow> nat \<Rightarrow> bool" where
  "has_values E p v0 \<sigma> v k \<longleftrightarrow> (\<exists>n. adds E p v0 \<sigma> v n \<and> unat (infun v) + (text_len E - nextchr v) \<le> 255 \<and>
     weight E v + k \<le> weight E v0)"

lemma st_value_has:
  "st_value E p v0 \<sigma> L v \<longleftrightarrow>
    wasop L = 0 \<and> \<not> invalid L \<and> lvalue (lv L) = None \<and> lfun (lv L) = None \<and> has_values E p v0 \<sigma> v 0"
  by (simp add: st_value_def has_values_def)

lemma post_has:
  "has_values E p v0 \<sigma> v k \<Longrightarrow> nextchr v0 \<le> nextchr v \<Longrightarrow> nextchr v \<le> text_len E \<Longrightarrow> post E p v0 \<sigma> v"
  unfolding has_values_def post_def by (meson le_add1 order_trans)

lemma same_grow:
  "stk w = stk v \<Longrightarrow> staksize w = staksize v \<Longrightarrow> stakmaxsize w = stakmaxsize v \<Longrightarrow> grow u \<sigma> w \<tau> = grow u \<sigma> v \<tau>"
  "stk w = stk v \<Longrightarrow> staksize w = staksize v \<Longrightarrow> stakmaxsize w = stakmaxsize v \<Longrightarrow> grow w \<sigma> u \<tau> = grow v \<sigma> u \<tau>"
  using grow_same by blast+

text \<open>Another position in the text.\<close>

lemma has_move:
  assumes "has_values E p v0 \<sigma> v k" "stk w = stk v" "staksize w = staksize v" "stakmaxsize w = stakmaxsize v" "infun w = infun v"
    and "nextchr v \<le> nextchr w" "nextchr w \<le> text_len E" "j + 64 * nextchr v \<le> k + 64 * nextchr w"
  shows "has_values E p v0 \<sigma> w j"
proof -
  obtain n where n: "adds E p v0 \<sigma> v n" "unat (infun v) + (text_len E - nextchr v) \<le> 255" "weight E v + k \<le> weight E v0"
    using assms(1) by (auto simp: has_values_def)
  have "adds E p v0 \<sigma> w n" using n(1) same_grow(1) [OF assms(2-4)] assms(5) by (simp add: adds_def)
  moreover have "weight E w + j \<le> weight E v0" using n(3) assms(2,6-8) by (simp add: weight_def)
  ultimately show ?thesis using n(2) assms(5-7) by (auto simp: has_values_def)
qed

text \<open>Code that pushes a value, and code that replaces the value on top.\<close>

definition pushes :: "('f, 'v, 'm) penv \<Rightarrow> ('f, 'v, 'm) vars \<Rightarrow> ('f, 'v, 'm) vars \<Rightarrow> nat \<Rightarrow> bool" where
  "pushes E v w k \<longleftrightarrow> (\<forall>\<sigma>. grow v \<sigma> w (None # \<sigma>)) \<and> infun w = infun v \<and> nextchr v \<le> nextchr w \<and>
     nextchr w \<le> text_len E \<and> weight E w \<le> weight E v + k"

definition replaces :: "('f, 'v, 'm) penv \<Rightarrow> ('f, 'v, 'm) vars \<Rightarrow> ('f, 'v, 'm) vars \<Rightarrow> nat \<Rightarrow> bool" where
  "replaces E v w k \<longleftrightarrow> (\<forall>\<sigma>. grow v (None # \<sigma>) w (None # \<sigma>)) \<and> infun w = infun v \<and> nextchr v \<le> nextchr w \<and>
     nextchr w \<le> text_len E \<and> weight E w \<le> weight E v + k"

lemma has_replaces:
  assumes "has_values E p v0 \<sigma> v k" "replaces E v w j" "j \<le> k"
  shows "has_values E p v0 \<sigma> w (k - j)"
proof -
  obtain n where n: "adds E p v0 \<sigma> v n" "unat (infun v) + (text_len E - nextchr v) \<le> 255" "weight E v + k \<le> weight E v0"
    using assms(1) by (auto simp: has_values_def)
  have top: "replicate n None @ \<sigma> = None # replicate (n - 1) None @ \<sigma>"
    using n(1) by (cases n) (simp_all add: adds_def)
  have "grow v0 \<sigma> w (replicate n None @ \<sigma>)"
    using grow_trans n(1) assms(2) unfolding adds_def replaces_def top by blast
  then have "adds E p v0 \<sigma> w n" using n(1) assms(2) by (simp add: adds_def replaces_def)
  moreover have "unat (infun w) + (text_len E - nextchr w) \<le> 255" using n(2) assms(2) by (auto simp: replaces_def)
  moreover have "weight E w + (k - j) \<le> weight E v0" using n(3) assms(2,3) by (auto simp: replaces_def)
  ultimately show ?thesis by (auto simp: has_values_def)
qed

lemma has_pushes:
  assumes "pre E v0" "same_code v0 v" "nextchr v0 \<le> nextchr v" "pushes E v w j" "j + k \<le> 64 * (nextchr v - nextchr v0)"
  shows "has_values E p v0 \<sigma> w k"
proof -
  have "stk v = stk v0" "staksize v = staksize v0" "stakmaxsize v = stakmaxsize v0" "infun v = infun v0"
    using assms(2) by (simp_all add: same_code_def)
  note same = this
  have "grow v0 \<sigma> w (None # \<sigma>)"
    using assms(4) same_grow(2) [OF same(1-3)] by (simp add: pushes_def)
  then have "adds E p v0 \<sigma> w 1" using assms(4) same(4) by (simp add: adds_def pushes_def)
  moreover have "unat (infun w) + (text_len E - nextchr w) \<le> 255"
    using assms(1,3,4) same(4) by (auto simp: pushes_def pre_def)
  moreover have "nextchr v \<le> text_len E" using assms(4) by (simp add: pushes_def)
  then have "weight E v + 64 * (nextchr v - nextchr v0) = weight E v0" using assms(3) same(1) by (simp add: weight_def)
  then have "weight E w + k \<le> weight E v0" using assms(4,5) by (simp add: pushes_def)
  ultimately show ?thesis by (auto simp: has_values_def)
qed

text \<open>What \<open>expr\<close> may be called with.\<close>

lemma pre_more:
  assumes "pre E v" "nextchr v \<le> nextchr w" "nextchr w \<le> text_len E" "infun w = infun v" "tell (stk v) \<le> tell (stk w)" "sized w"
    and "weight E w < 2 ^ 15"
  shows "pre E w"
  using assms by (auto simp: pre_def)

lemma has_pre:
  assumes "pre E v0" "has_values E p v0 \<sigma> v k" "nextchr v \<le> text_len E"
  shows "pre E v"
proof -
  obtain n where n: "adds E p v0 \<sigma> v n" "unat (infun v) + (text_len E - nextchr v) \<le> 255" "weight E v + k \<le> weight E v0"
    using assms(2) by (auto simp: has_values_def)
  have "infun v0 = 0 \<Longrightarrow> infun v = 0" using n(1) by (auto simp: adds_def unat_eq_0)
  moreover have "ARITH_HDR \<le> tell (stk v)" "sized v"
    using n(1) assms(1) by (auto simp: adds_def grow_def pre_def ext_def)
  ultimately show ?thesis using assms(1,3) n(2,3) by (simp add: pre_def)
qed

text \<open>A call for an operand: it pushes a value, or ends at the end of the text, or at an assignment that is an error.\<close>

lemma call_pushes:
  assumes "call_ok E ex" "pre E v" "c \<le> 32" "infun v = 0 \<or> 2 \<le> c" "ex c v = Some (True, w)"
  shows "pushes E v w 0 \<or> c \<le> 2 \<and> nextchr v \<le> nextchr w \<and> nextchr w \<le> text_len E \<and> fst (tok E (nextchr w)) = A_EOF \<and>
      (infun v = 0 \<longrightarrow> (\<forall>\<sigma>. \<exists>\<tau>. grow v \<sigma> w \<tau>)) \<or>
    4 \<le> c \<and> nextchr v \<le> nextchr w \<and> nextchr w \<le> text_len E \<and> fst (tok E (nextchr w)) = A_ASSIGN"
proof -
  have post: "post E c v \<sigma> w" for \<sigma> using assms by (simp add: call_ok_def)
  have "pushes E v w 0" if no: "\<not> (c \<le> 2 \<and> fst (tok E (nextchr w)) = A_EOF)" "\<not> (4 \<le> c \<and> fst (tok E (nextchr w)) = A_ASSIGN)"
  proof -
    have "\<exists>n. adds E c v \<sigma> w n \<and> weight E w \<le> weight E v" for \<sigma> using post [of \<sigma>] no unfolding post_def by blast
    moreover have "n = 1" if "adds E c v \<sigma> w n" for n \<sigma> using that assms(4) by (auto simp: adds_def)
    ultimately have a: "adds E c v \<sigma> w 1" "weight E w \<le> weight E v" for \<sigma> by blast+
    then show ?thesis using post [of "[]"] a(1) [of "[]"] by (auto simp: pushes_def adds_def post_def word_unat_eq_iff)
  qed
  moreover have "\<exists>\<tau>. grow v \<sigma> w \<tau>" if "c \<le> 2" "infun v = 0" for \<sigma>
    using post [of \<sigma>] that unfolding post_def adds_def by force
  ultimately show ?thesis using post [of "[]"] unfolding post_def by blast
qed

section \<open>Reading a token\<close>

lemma token_facts:
  assumes "token E v = (t, w)"
  shows "stk w = stk v" "staksize w = staksize v" "stakmaxsize w = stakmaxsize v" "infun w = infun v"
    and "tok E (nextchr v) = (t, errchr w, nextchr w)" "tok E (errchr w) = (t, errchr w, nextchr w)"
    and "nextchr v \<le> errchr w" "errchr w \<le> nextchr w" "nextchr v \<le> text_len E \<Longrightarrow> nextchr w \<le> text_len E"
    and "t \<notin> {A_EOF, A_DIG, A_REG, A_LIT} \<Longrightarrow> errchr w < nextchr w" "t \<in> {1..33} \<union> {A_LIT}"
proof -
  obtain e q where g: "tok E (nextchr v) = (t, e, q)" and w: "w = v\<lparr>errchr := e, nextchr := q\<rparr>"
    using assms by (auto simp: token_def split: prod.splits)
  show "tok E (nextchr v) = (t, errchr w, nextchr w)" "tok E (errchr w) = (t, errchr w, nextchr w)"
    using g gettok_again [OF g] w by simp_all
  show "stk w = stk v" "staksize w = staksize v" "stakmaxsize w = stakmaxsize v" "infun w = infun v" using w by simp_all
  show "nextchr v \<le> errchr w" "errchr w \<le> nextchr w" "nextchr v \<le> text_len E \<Longrightarrow> nextchr w \<le> text_len E"
    using gettok_bounds(1,2,3) [OF g] w by auto
  show "t \<notin> {A_EOF, A_DIG, A_REG, A_LIT} \<Longrightarrow> errchr w < nextchr w" using gettok_bounds(4) [OF g] w by simp
  show "t \<in> {1..33} \<union> {A_LIT}" by (rule gettok_bounds(6) [OF g])
qed

section \<open>Operators after a value\<close>

text \<open>
  After the operator \<open>op\<close> that begins at \<open>e\<close>: there was a value before it; \<open>lvalue\<close> still names a variable only for
  some operators.
\<close>

definition level_ok :: "nat \<Rightarrow> ('v, 'm) loc \<Rightarrow> bool" where
  "level_ok p L \<longleftrightarrow> p \<le> 32 \<and> (lprec L = p \<or> p = 3 \<and> lprec L = 2)"

definition at_op :: "('f, 'v, 'm) penv \<Rightarrow> nat \<Rightarrow> ('f, 'v, 'm) vars \<Rightarrow> slots \<Rightarrow> nat \<Rightarrow> ('v, 'm) loc \<Rightarrow> ('f, 'v, 'm) vars \<Rightarrow> bool" where
  "at_op E p v0 \<sigma> e L v \<longleftrightarrow>
    pre E v0 \<and> level_ok p L \<and> nextchr v0 \<le> e \<and> e < nextchr v \<and> nextchr v \<le> text_len E \<and>
    has_values E p v0 \<sigma> (v\<lparr>nextchr := e\<rparr>) 0 \<and> \<not> invalid L \<and> lfun (lv L) = None"

lemma again_value:
  "has_values E p v0 \<sigma> v k \<Longrightarrow> wasop L = 0 \<Longrightarrow> \<not> invalid L \<Longrightarrow> lvalue (lv L) = None \<Longrightarrow> lfun (lv L) = None \<Longrightarrow> level_ok p L \<Longrightarrow>
    nextchr v0 \<le> nextchr v \<Longrightarrow> nextchr v \<le> text_len E \<Longrightarrow> loop_inv E p v0 \<sigma> L v"
  using has_move [of E p v0 \<sigma> v k v 0] by (auto simp: loop_inv_def st_value_has level_ok_def)

lemma again_junk:
  "fst (tok E (nextchr v)) = A_ASSIGN \<Longrightarrow> wasop L = 0 \<Longrightarrow> lvalue (lv L) = None \<Longrightarrow> lfun (lv L) = None \<Longrightarrow> level_ok p L \<Longrightarrow>
    nextchr v0 \<le> nextchr v \<Longrightarrow> nextchr v \<le> text_len E \<Longrightarrow> loop_inv E p v0 \<sigma> L v"
  by (auto simp: loop_inv_def st_junk_def level_ok_def)

lemma at_op_has: "at_op E p v0 \<sigma> e L v \<Longrightarrow> has_values E p v0 \<sigma> v 64"
  unfolding at_op_def by (elim conjE, rule has_move [where v = "v\<lparr>nextchr := e\<rparr>" and k = 0]) simp_all

lemma at_op_pre: "at_op E p v0 \<sigma> e L v \<Longrightarrow> pre E v"
  by (rule has_pre [OF _ at_op_has]) (auto simp: at_op_def)

lemma stop_ok: "at_op E p v0 \<sigma> e L v \<Longrightarrow> post E p v0 \<sigma> (v\<lparr>nextchr := e\<rparr>)"
  unfolding at_op_def by (elim conjE, rule post_has) auto

text \<open>A replaced value ends in the same kind of state.\<close>

lemma again_replaces:
  assumes "at_op E p v0 \<sigma> e L v" "replaces E v w k" "k \<le> 64"
    and "wasop L' = 0" "\<not> invalid L'" "lvalue (lv L') = None" "lfun (lv L') = None" "lprec L' = lprec L"
  shows "loop_inv E p v0 \<sigma> L' w"
  by (rule again_value [OF has_replaces [OF at_op_has [OF assms(1)] assms(2,3)]])
    (use assms in \<open>auto simp: at_op_def replaces_def level_ok_def\<close>)

lemma replaces_trans: "replaces E u v j \<Longrightarrow> replaces E v w k \<Longrightarrow> replaces E u w (j + k)"
  unfolding replaces_def by (auto intro: grow_trans)

lemma pushes_replaces: "pushes E u v j \<Longrightarrow> replaces E v w k \<Longrightarrow> pushes E u w (j + k)"
  unfolding pushes_def replaces_def by (auto intro: grow_trans)

lemma weight_same: "tell (stk w) \<le> tell (stk v) + k \<Longrightarrow> nextchr w = nextchr v \<Longrightarrow> weight E w \<le> weight E v + k"
  by (simp add: weight_def)

lemma putvar_fields [simp]: "nextchr (putvar b l v) = nextchr v" "infun (putvar b l v) = infun v"
  by (simp_all add: putvar_def)

lemma putvar_top: "top (putvar b l v) \<le> top v + 18"
  using round_up_le [of 8 "Suc (top v)"] by (simp add: putvar_layout(1))

subsection \<open>Binary operators\<close>

definition bin_code :: "nat \<Rightarrow> nat" where
  "bin_code op = op + (if op \<in> {A_AND, A_OR, A_XOR, A_LSHIFT, A_RSHIFT, A_MOD} then 192 else 64)"

lemma bin_code_binary: "op \<in> binary_ops \<Longrightarrow> bin_code op \<in> binary_codes"
  unfolding bin_code_def by (elim insertE emptyE) simp_all

lemma xswitch_binary: "op \<in> binary_ops \<Longrightarrow> xswitch ex E op c e L v = Again L (stak_down (putop (bin_code op) v))"
  unfolding bin_code_def by (elim insertE emptyE) (simp_all add: xswitch_def)

lemma binary_replaces:
  assumes "pushes E v w 0" "b \<in> binary_codes" "sized w"
  shows "replaces E v (stak_down (putop b w)) 1"
proof -
  have "grow w (None # None # \<sigma>) (stak_down (putop b w)) (None # \<sigma>)" for \<sigma> by (rule grow_binary [OF assms(2,3)])
  then have "grow v (None # \<sigma>) (stak_down (putop b w)) (None # \<sigma>)" for \<sigma>
    using assms(1) grow_trans unfolding pushes_def by blast
  moreover have "weight E (stak_down (putop b w)) \<le> weight E w + 1" by (rule weight_same) simp_all
  ultimately show ?thesis using assms(1) by (simp add: replaces_def pushes_def)
qed

lemma assignop_replaces:
  assumes "sized v" "nextchr v \<le> text_len E"
  shows "replaces E v (putvar A_ASSIGNOP l (stak_up v)) 18"
  using assms grow_assignop [OF assms(1)] weight_same [of "putvar A_ASSIGNOP l (stak_up v)" v 18 E] putvar_top [of A_ASSIGNOP l "stak_up v"]
  by (simp add: replaces_def)

lemma pushes_sized: "pushes E v w k \<Longrightarrow> sized v \<Longrightarrow> sized w"
  by (simp add: pushes_def grow_def)

lemmas op_row = op_table [THEN bspec]

lemma op_table_at:
  assumes "op \<in> binary_ops"
  shows "\<not> seqpoint (strval_precedence ! op) \<and> 14 \<le> op_right op (op_c op) \<and> op_right op (op_c op) < 31"
proof -
  have "op \<in> set [0..<32]" using assms by auto
  from op_row [OF this] assms show ?thesis by blast
qed

lemma op_table_assign:
  assumes "op \<in> assign_ops"
  shows "\<not> rassoc (strval_precedence ! op)"
proof -
  have "op \<in> set [0..<32]" using assms by auto
  from op_row [OF this] assms show ?thesis by blast
qed

lemma right_binary:
  assumes ex: "call_ok E ex" and at: "at_op E p v0 \<sigma> e L v" and op: "op \<in> binary_ops" "lvalue (lv L) = None"
    and c: "a = None \<and> c = op_c op \<or> a \<noteq> None \<and> c = 3 \<and> op \<in> assign_ops"
  shows "iter_ok E p v0 \<sigma> (xright ex E op c e a L v)"
proof -
  let ?c = "if rassoc (strval_precedence ! op) then c - 1 else c"
  have sp: "\<not> seqpoint (strval_precedence ! op)" using op_table_at [OF op(1)] by simp
  have cc: "14 \<le> ?c \<and> ?c < 31 \<and> a = None \<or> ?c = 3 \<and> a \<noteq> None"
    using c op_table_at [OF op(1)] op_table_assign [of op] by (auto simp: op_right_def)
  define b where "b = bin_code op"
  have b: "b \<in> binary_codes" "xswitch ex E op ?c e (L\<lparr>wasop := 0\<rparr>) w = Again (L\<lparr>wasop := 0\<rparr>) (stak_down (putop b w))" for w
    using bin_code_binary [OF op(1)] xswitch_binary [OF op(1)] unfolding b_def by blast+
  have sz: "sized v" using at_op_pre [OF at] by (simp add: pre_def)
  show ?thesis
  proof (cases "lprec L \<ge> c")
    case True
    then show ?thesis using stop_ok [OF at] by (simp add: xright_def)
  next
    case False
    show ?thesis
    proof (cases "\<exists>w. ex ?c v = Some (True, w)")
      case True
      then obtain w where w: "ex ?c v = Some (True, w)" by blast
      let ?u = "stak_down (putop b w)" and ?L = "L\<lparr>wasop := 0, invalid := False\<rparr>"
      have step: "xright ex E op c e a L v = Again ?L (put_assignop ?c a ?u)"
        using False cc sp w b(2) by (auto simp: xright_def)
      consider "pushes E v w 0" | "4 \<le> ?c" "nextchr v \<le> nextchr w" "nextchr w \<le> text_len E" "fst (tok E (nextchr w)) = A_ASSIGN"
        using call_pushes [OF ex at_op_pre [OF at] _ _ w] cc by fastforce
      then have "loop_inv E p v0 \<sigma> ?L (put_assignop ?c a ?u)"
      proof cases
        case 1
        note r = binary_replaces [OF 1 b(1) pushes_sized [OF 1 sz]]
        have u: "sized ?u" "nextchr ?u \<le> text_len E" using pushes_sized [OF 1 sz] 1 by (auto simp: sized_def pushes_def)
        show ?thesis
        proof (cases a)
          case None
          have "loop_inv E p v0 \<sigma> ?L ?u" by (rule again_replaces [OF at r]) (use at op(2) in \<open>auto simp: at_op_def\<close>)
          then show ?thesis using None by (simp add: put_assignop_def)
        next
          case (Some l)
          have "put_assignop ?c a ?u = putvar A_ASSIGNOP (flag0 l) (stak_up ?u)" using cc Some by (auto simp: put_assignop_def)
          then show ?thesis
            using again_replaces [OF at replaces_trans [OF r assignop_replaces [OF u]]] at op(2) by (simp add: at_op_def)
        qed
      next
        case 2
        then have a: "a = None" using cc by auto
        show ?thesis by (rule again_junk) (use a 2 at op(2) in \<open>auto simp: put_assignop_def at_op_def level_ok_def\<close>)
      qed
      then show ?thesis by (simp only: step iter_ok_simps)
    next
      case no: False
      have "xright ex E op c e a L v = Return (ex ?c v)"
        using False cc sp no by (auto simp: xright_def Let_def split: option.splits bool.splits)
      then show ?thesis using no by simp
    qed
  qed
qed

subsection \<open>The other operators\<close>

lemma right_seq:
  assumes at: "at_op E p v0 \<sigma> e L v" and sp: "seqpoint (strval_precedence ! op)"
    and sw: "lprec L < c \<Longrightarrow> (case xswitch ex E op (op_right op c) e L v of
        Return r \<Rightarrow> (\<forall>w. r = Some (True, w) \<longrightarrow> post E p v0 \<sigma> w)
      | Again L' w \<Rightarrow> loop_inv E p v0 \<sigma> (L'\<lparr>invalid := False\<rparr>) w)"
  shows "iter_ok E p v0 \<sigma> (xright ex E op c e None L v)"
proof (cases "lprec L \<ge> c")
  case True
  then show ?thesis using stop_ok [OF at] by (simp add: xright_def)
next
  case False
  have "xright ex E op c e None L v = (case xswitch ex E op (op_right op c) e L v of
      Return r \<Rightarrow> Return r | Again L w \<Rightarrow> Again (L\<lparr>invalid := False\<rparr>) w)"
    using False sp by (simp add: xright_def op_right_def put_assignop_def Let_def split: iter.split)
  then show ?thesis using sw False by (simp add: iter_ok_def split: iter.splits)
qed

lemma xthen_post:
  assumes "\<And>w. r = Some (True, w) \<Longrightarrow> loop_inv E p v0 \<sigma> (L\<lparr>invalid := False\<rparr>) w"
  shows "case xthen r L of Return r \<Rightarrow> (\<forall>w. r = Some (True, w) \<longrightarrow> post E p v0 \<sigma> w)
    | Again L' w \<Rightarrow> loop_inv E p v0 \<sigma> (L'\<lparr>invalid := False\<rparr>) w"
  using assms by (auto simp: xthen_def split: option.splits bool.splits)

lemma seqpoints: "op \<in> {A_ANDAND, A_LPAR, A_RPAR, A_PLUSPLUS, A_COMMA, A_MINUSMINUS, A_QCOLON, A_QUEST, A_OROR} \<Longrightarrow>
   seqpoint (strval_precedence ! op)"
  by (elim insertE emptyE) (simp_all add: strval_precedence_def)

lemma noval_invalid [simp]:
  "(noval L)\<lparr>invalid := b\<rparr> = noval (L\<lparr>invalid := b\<rparr>)" "wasop (noval L) = wasop L" "invalid (noval L) = invalid L"
  "lprec (noval L) = lprec L" "lvalue (lv (noval L)) = None" "lfun (lv (noval L)) = lfun (lv L)"
  by (cases L; simp add: noval_def)+

lemma right_rpar: "at_op E p v0 \<sigma> e L v \<Longrightarrow> iter_ok E p v0 \<sigma> (xright ex E A_RPAR c e None L v)"
  by (rule right_seq [OF _ seqpoints]) (auto simp: xswitch_def stop_ok)

lemma right_lpar: "at_op E p v0 \<sigma> e L v \<Longrightarrow> iter_ok E p v0 \<sigma> (xright ex E A_LPAR c e None L v)"
  by (rule right_seq [OF _ seqpoints], assumption, simp)
    (auto simp: xswitch_def xparen_def at_op_def Let_def xthen_def xerr_def split: option.splits)

lemma right_incr:
  assumes at: "at_op E p v0 \<sigma> e L v" and op: "op = A_PLUSPLUS \<or> op = A_MINUSMINUS"
  shows "iter_ok E p v0 \<sigma> (xright ex E op c e None L v)"
proof (rule right_seq [OF at seqpoints])
  show "op \<in> {A_ANDAND, A_LPAR, A_RPAR, A_PLUSPLUS, A_COMMA, A_MINUSMINUS, A_QCOLON, A_QUEST, A_OROR}" using op by auto
  have sz: "sized v" using at_op_pre [OF at] by (simp add: pre_def)
  have "replaces E v (putop (op + T_NOFLOAT) v) 1"
    using grow_unary [of "op + T_NOFLOAT" v] sz op weight_same [of "putop (op + T_NOFLOAT) v" v 1 E] at
    by (auto simp: replaces_def at_op_def)
  from again_replaces [OF at this]
  have "loop_inv E p v0 \<sigma> (noval (L\<lparr>wasop := 0, invalid := False\<rparr>)) (putop (op + T_NOFLOAT) v)"
    using at by (simp add: at_op_def)
  then show "case xswitch ex E op (op_right op c) e L v of
      Return r \<Rightarrow> (\<forall>w. r = Some (True, w) \<longrightarrow> post E p v0 \<sigma> w)
    | Again L' w \<Rightarrow> loop_inv E p v0 \<sigma> (L'\<lparr>invalid := False\<rparr>) w"
    using op by (auto simp: xswitch_def)
qed

text \<open>Code laid out before the next call.\<close>

lemma pre_emit:
  assumes "at_op E p v0 \<sigma> e L v" "nextchr w = nextchr v" "infun w = infun v" "top v \<le> top w" "top w \<le> top v + 64" "sized w"
  shows "pre E w"
proof (rule pre_more [OF at_op_pre [OF assms(1)]])
  have "pre E v0" "has_values E p v0 \<sigma> v 64" using assms(1) at_op_has by (simp_all add: at_op_def)
  then have "weight E v + 64 < 2 ^ 15" by (auto simp: has_values_def pre_def)
  then show "weight E w < 2 ^ 15" using weight_same [OF assms(5,2), of E] by simp
qed (use assms in \<open>auto simp: at_op_def\<close>)

lemma right_logic:
  assumes ex: "call_ok E ex" and at: "at_op E p v0 \<sigma> e L v" and op: "op \<in> {A_QCOLON, A_ANDAND, A_OROR}" and c: "c = op_c op"
  shows "iter_ok E p v0 \<sigma> (xright ex E op c e None L v)"
proof (rule right_seq [OF at seqpoints])
  show "op \<in> {A_ANDAND, A_LPAR, A_RPAR, A_PLUSPLUS, A_COMMA, A_MINUSMINUS, A_QCOLON, A_QUEST, A_OROR}" using op by auto
  define j where "j = (if op = A_ANDAND then A_JMPZ else A_JMPNZ)"
  let ?u = "putop A_POP (putcell (CShort 0) (putop j v))" and ?off = "round_up (Suc (top v)) 2"
  have sz: "sized v" using at_op_pre [OF at] by (simp add: pre_def)
  have top: "top v \<le> top ?u" "top ?u \<le> top v + 64" using round_up_ge [of 2 "Suc (top v)"] round_up_le [of 2 "Suc (top v)"] by simp_all
  have pre: "pre E ?u" by (rule pre_emit [OF at _ _ top]) (use sz in \<open>simp_all add: sized_def\<close>)
  have cc: "op_right op c = c" "2 \<le> c" "c \<le> 32" using op c by (auto simp: op_values)
  have "loop_inv E p v0 \<sigma> (noval (L\<lparr>wasop := 0, invalid := False\<rparr>)) w'" if r: "xlogic ex op c v = Some (True, w')" for w'
  proof -
    obtain w where w: "ex c ?u = Some (True, w)" "w' = putop A_NOTNOT (patched ?off w)"
      using r unfolding xlogic_def Let_def j_def [symmetric] stkpush_short prod.case
      by (auto simp: xdo_def j_def split: option.splits if_splits)
    have wt: "weight E ?u \<le> weight E v + 5" by (rule weight_same) (use round_up_le [of 2 "Suc (top v)"] in simp_all)
    from call_pushes [OF ex pre cc(3) _ w(1)] cc(2) 
    consider "pushes E ?u w 0" | "fst (tok E (nextchr w)) = A_ASSIGN" "nextchr ?u \<le> nextchr w" "nextchr w \<le> text_len E"
      | "fst (tok E (nextchr w)) = A_EOF" "c \<le> 2" by auto
    then show ?thesis
    proof cases
      case 1
      have szw: "sized (patched ?off w)" using pushes_sized [OF 1] sz by (simp add: sized_def)
      have "top w < 2 ^ 15" using 1 pre by (simp add: pushes_def pre_def weight_def)
      then have "grow v (None # \<sigma>) (patched ?off w) (None # \<sigma>)" for \<sigma>
        using 1 by (intro grow_skip [where j = j, OF _ sz]) (simp_all add: pushes_def j_def)
      moreover have "weight E (patched ?off w) = weight E w" by (simp add: weight_def patch_def)
      ultimately have "replaces E v (patched ?off w) 5" using 1 wt by (simp add: replaces_def pushes_def)
      moreover have "replaces E (patched ?off w) w' 1"
        using 1 w(2) grow_unary [OF _ szw, of A_NOTNOT] weight_same [of w' "patched ?off w" 1 E]
        by (simp add: replaces_def pushes_def)
      ultimately have "replaces E v w' 6" using replaces_trans [of E v "patched ?off w" 5 w' 1] by simp
      from again_replaces [OF at this] show ?thesis using at by (simp add: at_op_def)
    next
      case 2
      then show ?thesis using at w(2) by (intro again_junk) (auto simp: at_op_def level_ok_def)
    next
      case 3
      then show ?thesis using op c by (auto simp: op_values)
    qed
  qed
  then show "case xswitch ex E op (op_right op c) e L v of
      Return r \<Rightarrow> (\<forall>w. r = Some (True, w) \<longrightarrow> post E p v0 \<sigma> w)
    | Again L' w \<Rightarrow> loop_inv E p v0 \<sigma> (L'\<lparr>invalid := False\<rparr>) w"
    using xthen_post [of "xlogic ex op c v" E p v0 \<sigma> "noval (L\<lparr>wasop := 0\<rparr>)"] op cc(1) by (auto simp: xswitch_def)
qed

lemma stk_patch_put: "v\<lparr>stk := patch off (stk (putcell c v))\<rparr> = patched off (putcell c v)"
  by (simp add: putcell_def)

lemma xquest_elim:
  assumes "xquest ex E v = Some (True, w')"
  obtains w w3 z where "ex 1 (putop A_POP (putcell (CShort 0) (putop A_JMPZ v))) = Some (True, w)"
    "token E w = (A_COLON, w3)"
    "ex 3 (putop A_POP (patched (round_up (Suc (top v)) 2) (putcell (CShort 0) (putop A_JMP w3)))) = Some (True, z)"
    "w' = patched (round_up (Suc (top w3)) 2) z"
proof -
  obtain w where w: "ex 1 (putop A_POP (putcell (CShort 0) (putop A_JMPZ v))) = Some (True, w)"
    using assms by (auto simp: xquest_def stkpush_short xdo_def Let_def split: option.splits if_splits)
  obtain t w3 where t: "token E w = (t, w3)" by force
  have colon: "t = A_COLON"
    using assms w t by (auto simp: xquest_def stkpush_short xdo_def Let_def split: if_splits)
  have "xdo (ex 3 (putop A_POP (patched (round_up (Suc (top v)) 2) (putcell (CShort 0) (putop A_JMP w3)))))
        (\<lambda>v5. Some (True, patched (round_up (Suc (top w3)) 2) v5)) = Some (True, w')"
    using assms w t colon by (simp add: xquest_def stkpush_short xdo_def stk_patch_put Let_def split: option.splits prod.splits if_splits)
  with that w t colon show ?thesis by (auto simp: xdo_def split: option.splits if_splits)
qed

lemma right_quest:
  assumes ex: "call_ok E ex" and at: "at_op E p v0 \<sigma> e L v" and q: "63 \<in> set (ptext E)"
  shows "iter_ok E p v0 \<sigma> (xright ex E A_QUEST c e None L v)"
proof (rule right_seq [OF at seqpoints])
  let ?u = "putop A_POP (putcell (CShort 0) (putop A_JMPZ v))" and ?off = "round_up (Suc (top v)) 2"
  have v: "pre E v" by (rule at_op_pre [OF at])
  then have sz: "sized v" and inf: "infun v = 0" using q by (simp_all add: pre_def)
  have top: "top v \<le> top ?u" "top ?u \<le> top v + 64" using round_up_ge [of 2 "Suc (top v)"] round_up_le [of 2 "Suc (top v)"] by simp_all
  have pre: "pre E ?u" by (rule pre_emit [OF at _ _ top]) (use sz in \<open>simp_all add: sized_def\<close>)
  have wt: "weight E ?u \<le> weight E v + 5" by (rule weight_same) (use round_up_le [of 2 "Suc (top v)"] in simp_all)
  have "loop_inv E p v0 \<sigma> (noval (L\<lparr>wasop := 0, invalid := False\<rparr>)) w'" if r: "xquest ex E v = Some (True, w')" for w'
  proof -
    from xquest_elim [OF r] obtain w w3 z where w: "ex 1 ?u = Some (True, w)" "token E w = (A_COLON, w3)"
      "ex 3 (putop A_POP (patched ?off (putcell (CShort 0) (putop A_JMP w3)))) = Some (True, z)"
      "w' = patched (round_up (Suc (top w3)) 2) z" .
    have u: "infun ?u = 0" "sized ?u" using inf sz by (simp_all add: sized_def)
    have t3: "stk w3 = stk w" "staksize w3 = staksize w" "stakmaxsize w3 = stakmaxsize w" "infun w3 = infun w"
      "nextchr w < nextchr w3" "nextchr w \<le> text_len E \<Longrightarrow> nextchr w3 \<le> text_len E" "fst (tok E (nextchr w)) = A_COLON"
      using token_facts(1-4,5,7-10) [OF w(2)] by simp_all
    have p1: "pushes E ?u w 0" using call_pushes [OF ex pre _ _ w(1)] u(1) t3(7) by auto
    let ?x = "putop A_POP (patched ?off (putcell (CShort 0) (putop A_JMP w3)))"
    have x: "nextchr ?x = nextchr w3" "infun ?x = 0" "sized ?x" "weight E ?x \<le> weight E ?u" "top ?u \<le> top ?x"
    proof -
      have le: "top ?u \<le> top w" using p1 by (auto simp: pushes_def grow_def ext_def)
      have wl: "nextchr w \<le> text_len E" using p1 by (simp add: pushes_def)
      have "top ?x = round_up (Suc (top w)) 2 + 3" using t3(1) by (simp add: patch_def)
      then show "top ?u \<le> top ?x" "weight E ?x \<le> weight E ?u"
        using le p1 wl t3(5,6) round_up_le [of 2 "Suc (top w)"] round_up_ge [of 2 "Suc (top w)"] by (auto simp: pushes_def weight_def)
    qed (use t3 p1 u in \<open>auto simp: pushes_def sized_def grow_def\<close>)
    have prex: "pre E ?x"
      by (rule pre_more [OF pre]) (use x t3(5,6) p1 u(1) pre in \<open>auto simp: pushes_def pre_def\<close>)
    have p2: "pushes E ?x z 0" using call_pushes [OF ex prex _ _ w(3)] by auto
    have z: "top z < 2 ^ 15" using p2 prex by (simp add: pushes_def pre_def weight_def)
    have "grow ?u \<tau> w3 (None # \<tau>)" for \<tau> using p1 same_grow(1) [OF t3(1-3)] by (simp add: pushes_def)
    then have "grow v (None # \<tau>) w' (None # \<tau>)" for \<tau>
      unfolding w(4) by (rule grow_cond [OF sz _ refl _ z]) (use p2 in \<open>simp add: pushes_def\<close>)
    then have "replaces E v w' 5"
      using p1 p2 x wt w(4) t3(5) inf by (simp add: replaces_def pushes_def weight_def patch_def)
    from again_replaces [OF at this] show ?thesis using at by (simp add: at_op_def)
  qed
  then show "case xswitch ex E A_QUEST (op_right A_QUEST c) e L v of
      Return r \<Rightarrow> (\<forall>w. r = Some (True, w) \<longrightarrow> post E p v0 \<sigma> w)
    | Again L' w \<Rightarrow> loop_inv E p v0 \<sigma> (L'\<lparr>invalid := False\<rparr>) w"
    using xthen_post [of "xquest ex E v" E p v0 \<sigma> "noval (L\<lparr>wasop := 0\<rparr>)"] by (auto simp: xswitch_def)
qed simp

lemma right_comma:
  assumes ex: "call_ok E ex" and at: "at_op E p v0 \<sigma> e L v"
  shows "iter_ok E p v0 \<sigma> (xright ex E A_COMMA (op_c A_COMMA) e None L v)"
proof (rule right_seq [OF at seqpoints])
  assume lp: "lprec L < op_c A_COMMA"
  have v: "pre E v" by (rule at_op_pre [OF at])
  then have sz: "sized v" by (simp add: pre_def)
  obtain n where n: "adds E p v0 \<sigma> v n" "unat (infun v) + (text_len E - e) \<le> 255" "weight E v + 64 \<le> weight E v0"
    using at at_op_has [OF at] by (auto simp: at_op_def has_values_def adds_def same_grow(1) [of "v\<lparr>nextchr := e\<rparr>" v])
  have "loop_inv E p v0 \<sigma> (noval (L\<lparr>wasop := 0, invalid := False\<rparr>)) w" if r: "xcomma ex 2 v = Some (True, w)" for w
  proof -
    define v1 where "v1 = (if infun v \<noteq> 0 then v\<lparr>infun := infun v + 1\<rparr> else stak_down (putop A_POP v))"
    have x: "ex 2 v1 = Some (True, w)"
      using r unfolding xcomma_def v1_def [symmetric] Let_def by (auto split: option.splits if_splits)
    have p: "p \<le> 1" using lp at by (auto simp: at_op_def level_ok_def op_values)
    have le: "nextchr v0 \<le> nextchr v" "e < nextchr v" "nextchr v \<le> text_len E" using at by (auto simp: at_op_def)
    define m where "m = (if infun v = 0 then n else Suc n)"
    have c: "unat (infun v) + 1 = unat (infun v0) + n" "0 < n" "infun v0 = 0 \<Longrightarrow> n = 1"
      using n(1) by (simp_all add: adds_def)
    have cnt: "infun v = 0 \<Longrightarrow> n = 1" "infun v \<noteq> 0 \<Longrightarrow> infun v0 \<noteq> 0"
      using c by (simp, metis add_right_cancel unat_0 unat_eq_0)
    have inc: "unat (infun v1) = (if infun v = 0 then 0 else unat (infun v) + 1)"
    proof -
      have "unat (infun v) + 1 < 256" using n(2) le by auto
      then have "unat (infun v + 1) = unat (infun v) + 1" by (subst unat_add_lem [THEN iffD1]) simp_all
      then show ?thesis by (simp add: v1_def)
    qed
    have same: "nextchr v1 = nextchr v" "top v \<le> top v1" "top v1 \<le> top v + 1" "sized v1"
      using sz by (simp_all add: v1_def sized_def)
    have pre: "pre E v1"
    proof (cases "infun v = 0")
      case True
      show ?thesis by (rule pre_emit [OF at]) (use True same in \<open>simp_all add: v1_def\<close>)
    next
      case False
      then have "unat (infun v1) + (text_len E - nextchr v1) \<le> 255" using inc n(2) le same(1) by auto
      with False v show ?thesis by (auto simp: pre_def v1_def weight_def sized_def)
    qed
    have grow: "grow v (replicate n None @ \<sigma>) v1 (replicate (m - 1) None @ \<sigma>)"
    proof (cases "infun v = 0")
      case True
      then show ?thesis using grow_pop [OF sz, of \<sigma>] cnt(1) by (simp add: v1_def m_def)
    next
      case False
      then show ?thesis using same_grow(1) [of v1 v] grow_refl [OF sz] by (simp add: v1_def m_def)
    qed
    from call_pushes [OF ex pre _ _ x] consider "pushes E v1 w 0" |
      "fst (tok E (nextchr w)) = A_EOF" "nextchr v1 \<le> nextchr w" "nextchr w \<le> text_len E" "infun v1 = 0 \<Longrightarrow> (\<forall>\<sigma>. \<exists>\<tau>. grow v1 \<sigma> w \<tau>)"
      by auto
    then show ?thesis
    proof cases
      case 1
      have "0 < m" using c(2) by (simp add: m_def)
      then have "replicate m None = None # replicate (m - 1) (None :: nat option)" by (cases m) simp_all
      then have "grow v1 (replicate (m - 1) None @ \<sigma>) w (replicate m None @ \<sigma>)" using 1 by (simp add: pushes_def)
      from grow_trans [OF grow this] have "grow v0 \<sigma> w (replicate m None @ \<sigma>)"
        using grow_trans n(1) by (auto simp: adds_def)
      then have "adds E p v0 \<sigma> w m"
        using \<open>0 < m\<close> 1 inc c(1) cnt p by (auto simp: adds_def pushes_def m_def)
      moreover have "weight E w \<le> weight E v + 1"
        using 1 weight_same [OF same(3,1), of E] by (simp add: pushes_def)
      moreover have "unat (infun w) + (text_len E - nextchr w) \<le> 255" using 1 inc n(2) le same(1) by (auto simp: pushes_def split: if_splits)
      ultimately have "has_values E p v0 \<sigma> w 0" using n(3) unfolding has_values_def by force
      then show ?thesis by (rule again_value) (use 1 at le in \<open>auto simp: at_op_def level_ok_def pushes_def v1_def split: if_splits\<close>)
    next
      case 2
      have "st_eof E p v0 \<sigma> (noval (L\<lparr>wasop := 0, invalid := False\<rparr>)) w"
        unfolding st_eof_def
      proof (intro conjI impI)
        assume "infun v0 = 0"
        then have z: "infun v = 0" using cnt(2) by blast
        then have "infun v1 = 0" using inc by (simp add: unat_eq_0)
        with 2(4) obtain \<tau> where "grow v1 \<sigma> w \<tau>" by blast
        moreover have "grow v0 \<sigma> v1 \<sigma>"
          using grow n(1) z cnt(1) grow_trans by (auto simp: adds_def m_def)
        ultimately show "\<exists>\<tau>. grow v0 \<sigma> w \<tau>" using grow_trans by blast
      qed (use 2(1) p at in \<open>auto simp: at_op_def\<close>)
      then show ?thesis using 2 le at by (auto simp: loop_inv_def at_op_def level_ok_def v1_def split: if_splits)
    qed
  qed
  then show "case xswitch ex E A_COMMA (op_right A_COMMA (op_c A_COMMA)) e L v of
      Return r \<Rightarrow> (\<forall>w. r = Some (True, w) \<longrightarrow> post E p v0 \<sigma> w)
    | Again L' w \<Rightarrow> loop_inv E p v0 \<sigma> (L'\<lparr>invalid := False\<rparr>) w"
    using xthen_post [of "xcomma ex 2 v" E p v0 \<sigma> "noval (L\<lparr>wasop := 0\<rparr>)"] op_values(2,13) by (auto simp: xswitch_def)
qed simp

subsection \<open>Parentheses and assignments\<close>

text \<open>Before the operator nothing is on the stack: a start, or a name that is not pushed.\<close>

definition at_name :: "('f, 'v, 'm) penv \<Rightarrow> nat \<Rightarrow> ('f, 'v, 'm) vars \<Rightarrow> nat \<Rightarrow> ('v, 'm) loc \<Rightarrow> ('f, 'v, 'm) vars \<Rightarrow> bool" where
  "at_name E p v0 e L v \<longleftrightarrow>
    pre E v0 \<and> level_ok p L \<and> same_code v0 v \<and> nextchr v0 \<le> e \<and> e < nextchr v \<and> nextchr v \<le> text_len E"

lemma name_pre:
  assumes "at_name E p v0 e L v"
  shows "pre E v"
  by (rule pre_more [of E v0]) (use assms in \<open>auto simp: at_name_def same_code_def pre_def sized_def weight_def\<close>)

lemma name_pushes:
  assumes "at_name E p v0 e L v" "pushes E v w k" "k \<le> 64"
    and "wasop L' = 0" "\<not> invalid L'" "lvalue (lv L') = None" "lfun (lv L') = None" "lprec L' = lprec L"
  shows "loop_inv E p v0 \<sigma> L' w"
proof (rule again_value)
  show "has_values E p v0 \<sigma> w 0"
    by (rule has_pushes [OF _ _ _ assms(2)]) (use assms(1,3) in \<open>auto simp: at_name_def\<close>)
qed (use assms in \<open>auto simp: at_name_def pushes_def level_ok_def\<close>)

lemma right_assign:
  assumes ex: "call_ok E ex" and at: "at_name E p v0 e L v" and L: "\<not> invalid L" "lfun (lv L) = None"
    and t: "fst (tok E e) = A_ASSIGN"
  shows "iter_ok E p v0 \<sigma> (xright ex E A_ASSIGN 4 e None L v)"
proof (cases "lprec L \<ge> 4")
  case True
  have "post E p v0 \<sigma> (v\<lparr>nextchr := e\<rparr>)"
    using True at t by (auto simp: post_def at_name_def level_ok_def)
  then show ?thesis using True by (simp add: xright_def)
next
  case False
  have row: "rassoc (strval_precedence ! A_ASSIGN)" "\<not> seqpoint (strval_precedence ! A_ASSIGN)"
    by (simp_all add: strval_precedence_def)
  show ?thesis
  proof (cases "\<exists>w. ex 3 v = Some (True, w)")
    case True
    then obtain w where w: "ex 3 v = Some (True, w)" by blast
    have p: "pushes E v w 0" using call_pushes [OF ex name_pre [OF at] _ _ w] by auto
    have "grow v \<tau> (stak_down (putvar A_STORE l w)) (None # \<tau>)" for \<tau> and l :: "('b, 'c) lval"
      using p grow_store grow_trans unfolding pushes_def by blast
    then have "pushes E v (stak_down (putvar A_STORE (lv L) w)) 18"
      using p weight_same [of "stak_down (putvar A_STORE (lv L) w)" w 18 E] putvar_top [of A_STORE "lv L" w] by (simp add: pushes_def)
    from name_pushes [OF at this]
    have "loop_inv E p v0 \<sigma> (noval (L\<lparr>wasop := 0, invalid := False\<rparr>)) (stak_down (putvar A_STORE (lv L) w))"
      using L by simp
    then show ?thesis
      using False row w by (simp add: xright_def xswitch_def put_assignop_def)
  next
    case no: False
    then show ?thesis using False row by (auto simp: xright_def iter_ok_def split: option.splits bool.splits)
  qed
qed

text \<open>A parenthesis that ends well.\<close>

lemma xparen_group:
  assumes "xparen ex E L v = Some (True, w')" "lfun (lv L) = None"
  shows "\<exists>w. ex 1 (v\<lparr>infun := 0, vparen := vparen v + 1\<rparr>) = Some (True, w) \<and>
    token E (w\<lparr>vparen := vparen w - 1, infun := infun v\<rparr>) = (A_RPAR, w')"
  using assms by (auto simp: xparen_def xdo_def Let_def split: option.splits if_splits prod.splits)

lemma xparen_call:
  fixes v :: "('f, 'v, 'm) vars"
  assumes "xparen ex E L v = Some (True, w')" "lfun (lv L) = Some g"
    and v1: "v1 = putop 1 (putcell (CFun g) (putop A_PUSHF ((stak_up v)\<lparr>infun := 1\<rparr>)))" and n: "n = nat \<bar>lnargs (lv L)\<bar> mod 8"
  shows "\<exists>w. ex 1 (v1\<lparr>vparen := vparen v1 + 1\<rparr>) = Some (True, w) \<and> unat (infun w) = n \<and>
    token E ((putop (call_op (lnargs (lv L))) (w\<lparr>vparen := vparen w - 1,
        stakmaxsize := (if staksize w + int n \<ge> stakmaxsize w then staksize w + int n + int n else stakmaxsize w)\<rparr>))
      \<lparr>infun := infun v\<rparr>) = (A_RPAR, w')"
proof -
  define op where "op w = putop (call_op (lnargs (lv L))) (w\<lparr>vparen := vparen w - 1,
        stakmaxsize := (if staksize w + int n \<ge> stakmaxsize w then staksize w + int n + int n else stakmaxsize w)\<rparr>)"
    for w :: "('f, 'v, 'm) vars"
  obtain w where w: "ex 1 (v1\<lparr>vparen := vparen v1 + 1\<rparr>) = Some (True, w)"
    using assms(1,2) by (auto simp: xparen_def xdo_def v1 Let_def split: option.splits if_splits)
  have c: "unat (infun w) = n"
    using assms(1,2) w by (auto simp: xparen_def xdo_def v1 n Let_def split: if_splits)
  obtain t x where t: "token E ((op w)\<lparr>infun := infun v\<rparr>) = (t, x)" by force
  have "(if t \<noteq> A_RPAR then xerr E e_paren x else Some (True, x)) = Some (True, w')"
    using assms(1,2) w c t unfolding op_def n
    by (simp add: xparen_def xdo_def v1 Let_def split: if_splits)
  then have "t = A_RPAR \<and> x = w'" by (auto split: if_splits)
  then show ?thesis using w c t by (auto simp: op_def)
qed

lemma token_rpar:
  assumes "token E (z\<lparr>infun := i\<rparr>) = (A_RPAR, w')" "nextchr z = nextchr w"
  shows "fst (tok E (nextchr w)) = A_RPAR" "stk w' = stk z" "staksize w' = staksize z" "stakmaxsize w' = stakmaxsize z" "infun w' = i"
    "nextchr w < nextchr w'" "nextchr w \<le> text_len E \<Longrightarrow> nextchr w' \<le> text_len E"
  using token_facts [OF assms(1)] assms(2) by auto

lemma open_group:
  assumes ex: "call_ok E ex" and at: "at_name E p v0 e L v" and r: "xparen ex E L v = Some (True, w')" and f: "lfun (lv L) = None"
  shows "pushes E v w' 0"
proof -
  let ?u = "v\<lparr>infun := 0, vparen := vparen v + 1\<rparr>"
  from xparen_group [OF r f] obtain w where w: "ex 1 ?u = Some (True, w)" "token E (w\<lparr>vparen := vparen w - 1\<rparr>\<lparr>infun := infun v\<rparr>) = (A_RPAR, w')"
    by blast
  note t = token_rpar [OF w(2), of w, simplified]
  have "pre E ?u" using name_pre [OF at] by (auto simp: pre_def weight_def sized_def)
  from call_pushes [OF ex this _ _ w(1)] t(1) have p: "pushes E ?u w 0" by auto
  then have "grow v \<tau> w' (None # \<tau>)" for \<tau>
    using same_grow(2) [of ?u v] same_grow(1) [of w' w] t(2-4) by (simp add: pushes_def)
  then show ?thesis using p t by (auto simp: pushes_def weight_def)
qed

lemma open_call:
  assumes ex: "call_ok E ex" and at: "at_name E p v0 e L v" and r: "xparen ex E L v = Some (True, w')"
    and f: "lfun (lv L) = Some g" "nargs_ok (lnargs (lv L))" "63 \<notin> set (ptext E)" "nextchr v0 < e" and len: "text_len E \<le> 255"
  shows "pushes E v w' 18"
proof -
  define v1 where "v1 = putop 1 (putcell (CFun g) (putop A_PUSHF ((stak_up v)\<lparr>infun := 1\<rparr>)))"
  define n where "n = nat \<bar>lnargs (lv L)\<bar> mod 8"
  let ?u = "v1\<lparr>vparen := vparen v1 + 1\<rparr>" and ?k = "round_up (Suc (top v)) 8"
  from xparen_call [OF r f(1) v1_def n_def] obtain w z where w: "ex 1 ?u = Some (True, w)" "unat (infun w) = n"
    "z = putop (call_op (lnargs (lv L))) (w\<lparr>vparen := vparen w - 1,
        stakmaxsize := (if staksize w + int n \<ge> stakmaxsize w then staksize w + int n + int n else stakmaxsize w)\<rparr>)"
    "token E (z\<lparr>infun := infun v\<rparr>) = (A_RPAR, w')"
    by blast
  have nz: "nextchr z = nextchr w" by (simp add: w(3))
  note t = token_rpar [OF w(4) nz]
  note v = name_pre [OF at]
  have wv: "weight E v + 64 \<le> weight E v0" "weight E v0 < 2 ^ 15" "ARITH_HDR \<le> top v"
    using at f(4) v by (auto simp: at_name_def same_code_def weight_def pre_def)
  have u: "nextchr ?u = nextchr v" "infun ?u = 1" "top ?u = ?k + 9" "sized ?u" "weight E ?u \<le> weight E v + 17"
    using v round_up_le [of 8 "Suc (top v)"] by (auto simp: v1_def pre_def sized_def weight_def)
  have "pre E ?u"
    using u(1,2,4,5) wv f(3,4) len at v round_up_ge [of 8 "Suc (top v)"] by (auto simp: pre_def at_name_def v1_def)
  then have post: "post E 1 ?u \<rho> w" for \<rho> using ex w(1) by (simp add: call_ok_def)
  have g: "grow v \<tau> w' (None # \<tau>)" for \<tau>
  proof -
    obtain m where m: "adds E 1 ?u (Some ?k # \<tau>) w m" using post [of "Some ?k # \<tau>"] t(1) unfolding post_def by auto
    then have mn: "m = n" using w(2) u(2) by (simp add: adds_def)
    have "grow v \<tau> (putop 1 (putcell (CFun g) (putop A_PUSHF (stak_up v)))) (Some ?k # \<tau>)"
      by (rule grow_pushf) (use wv in \<open>auto simp: weight_def\<close>)
    then have "grow v \<tau> ?u (Some ?k # \<tau>)"
      using same_grow(1) [of ?u "putop 1 (putcell (CFun g) (putop A_PUSHF (stak_up v)))"] by (simp add: v1_def putop_def putcell_def)
    moreover have "grow ?u (Some ?k # \<tau>) w (replicate n None @ Some ?k # \<tau>)" using m mn by (simp add: adds_def)
    moreover have "grow w (replicate n None @ Some ?k # \<tau>) z (None # \<tau>)"
      unfolding w(3) by (rule grow_call [OF f(2) n_def]) (use m u(4) in \<open>auto simp: adds_def grow_def sized_def\<close>)
    ultimately have "grow v \<tau> z (None # \<tau>)" using grow_trans by blast
    then show ?thesis using same_grow(1) [OF t(2-4)] by simp
  qed
  have "nextchr ?u \<le> nextchr w" "nextchr w \<le> text_len E" "weight E w \<le> weight E ?u"
    using post [of "[]"] t(1) unfolding post_def by auto
  moreover have "weight E w' \<le> weight E w + 1" using t(2,6,7) w(3) calculation(2) by (auto simp: weight_def)
  ultimately show ?thesis using g t u(1,5) by (auto simp: pushes_def)
qed

lemma right_open:
  assumes ex: "call_ok E ex" and at: "at_name E p v0 e L v" and lp: "lprec L < 32" and lv: "lvalue (lv L) = None"
    and f: "lfun (lv L) = None \<or> nargs_ok (lnargs (lv L)) \<and> 63 \<notin> set (ptext E) \<and> nextchr v0 < e"
    and len: "text_len E \<le> 255"
  shows "iter_ok E p v0 \<sigma> (xright ex E A_LPAR (op_c A_LPAR) e None L v)"
proof -
  have sp: "seqpoint (strval_precedence ! A_LPAR)" by (simp add: strval_precedence_def)
  let ?L = "L\<lparr>wasop := 0, lv := (lv L)\<lparr>lfun := None\<rparr>\<rparr>"
  have "loop_inv E p v0 \<sigma> (?L\<lparr>invalid := False\<rparr>) w'" if r: "xparen ex E L v = Some (True, w')" for w'
  proof -
    have "pushes E v w' 18"
    proof (cases "lfun (lv L)")
      case None
      from open_group [OF ex at r this] show ?thesis by (simp add: pushes_def)
    next
      case (Some g)
      then show ?thesis using f open_call [OF ex at r Some _ _ _ len] by simp
    qed
    from name_pushes [OF at this, of "?L\<lparr>invalid := False\<rparr>"] show ?thesis using lv by simp
  qed
  then show ?thesis
    using lp sp xthen_post [of "xparen ex E L v" E p v0 \<sigma> ?L]
    by (auto simp: xright_def xswitch_def op_values put_assignop_def iter_ok_def split: iter.splits)
qed

section \<open>An iteration\<close>

text \<open>The value of a variable is pushed when its operator is known.\<close>

lemma put_left_pushes:
  assumes "sized v" "nextchr v \<le> text_len E" "put_left op b L v = (L', w)"
  shows "pushes E v w 19" and "\<not> invalid L'" "lprec L' = lprec L" "wasop L' = wasop L" "lfun (lv L') = lfun (lv L)"
    and "nextchr w = nextchr v" "\<not> seqpoint (strval_precedence ! op) \<Longrightarrow> lvalue (lv L') = None"
proof -
  define u where "u = (if op = A_EQ \<or> op = A_NEQ then putop A_ENUM v else v)"
  define c where "c = (if b then A_ASSIGNOP1 else A_PUSHV)"
  have up: "stak_up (putop x v) = putop x (stak_up v)" for x by (simp add: stak_up_def putop_def)
  have w: "w = putcell (CShort (lflag (flag0 (lv L)))) (putcell (CPtr (lvalue (lv L))) (putop c (stak_up u)))"
    using assms(3) by (auto simp: put_left_def Let_def u_def c_def up split: if_splits)
  have u: "grow v \<sigma> u \<sigma>" "top u \<le> top v + 1" "nextchr u = nextchr v" "infun u = infun v" for \<sigma>
    using grow_refl [OF assms(1)] grow_enum [OF assms(1)] by (simp_all add: u_def)
  have "grow u \<sigma> w (None # \<sigma>)" for \<sigma>
    unfolding w by (rule grow_putvar) (simp add: c_def)
  then have "grow v \<sigma> w (None # \<sigma>)" for \<sigma> using u(1) grow_trans by blast
  moreover have "top w \<le> top u + 18" using w round_up_le [of 8 "Suc (top u)"] by simp
  ultimately show "pushes E v w 19" using w u assms(2) by (auto simp: pushes_def weight_def)
  show "nextchr w = nextchr v" using w u(3) by simp
  have f: "lfun (flag0 (lv L)) = lfun (lv L)" by (simp add: flag0_def)
  show "\<not> invalid L'" "lprec L' = lprec L" "wasop L' = wasop L" "lfun (lv L') = lfun (lv L)"
    "\<not> seqpoint (strval_precedence ! op) \<Longrightarrow> lvalue (lv L') = None"
    using assms(3) f by (auto simp: put_left_def Let_def)
qed

lemma number_pushes:
  assumes "nextchr w = q" "q \<le> text_len E" "nextchr v \<le> q" "w = v\<lparr>nextchr := q\<rparr>"
  shows "pushes E v (putop t (putcell (CNum d) (stak_up (putop A_PUSHN w)))) 33"
proof -
  let ?u = "putop t (putcell (CNum d) (stak_up (putop A_PUSHN w)))"
  have "grow v \<sigma> ?u (None # \<sigma>)" for \<sigma>
    using grow_number [of w \<sigma> t d] same_grow(2) [of w v] assms(4) by simp
  moreover have "top ?u \<le> top v + 33" using round_up_le [of 16 "Suc (top w)"] assms(4) by simp
  moreover have "64 * (text_len E - q) \<le> 64 * (text_len E - nextchr v)" using assms(3) by simp
  ultimately show ?thesis using assms by (auto simp: pushes_def weight_def)
qed

lemma lit_operand:
  assumes "convert_ok E" "read_operand E A_LIT l pos = (q, l', d)" "Suc pos \<le> text_len E"
  shows "l' = l" "pos < q" "q \<le> text_len E"
proof -
  have esc: "Suc pos \<le> fst (pchresc E (Suc pos))" "fst (pchresc E (Suc pos)) \<le> text_len E"
    using assms(1,3) by (auto simp: convert_ok_def)
  have end_: "chr_at (ptext E) i = 39 \<Longrightarrow> Suc i \<le> text_len E" for i
    using chr_at_end [of "ptext E" i] by simp
  have "l' = l \<and> pos < q \<and> q \<le> text_len E"
    using assms(2) esc end_ [of "pos + 2"] end_ [of "fst (pchresc E (Suc pos))"]
    by (auto simp: read_operand_def Let_def split: if_splits prod.splits)
  then show "l' = l" "pos < q" "q \<le> text_len E" by simp_all
qed

lemma numbers_ok:
  assumes E: "text_ok E" "convert_ok E" and pre: "pre E v0" and st: "st_start v0 L v" "nextchr v0 \<le> nextchr v" "nextchr v \<le> text_len E"
    and lvl: "level_ok p L" and t: "tok E (nextchr v) = (op, nextchr v, i)" "op \<in> {A_DIG, A_REG, A_LIT}"
  shows "iter_ok E p v0 \<sigma> (xnumber E op L v)"
proof -
  define wide where "wide = (chr_at (ptext E) (nextchr v) = 76 \<and> chr_at (ptext E) (nextchr v + 1) = 39)"
  define pos where "pos = (if wide then nextchr v + 1 else nextchr v)"
  define op' where "op' = (if wide then A_LIT else op)"
  let ?l = "(lv L)\<lparr>lfloat := False\<rparr>"
  obtain q l d where r: "read_operand E op' ?l pos = (q, l, d)" by (cases "read_operand E op' ?l pos") auto
  define x where "x = v\<lparr>nextchr := q\<rparr>"
  let ?L = "L\<lparr>wasop := 0, lv := l, invalid := (if lfun l = None then False else invalid L)\<rparr>"
  have x: "xnumber E op L v = (if q = pos then Return (xerr E (if op' = A_LIT then e_charconst else e_synbad)
            (v\<lparr>nextchr := q, errmsg := map_option Evalue (lvalue l), errstr := (if lvalue l = None then errstr v else Some pos)\<rparr>))
      else Again ?L (if op' = A_DIG \<or> op' = A_LIT
                   then putop (if lfloat l then 1 else 0) (putcell (CNum d) (stak_up (putop A_PUSHN x))) else x))"
    using r by (simp add: xnumber_def wide_def pos_def op'_def x_def Let_def)
  have same: "same_code v0 v" and none: "lvalue ?l = None" "lfun ?l = None" "invalid L" using st(1) by (simp_all add: st_start_def)
  have val: "loop_inv E p v0 \<sigma> ?L (putop (if lfloat l then 1 else 0) (putcell (CNum d) (stak_up (putop A_PUSHN x))))"
    if "nextchr v < q" "q \<le> text_len E" "lvalue l = None" "lfun l = None"
  proof (rule again_value)
    have p: "pushes E (v\<lparr>nextchr := q\<rparr>) (putop (if lfloat l then 1 else 0) (putcell (CNum d) (stak_up (putop A_PUSHN x)))) 33"
      by (rule number_pushes [where w = x]) (use that in \<open>simp_all add: x_def\<close>)
    show "has_values E p v0 \<sigma> (putop (if lfloat l then 1 else 0) (putcell (CNum d) (stak_up (putop A_PUSHN x)))) 0"
      by (rule has_pushes [OF pre _ _ p]) (use same that st(2) in \<open>auto simp: same_code_def\<close>)
  qed (use that st(2) lvl in \<open>auto simp: x_def level_ok_def\<close>)
  show ?thesis
  proof (cases "q = pos")
    case False
    consider "op' = A_LIT" | "op' = A_DIG" "op = A_DIG" "\<not> wide" | "op' = A_REG" "op = A_REG" "\<not> wide" using t(2) by (cases wide) (auto simp: op'_def)
    then show ?thesis
    proof cases
      case 1
      have "Suc pos \<le> text_len E"
      proof (cases wide)
        case True
        then show ?thesis using chr_at_end [of "ptext E" "nextchr v + 1"] by (simp add: pos_def wide_def)
      next
        case False
        have "op \<noteq> A_EOF" using t(2) by auto
        obtain n where "tok_at (pcomma E) (getop (chr_at (ptext E) (nextchr v))) (chr_at (ptext E) (nextchr v)) (chr_at (ptext E) (nextchr v + 1)) = (op, n)"
          using gettok_tok [OF t(1)] by blast
        from tok_at_facts(6) [OF this gettok_at(4) [OF t(1)]] \<open>op \<noteq> A_EOF\<close>
        have "chr_at (ptext E) (nextchr v) \<noteq> 0" using getop_nonzero by blast
        then show ?thesis using False chr_at_end [of "ptext E" "nextchr v"] by (simp add: pos_def)
      qed
      note lit = lit_operand [OF E(2) r [unfolded 1] this]
      have "nextchr v < q" using lit(2) by (simp add: pos_def split: if_splits)
      from val [OF this lit(3)] none lit(1) show ?thesis using 1 False by (simp add: x)
    next
      case 2
      then have c: "pconvert E pos ?l = (q, l, d)" "pos = nextchr v" using r by (simp_all add: read_operand_def pos_def)
      have "pos \<le> q" "q \<le> text_len E" "lvalue l = None" "lfun l = None"
        using E(2) [unfolded convert_ok_def, THEN conjunct1, rule_format, of pos ?l] c st(3) none False t(1) 2(2) by auto
      then show ?thesis using val c(2) False 2(1) by (simp add: x)
    next
      case 3
      then have c: "pconvert E pos ?l = (q, l, d)" "pos = nextchr v" using r by (simp_all add: read_operand_def pos_def)
      have q: "pos \<le> q" "q \<le> text_len E" "lvalue l \<noteq> None \<and> lfun l = None \<or>
          lvalue l = None \<and> lfun l \<noteq> None \<and> nargs_ok (lnargs l) \<and> chr_at (ptext E) q = 40"
        using E(2) [unfolded convert_ok_def, THEN conjunct1, rule_format, of pos ?l] c st(3) none False t(1) 3(2) by auto
      have "loop_inv E p v0 \<sigma> ?L x"
        using q(3)
      proof (elim disjE)
        assume "lvalue l \<noteq> None \<and> lfun l = None"
        then have "st_var v0 ?L x" using same c(2) q False st(2) by (simp add: st_var_def same_code_def x_def)
        then show ?thesis using q st(2) c(2) lvl by (simp add: loop_inv_def level_ok_def x_def)
      next
        assume f: "lvalue l = None \<and> lfun l \<noteq> None \<and> nargs_ok (lnargs l) \<and> chr_at (ptext E) q = 40"
        have "lfun (fst (snd (pconvert E pos ?l))) \<noteq> None" using f c(1) by simp
        then have "\<not> no_functions E"
          using none(2) unfolding no_functions_def by (simp only: not_all not_imp) (rule exI [of _ pos], rule exI [of _ ?l], simp)
        then have "63 \<notin> set (ptext E)" using E(1) by (simp add: text_ok_def)
        then have "st_fun E v0 ?L x" using f same c(2) q False st(2) none(3) by (simp add: st_fun_def same_code_def x_def)
        then show ?thesis using q st(2) c(2) lvl by (simp add: loop_inv_def level_ok_def x_def)
      qed
      then show ?thesis using False 3(1) by (simp add: x)
    qed
  qed (simp add: x)
qed

subsection \<open>Any operator\<close>

lemma noassign_row:
  assumes "op \<in> {1..31}" "\<not> noassign (strval_precedence ! op)"
  shows "op \<in> assign_ops \<union> {A_ASSIGN}"
proof -
  have "op \<in> set [0..<32]" using assms(1) by auto
  from op_row [OF this] assms(2) show ?thesis by blast
qed

text \<open>Without a variable an assignment and an operator that takes no left operand are errors.\<close>

lemma right_error:
  assumes "op = A_ASSIGN \<and> lvalue (lv L) = None \<or> op = A_NOT \<or> op = A_TILDE" "lprec L < c" "c \<noteq> 0"
  shows "iter_ok E p v0 \<sigma> (xright ex E op c e None L v)"
  using assms by (elim disjE conjE)
    (auto simp: xright_def xswitch_def iter_ok_def Let_def xerr_def split: option.splits bool.splits iter.splits)

lemma right_stop:
  assumes "at_op E p v0 \<sigma> e L v" "c \<le> lprec L"
  shows "iter_ok E p v0 \<sigma> (xright ex E op c e a L v)"
  using stop_ok [OF assms(1)] assms(2) by (simp add: xright_def)

lemma right_any:
  assumes ex: "call_ok E ex" and at: "at_op E p v0 \<sigma> e L v" and op: "op \<in> {1..31}" "op \<noteq> A_EOF"
    and lv: "seqpoint (strval_precedence ! op) \<or> lvalue (lv L) = None" and q: "op \<in> {A_QUEST, A_QCOLON} \<Longrightarrow> 63 \<in> set (ptext E)"
  shows "iter_ok E p v0 \<sigma> (xright ex E op (op_c op) e None L v)"
proof -
  have "op \<in> binary_ops \<union> {A_QCOLON, A_ANDAND, A_OROR} \<union> {A_PLUSPLUS, A_MINUSMINUS} \<union>
      {A_LPAR, A_RPAR, A_COMMA, A_QUEST, A_COLON, A_ASSIGN, A_NOT, A_TILDE}"
  proof -
    have "\<forall>x \<in> set [2..<32]. x \<in> binary_ops \<union> {A_QCOLON, A_ANDAND, A_OROR} \<union> {A_PLUSPLUS, A_MINUSMINUS} \<union>
        {A_LPAR, A_RPAR, A_COMMA, A_QUEST, A_COLON, A_ASSIGN, A_NOT, A_TILDE}"
      by code_simp
    moreover have "op \<in> set [2..<32]" unfolding set_upt using op by (simp only: atLeastLessThan_iff atLeastAtMost_iff) linarith
    ultimately show ?thesis by blast
  qed
  then consider "op \<in> binary_ops" | "op \<in> {A_QCOLON, A_ANDAND, A_OROR}" | "op = A_PLUSPLUS \<or> op = A_MINUSMINUS" | "op = A_LPAR"
    | "op = A_RPAR" | "op = A_COMMA" | "op = A_QUEST" | "op = A_COLON" | "op = A_ASSIGN" | "op = A_NOT \<or> op = A_TILDE"
    by blast
  then show ?thesis
  proof cases
    case 1
    then show ?thesis using right_binary [OF ex at 1] lv op_table_at [OF 1] by blast
  next
    case 2
    show ?thesis by (rule right_logic [OF ex at 2 refl])
  next
    case 3
    show ?thesis by (rule right_incr [OF at 3])
  next
    case 4
    show ?thesis unfolding 4 by (rule right_lpar [OF at])
  next
    case 5
    show ?thesis unfolding 5 by (rule right_rpar [OF at])
  next
    case 6
    show ?thesis unfolding 6 by (rule right_comma [OF ex at])
  next
    case 7
    show ?thesis unfolding 7 by (rule right_quest [OF ex at q]) (simp add: 7)
  next
    case 8
    show ?thesis unfolding 8 by (rule right_stop [OF at]) (simp add: op_values)
  next
    case 9
    then have "lvalue (lv L) = None" using lv by (auto simp: strval_precedence_def)
    then show ?thesis using right_stop [OF at] right_error [of op L "op_c op"] 9 by (cases "op_c op \<le> lprec L") (auto simp: op_values)
  next
    case 10
    have "op_c op \<noteq> 0" using 10 by (auto simp: op_c_def strval_precedence_def)
    then show ?thesis using right_stop [OF at] right_error [of op L "op_c op"] 10 by (cases "op_c op \<le> lprec L") auto
  qed
qed

text \<open>The level of an operator that is not followed by \<open>=\<close>, or cannot be.\<close>

lemma op_level_plain:
  "noassign (strval_precedence ! op) \<or> chr_at (ptext E) (nextchr v) \<noteq> 61 \<Longrightarrow> op_level E op L v = Some (op_c op, None, L, v)"
  by (auto simp: op_level_def op_c_def Let_def)

lemma op_level_none: "lvalue (lv L) = None \<Longrightarrow> op_level E op L v = Some (op_c op, None, L, v) \<or> op_level E op L v = None"
  by (auto simp: op_level_def op_c_def Let_def)

text \<open>A variable is pushed before its operator.\<close>

lemma var_at_op:
  assumes pre: "pre E v0" and same: "same_code v0 v" and pos: "nextchr v0 < e" "e \<le> nextchr v" "nextchr v \<le> text_len E"
    and lvl: "level_ok p L" and f: "lfun (lv L) = None" and l: "put_left op b L v = (L', w)"
  shows "has_values E p v0 \<sigma> (w\<lparr>nextchr := e\<rparr>) 0" "e < nextchr v \<Longrightarrow> at_op E p v0 \<sigma> e L' w"
proof -
  have sz: "sized v" using pre same by (simp add: pre_def same_code_def sized_def)
  note pl = put_left_pushes [OF sz pos(3) l]
  have "pushes E (v\<lparr>nextchr := e\<rparr>) (w\<lparr>nextchr := e\<rparr>) 19"
    using pl(1,6) pos same_grow [of "w\<lparr>nextchr := e\<rparr>" w] same_grow(2) [of "v\<lparr>nextchr := e\<rparr>" v]
    by (auto simp: pushes_def weight_def)
  from has_pushes [OF pre _ _ this] show h: "has_values E p v0 \<sigma> (w\<lparr>nextchr := e\<rparr>) 0"
    using same pos by (simp add: same_code_def)
  then show "at_op E p v0 \<sigma> e L' w" if "e < nextchr v"
    using that pre lvl pl pos f by (simp add: at_op_def level_ok_def)
qed

lemma novar_ok:
  assumes "lvalue (lv L) = None" "lprec L \<le> 32"
    and "lprec L < 32 \<Longrightarrow> \<not> invalid L \<or> op \<le> A_ASSIGN \<Longrightarrow> iter_ok E p v0 \<sigma> (xright ex E op (op_c op) (errchr v) None L v)"
  shows "iter_ok E p v0 \<sigma> (xoperator ex E op L v)"
  using op_level_none [OF assms(1), of E op v] assms by (auto simp: xoperator_def)

lemma level_le: "level_ok p L \<Longrightarrow> lprec L \<le> 32"
  by (auto simp: level_ok_def)

text \<open>The end of the text, or an operator that is left to the caller.\<close>

lemma right_post: "c \<le> lprec L \<Longrightarrow> post E p v0 \<sigma> (v\<lparr>nextchr := e\<rparr>) \<Longrightarrow> iter_ok E p v0 \<sigma> (xright ex E op c e a L v)"
  by (simp add: xright_def)

lemma operator_value:
  assumes ex: "call_ok E ex" and pre: "pre E v0" and t: "token E v = (op, v1)" and op: "op \<in> {1..31}"
    and h: "has_values E p v0 \<sigma> v 0" "\<not> invalid L" "lvalue (lv L) = None" "lfun (lv L) = None" and lvl: "level_ok p L"
    and b: "nextchr v0 \<le> nextchr v" "nextchr v \<le> text_len E"
  shows "iter_ok E p v0 \<sigma> (xoperator ex E op L v1)"
proof (rule novar_ok [OF h(3) level_le [OF lvl]])
  note f = token_facts [OF t]
  let ?e = "errchr v1"
  have e: "?e \<le> text_len E" "nextchr v1 \<le> text_len E" using f(8,9) b(2) by linarith+
  have hh: "has_values E p v0 \<sigma> (v1\<lparr>nextchr := ?e\<rparr>) 0"
    by (rule has_move [OF h(1)]) (use f e in auto)
  have post: "post E p v0 \<sigma> (v1\<lparr>nextchr := ?e\<rparr>)"
    by (rule post_has [OF hh]) (use b(1) f(7) e(1) in auto)
  have at: "?e < nextchr v1 \<Longrightarrow> at_op E p v0 \<sigma> ?e L v1"
    using hh pre lvl b f(7) e h(2,4) by (auto simp: at_op_def)
  show "iter_ok E p v0 \<sigma> (xright ex E op (op_c op) ?e None L v1)"
  proof (cases "op = A_EOF")
    case True
    then have "op_c op \<le> lprec L" by (simp only: op_values le0)
    then show ?thesis using post by (rule right_post)
  next
    case False
    then have "?e < nextchr v1" using f(10) op by auto
    then show ?thesis
      using gettok_quest [OF f(5)] h(3) by (intro right_any [OF ex at op False]) auto
  qed
qed

lemma operator_var:
  assumes E: "text_ok E" and ex: "call_ok E ex" and pre: "pre E v0" and t: "token E v = (op, v1)" and op: "op \<in> {1..31}"
    and v: "same_code v0 v" "nextchr v0 < nextchr v" "nextchr v \<le> text_len E"
    and h: "\<not> invalid L" "lvalue (lv L) \<noteq> None" "lfun (lv L) = None" and lvl: "level_ok p L"
  shows "iter_ok E p v0 \<sigma> (xoperator ex E op L v1)"
proof -
  note f = token_facts [OF t]
  let ?e = "errchr v1"
  have same: "same_code v0 v1" using v(1) f(1-4) by (simp add: same_code_def)
  have len: "nextchr v1 \<le> text_len E" using f(9) v(3) by simp
  have pos: "nextchr v0 < ?e" using v(2) f(7) by simp
  have adv: "op \<noteq> A_EOF \<Longrightarrow> ?e < nextchr v1" using f(10) op by auto
  show ?thesis
  proof (cases "chr_at (ptext E) (nextchr v1) = 61 \<and> \<not> noassign (strval_precedence ! op)")
    case eq: True
    show ?thesis
    proof (cases "3 < lprec L")
      case True
      then show ?thesis using eq by (simp add: xoperator_def op_level_def Let_def)
    next
      case False
      have "op \<noteq> A_ASSIGN" using gettok_assign [of "pcomma E" "ptext E" ?e ?e "nextchr v1"] f(6) eq E by (auto simp: text_ok_def)
      with noassign_row [OF op] eq have as: "op \<in> assign_ops" by blast
      then have bin: "op \<in> binary_ops" by auto
      let ?L = "L\<lparr>lprec := (if lprec L = 3 then 2 else lprec L)\<rparr>" and ?v = "v1\<lparr>nextchr := nextchr v1 + 1\<rparr>"
      obtain L' w where l: "put_left op True ?L ?v = (L', w)" by force
      have o: "xoperator ex E op L v1 = xright ex E op 3 ?e (Some (lv L)) L' w"
        using eq False h(2) l \<open>op \<noteq> A_ASSIGN\<close> by (auto simp: xoperator_def op_level_def Let_def)
      have nx: "nextchr ?v \<le> text_len E" using eq chr_at_end [of "ptext E" "nextchr v1"] by simp
      have szv: "sized ?v" using pre same by (simp add: pre_def same_code_def sized_def)
      have "at_op E p v0 \<sigma> ?e L' w"
        by (rule var_at_op(2) [OF pre _ pos _ nx _ _ l]) (use same f(8) lvl False h(3) in \<open>auto simp: same_code_def level_ok_def\<close>)
      moreover have "lvalue (lv L') = None" using put_left_pushes(7) [OF szv nx l] op_table_at [OF bin] by blast
      ultimately show ?thesis unfolding o by (intro right_binary [OF ex _ bin]) (use as in auto)
    qed
  next
    case False
    then have lev: "op_level E op L v1 = Some (op_c op, None, L, v1)" by (intro op_level_plain) auto
    show ?thesis
    proof (cases "op = A_ASSIGN")
      case True
      have "at_name E p v0 ?e L v1" using pre lvl same pos adv True len by (simp add: at_name_def)
      from right_assign [OF ex this h(1,3)] have "iter_ok E p v0 \<sigma> (xright ex E A_ASSIGN (op_c A_ASSIGN) ?e None L v1)"
        using f(6) True by (simp add: op_values)
      then show ?thesis using True lev h(1) by (simp add: xoperator_def)
    next
      case no: False
      obtain L' w where l: "put_left op False L v1 = (L', w)" by force
      have o: "xoperator ex E op L v1 = xright ex E op (op_c op) ?e None L' w"
        using lev h(2) l no by (simp add: xoperator_def)
      have szv: "sized v1" using pre same by (simp add: pre_def same_code_def sized_def)
      note at = var_at_op [OF pre same pos f(8) len lvl h(3) l]
      note pl = put_left_pushes [OF szv len l]
      show ?thesis
      proof (cases "op = A_EOF")
        case True
        have "post E p v0 \<sigma> (w\<lparr>nextchr := ?e\<rparr>)" by (rule post_has [OF at(1)]) (use pos f(8) len in auto)
        then show ?thesis unfolding o by (intro right_post) (simp_all add: True op_values(1) [simplified])
      next
        case False
        show ?thesis
          unfolding o
        proof (rule right_any [OF ex at(2) [OF adv [OF False]] op False])
          show "seqpoint (strval_precedence ! op) \<or> lvalue (lv L') = None"
          proof (cases "seqpoint (strval_precedence ! op)")
            case sp: False
            show ?thesis by (rule disjI2, rule pl(7), rule sp)
          qed (rule disjI1)
          show "op \<in> {A_QUEST, A_QCOLON} \<Longrightarrow> 63 \<in> set (ptext E)" by (rule gettok_quest [OF f(5)])
        qed
      qed
    qed
  qed
qed

lemma operator_open:
  assumes ex: "call_ok E ex" and pre: "pre E v0" and t: "token E v = (A_LPAR, v1)" and h: "same_code v0 v" "lvalue (lv L) = None"
    and f: "lfun (lv L) = None \<or> nargs_ok (lnargs (lv L)) \<and> 63 \<notin> set (ptext E) \<and> nextchr v0 < errchr v1"
    and lvl: "level_ok p L" and b: "nextchr v0 \<le> nextchr v" "nextchr v \<le> text_len E" "text_len E \<le> 255"
  shows "iter_ok E p v0 \<sigma> (xoperator ex E A_LPAR L v1)"
proof (rule novar_ok [OF h(2) level_le [OF lvl]])
  note g = token_facts [OF t]
  assume lp: "lprec L < 32"
  have "at_name E p v0 (errchr v1) L v1"
    using g b pre lvl h(1) by (auto simp: at_name_def same_code_def)
  then show "iter_ok E p v0 \<sigma> (xright ex E A_LPAR (op_c A_LPAR) (errchr v1) None L v1)"
    by (rule right_open [OF ex _ lp h(2) f b(3)])
qed

lemma step_ok:
  assumes E: "text_ok E" "convert_ok E" and ex: "call_ok E ex" and pre: "pre E v0" and p: "p \<le> 32" and inv: "loop_inv E p v0 \<sigma> L v"
  shows "iter_ok E p v0 \<sigma> (loop_step ex E L v)"
proof -
  obtain op v1 where t: "token E v = (op, v1)" by force
  note f = token_facts [OF t]
  let ?e = "errchr v1" and ?L = "L\<lparr>wasop := wasop L + 1\<rparr>"
  have bounds: "nextchr v0 \<le> nextchr v" "nextchr v \<le> text_len E" and lvl: "level_ok p L"
    using inv p by (auto simp: loop_inv_def level_ok_def)
  have len: "nextchr v1 \<le> text_len E" using f(9) bounds by simp
  have toke: "tok E ?e = (op, ?e, nextchr v1)" by (rule f(6))
  show ?thesis
  proof (cases "op \<in> {A_DIG, A_REG, A_LIT}")
    case num: True
    have e: "nextchr v1 = ?e" using gettok_bounds(5) [OF f(5)] num by auto
    show ?thesis
    proof (cases "wasop L = 0")
      case False
      then have "st_start v0 L v" using inv by (auto simp: loop_inv_def st_value_def st_var_def st_fun_def st_junk_def st_eof_def)
      then have "st_start v0 L v1" using f(1-4) by (simp add: st_start_def same_code_def)
      from numbers_ok [OF E pre this _ len lvl _ num] toke e bounds f(7)
      have "iter_ok E p v0 \<sigma> (xnumber E op L v1)" by fastforce
      then show ?thesis using t num False by (auto simp: loop_step_def)
    qed (use t num in \<open>auto simp: loop_step_def\<close>)
  next
    case op: False
    have op31: "op \<in> {1..31}" using f(11) op by auto
    have adv: "op \<noteq> A_EOF \<Longrightarrow> ?e < nextchr v1" using f(10) op by auto
    show ?thesis
    proof (cases "wasop L \<noteq> 0 \<and> op \<noteq> A_LPAR")
      case True
      then show ?thesis using t op by (auto simp: loop_step_def)
    next
      case False
      have step: "loop_step ex E L v = xoperator ex E op ?L v1" using t op False by (auto simp: loop_step_def)
      have lvl': "level_ok p ?L" using lvl by (simp add: level_ok_def)
      have len255: "text_len E \<le> 255" using E(1) by (simp add: text_ok_def)
      from inv consider "st_start v0 L v" | "st_value E p v0 \<sigma> L v" | "st_var v0 L v" | "st_fun E v0 L v" | "st_junk E L v" | "st_eof E p v0 \<sigma> L v"
        by (auto simp: loop_inv_def)
      then have "iter_ok E p v0 \<sigma> (xoperator ex E op ?L v1)"
      proof cases
        case 1
        then have "op = A_LPAR" using False by (simp add: st_start_def)
        then show ?thesis
          using 1 operator_open [OF ex pre _ _ _ _ lvl' bounds len255] t by (simp add: st_start_def)
      next
        case 2
        then show ?thesis
          by (intro operator_value [OF ex pre t op31 _ _ _ _ lvl' bounds]) (auto simp: st_value_has)
      next
        case 3
        show ?thesis by (rule operator_var [OF E(1) ex pre t op31 _ _ bounds(2) _ _ _ lvl']) (use 3 in \<open>auto simp: st_var_def\<close>)
      next
        case 4
        then have c: "chr_at (ptext E) (nextchr v) = 40" by (simp add: st_fun_def)
        have "op = A_LPAR" "?e = nextchr v" using gettok_lpar [OF c, of "pcomma E"] f(5) by auto
        then show ?thesis
          using 4 operator_open [OF ex pre _ _ _ _ lvl' bounds len255] t by (simp add: st_fun_def)
      next
        case 5
        then have a: "op = A_ASSIGN" "lvalue (lv ?L) = None" using f(5) by (simp_all add: st_junk_def)
        show ?thesis
        proof (rule novar_ok [OF a(2) level_le [OF lvl']])
          show "iter_ok E p v0 \<sigma> (xright ex E op (op_c op) ?e None ?L v1)"
          proof (cases "op_c op \<le> lprec ?L")
            case True
            have "post E p v0 \<sigma> (v1\<lparr>nextchr := ?e\<rparr>)"
              using True a toke f(7,8) bounds len lvl by (auto simp: post_def op_values level_ok_def)
            then show ?thesis by (rule right_post [OF True])
          next
            case False
            show ?thesis by (rule right_error) (use a False in \<open>auto simp: op_values\<close>)
          qed
        qed
      next
        case 6
        then have a: "op = A_EOF" "lvalue (lv ?L) = None" using f(5) by (simp_all add: st_eof_def)
        show ?thesis
        proof (rule novar_ok [OF a(2) level_le [OF lvl']])
          have "post E p v0 \<sigma> (v1\<lparr>nextchr := ?e\<rparr>)"
            using 6 a toke f(1-4,7,8) bounds len same_grow(1) [of "v1\<lparr>nextchr := ?e\<rparr>" v] by (auto simp: post_def st_eof_def)
          moreover have "op_c op \<le> lprec ?L" unfolding a(1) op_values by (rule le0)
          ultimately show "iter_ok E p v0 \<sigma> (xright ex E op (op_c op) ?e None ?L v1)" by (intro right_post)
        qed
      qed
      then show ?thesis by (simp add: step)
    qed
  qed
qed

lemma loop_ok:
  assumes E: "text_ok E" "convert_ok E" and ex: "call_ok E ex" and pre: "pre E v0" and p: "p \<le> 32"
  shows "loop_inv E p v0 \<sigma> L v \<Longrightarrow> expr_loop n ex E L v = Some (True, w) \<Longrightarrow> post E p v0 \<sigma> w"
proof (induction n arbitrary: L v)
  case (Suc n)
  have "iter_ok E p v0 \<sigma> (loop_step ex E L v)" by (rule step_ok [OF E ex pre p Suc.prems(1)])
  then show ?case using Suc.IH Suc.prems(2) by (cases "loop_step ex E L v") auto
qed simp

lemma post_move:
  assumes "post E p u \<sigma> w" "stk u = stk v" "staksize u = staksize v" "stakmaxsize u = stakmaxsize v" "infun u = infun v" "nextchr v \<le> nextchr u"
  shows "post E p v \<sigma> w"
proof -
  have "weight E u \<le> weight E v" using assms(2,6) by (simp add: weight_def)
  then show ?thesis
    using assms(1,5,6) same_grow(2) [OF assms(2-4)] unfolding post_def adds_def by auto
qed

lemma prefix_ops: "prefix_op op = Some (b, c) \<Longrightarrow> b \<in> unary_codes \<and> (c = 31 \<or> c = 32) \<and> op \<notin> {A_EOF, A_DIG, A_REG, A_LIT}"
  by (auto simp: prefix_op_def split: if_splits)

lemma body_ok:
  assumes E: "text_ok E" "convert_ok E" and ex: "call_ok E ex" and pre: "pre E v" and p: "p \<le> 32"
    and r: "expr_body n ex E p v = Some (True, w)"
  shows "post E p v \<sigma> w"
proof -
  obtain op v1 where t: "token E v = (op, v1)" by force
  note f = token_facts [OF t]
  have len: "nextchr v1 \<le> text_len E" using f(9) pre by (simp add: pre_def)
  have same: "same_code v v1" using f(1-4) by (simp add: same_code_def)
  have lvl: "level_ok p (start_loc p i)" for i using p by (simp add: level_ok_def start_loc_def)
  consider "op = A_PLUS" | "op = A_EOF" | b c where "op \<noteq> A_PLUS" "op \<noteq> A_EOF" "prefix_op op = Some (b, c)"
    | "op \<noteq> A_PLUS" "op \<noteq> A_EOF" "prefix_op op = None"
    by (cases "prefix_op op") auto
  then show ?thesis
  proof cases
    case 1
    have "pre E v1"
      by (rule pre_more [OF pre]) (use f len pre in \<open>auto simp: pre_def weight_def sized_def\<close>)
    then have "post E p v1 \<sigma> w" using r t 1 ex p by (simp add: expr_body_def call_ok_def)
    then show ?thesis by (rule post_move) (use f in auto)
  next
    case 2
    then have "w = v1" "p \<le> 2" using r t by (auto simp: expr_body_def split: if_splits)
    moreover have "nextchr v1 = errchr v1"
      using f(5) 2 gettok_tok [OF f(5)] gettok_at(4) [OF f(5)] tok_at_facts(3) by (metis add_0_right insertI1)
    moreover have "grow v \<sigma> v1 \<sigma>"
      using grow_refl [of v \<sigma>] pre same_grow(1) [OF f(1-3)] by (simp add: pre_def)
    ultimately show ?thesis using f len 2 by (auto simp: post_def)
  next
    case (3 b c)
    note pf = prefix_ops [OF 3(3)]
    have adv: "nextchr v < nextchr v1" using f(7,10) pf by simp
    have prev1: "pre E v1"
      by (rule pre_more [OF pre]) (use f len pre in \<open>auto simp: pre_def weight_def sized_def\<close>)
    have "xdo (ex c v1) (\<lambda>z. expr_loop n ex E (start_loc p 0) (putop b z)) = Some (True, w)"
      using r t 3 by (simp add: expr_body_def)
    then obtain z where z: "ex c v1 = Some (True, z)" "expr_loop n ex E (start_loc p 0) (putop b z) = Some (True, w)"
      by (auto simp: xdo_def split: option.splits if_splits)
    have "loop_inv E p v \<sigma> (start_loc p 0) (putop b z)"
    proof -
      from call_pushes [OF ex prev1 _ _ z(1)] pf
      consider "pushes E v1 z 0" | "nextchr v1 \<le> nextchr z" "nextchr z \<le> text_len E" "fst (tok E (nextchr z)) = A_ASSIGN" by auto
      then show ?thesis
      proof cases
        case 1
        have "replaces E z (putop b z) 1"
          using grow_unary [of b z] pf pushes_sized [OF 1] prev1 1 weight_same [of "putop b z" z 1 E]
          by (simp add: replaces_def pushes_def pre_def)
        from has_pushes [OF pre same _ pushes_replaces [OF 1 this], of 0 p \<sigma>] adv
        have "has_values E p v \<sigma> (putop b z) 0" by simp
        then show ?thesis
          by (rule again_value) (use 1 adv lvl [of 0] in \<open>auto simp: start_loc_def pushes_def\<close>)
      next
        case 2
        show ?thesis by (rule again_junk) (use 2 adv lvl [of 0] in \<open>auto simp: start_loc_def\<close>)
      qed
    qed
    from loop_ok [OF E ex pre p this z(2)] show ?thesis .
  next
    case 4
    let ?v = "v1\<lparr>nextchr := errchr v1\<rparr>"
    have "expr_loop n ex E (start_loc p 1) ?v = Some (True, w)" using r t 4 by (simp add: expr_body_def)
    moreover have "loop_inv E p v \<sigma> (start_loc p 1) ?v"
      using same f(7,8) len by (auto simp: loop_inv_def st_start_def start_loc_def same_code_def)
    ultimately show ?thesis using loop_ok [OF E ex pre p] by blast
  qed
qed

lemma expr_ok: "text_ok E \<Longrightarrow> convert_ok E \<Longrightarrow> call_ok E (expr n E)"
proof (induction n)
  case (Suc n)
  then have "call_ok E (expr n E)" by blast
  note body = body_ok [OF Suc.prems this]
  show ?case unfolding expr.simps unfolding call_ok_def [of E "expr_body n (expr n E) E"] using body by blast
qed (simp add: call_ok_def)

end
