(* ===== verification/ArithRun.thy ===== *)
theory ArithRun
  imports ArithTyped
begin

text \<open>
  Compiling and running arithmetic expressions: typed code runs safely, what \<open>arith_compile\<close> returns is
  typed, and it returns for every text.
\<close>

section \<open>Errors\<close>

text \<open>When \<open>expr\<close> fails there is a message.\<close>

definition explains :: "(nat \<Rightarrow> ('f, 'v, 'm) vars \<Rightarrow> ('f, 'v, 'm) xres) \<Rightarrow> bool" where
  "explains ex \<longleftrightarrow> (\<forall>p v w. ex p v = Some (False, w) \<longrightarrow> errmsg w \<noteq> None)"

definition said :: "('f, 'v, 'm) xres \<Rightarrow> bool" where
  "said r \<longleftrightarrow> (\<forall>w. r = Some (False, w) \<longrightarrow> errmsg w \<noteq> None)"

lemma said_simps [simp]: "said (Some (True, w))" "said None" "said (xerr E e v)" "said (Some (False, w)) = (errmsg w \<noteq> None)"
  by (auto simp: said_def xerr_def seterror_def split: option.splits)

lemma said_call: "explains ex \<Longrightarrow> said (ex p v)"
  by (simp add: explains_def said_def)

lemma said_do: "said r \<Longrightarrow> (\<And>v. said (k v)) \<Longrightarrow> said (xdo r k)"
  by (auto simp: xdo_def split: option.splits)

definition said_iter :: "('f, 'v, 'm) iter \<Rightarrow> bool" where
  "said_iter i \<longleftrightarrow> (case i of Return r \<Rightarrow> said r | Again L v \<Rightarrow> True)"

lemma said_iter_simps [simp]: "said_iter (Return r) = said r" "said_iter (Again L v)"
  by (simp_all add: said_iter_def)

lemma said_then: "said r \<Longrightarrow> said_iter (xthen r L)"
  by (cases r) (auto simp: xthen_def split: bool.splits)

lemma said_if: "(b \<Longrightarrow> said r) \<Longrightarrow> (\<not> b \<Longrightarrow> said r') \<Longrightarrow> said (if b then r else r')"
  by simp

lemma said_token: "(\<And>t w. said (k t w)) \<Longrightarrow> said (case z of (t, w) \<Rightarrow> k t w)"
  by (cases z) simp

lemma said_paren:
  assumes "explains ex"
  shows "said (xparen ex E L v)"
  unfolding xparen_def Let_def
  by (intro said_if said_do said_call [OF assms] said_token) simp_all

lemma said_quest:
  assumes "explains ex"
  shows "said (xquest ex E v)"
  unfolding xquest_def Let_def
  by (intro said_token said_do said_call [OF assms] said_if) simp_all

lemma said_logic:
  assumes "explains ex"
  shows "said (xlogic ex op c v)"
  unfolding xlogic_def Let_def
  by (intro said_token said_do said_call [OF assms]) simp

lemma said_comma:
  assumes "explains ex"
  shows "said (xcomma ex c v)"
proof -
  define u where "u = (if infun v \<noteq> 0 then v\<lparr>infun := infun v + 1\<rparr> else stak_down (putop A_POP v))"
  show ?thesis
    unfolding xcomma_def u_def [symmetric] Let_def using said_call [OF assms, of c u]
    by (cases "ex c u") auto
qed

lemma said_switch: "explains ex \<Longrightarrow> said_iter (xswitch ex E op c e L v)"
  unfolding xswitch_def
  by (simp add: said_then said_paren said_quest said_logic said_comma)

lemma said_right:
  assumes "explains ex"
  shows "said_iter (xright ex E op c e a L v)"
proof -
  define d where "d = (if rassoc (strval_precedence ! op) then c - 1 else c)"
  define o' where "o' = (d < 2 * MAXPREC + 1 \<and> \<not> seqpoint (strval_precedence ! op))"
  define r where "r = (if o' then ex d v else Some (True, v))"
  have r: "said r" using said_call [OF assms, of d v] by (simp add: r_def)
  have sw: "said_iter (case xswitch ex E op d e L' w of Return r \<Rightarrow> Return r | Again L v \<Rightarrow> Again (L\<lparr>invalid := False\<rparr>) (put_assignop d a v))" for L' w
    using said_switch [OF assms, of E op d e L' w] by (cases "xswitch ex E op d e L' w") auto
  have "xright ex E op c e a L v = (if lprec L \<ge> c then Return (Some (True, v\<lparr>nextchr := e\<rparr>))
      else case r of Some (True, w) \<Rightarrow> (case xswitch ex E op d e (if o' then L\<lparr>wasop := 0\<rparr> else L) w of
          Return r \<Rightarrow> Return r | Again L v \<Rightarrow> Again (L\<lparr>invalid := False\<rparr>) (put_assignop d a v)) | r \<Rightarrow> Return r)"
    unfolding xright_def Let_def d_def o'_def r_def by (rule refl)
  then show ?thesis using r sw by (cases r) (auto split: bool.splits)
qed

lemma said_operator: "explains ex \<Longrightarrow> said_iter (xoperator ex E op L v)"
proof -
  assume ex: "explains ex"
  show ?thesis
  proof (cases "op_level E op L v")
    case (Some r)
    obtain c a L1 v1 where r: "r = (c, a, L1, v1)" by (cases r) auto
    obtain L2 v2 where p: "put_left op (a \<noteq> None) L1 v1 = (L2, v2)" by force
    show ?thesis unfolding xoperator_def Some r using said_right [OF ex] p by simp
  qed (simp add: xoperator_def)
qed

lemma said_step: "explains ex \<Longrightarrow> said_iter (loop_step ex E L v)"
proof -
  assume ex: "explains ex"
  obtain op w where t: "token E v = (op, w)" by force
  have "said_iter (xnumber E o' L w)" for o' by (simp add: xnumber_def Let_def split: prod.splits)
  then show ?thesis using said_operator [OF ex] t by (simp add: loop_step_def)
qed

lemma said_loop: "explains ex \<Longrightarrow> said (expr_loop n ex E L v)"
proof (induction n arbitrary: L v)
  case (Suc n)
  then show ?case using said_step [OF Suc.prems, of E L v] by (auto split: iter.splits)
qed simp

lemma said_expr: "explains (expr n E)"
proof (induction n)
  case (Suc n)
  have "said (expr_body n (expr n E) E p v)" for p v
  proof -
    obtain op w where t: "token E v = (op, w)" by force
    have "said (expr n E p w)" by (rule said_call [OF Suc])
    moreover have "said (xdo (expr n E c w) (\<lambda>v. expr_loop n (expr n E) E (start_loc p 0) (putop b v)))" for b c
      by (rule said_do [OF said_call [OF Suc] said_loop [OF Suc]])
    ultimately show ?thesis using said_loop [OF Suc] t by (simp add: expr_body_def split: option.split)
  qed
  then show ?case by (simp add: explains_def said_def)
qed (simp add: explains_def)

section \<open>Typed code\<close>

lemma typed_run:
  fixes X :: "('f, 'v, 'm, 's) xenv"
  assumes "seg C m ARITH_HDR [] b \<tau>" "C b = Some (COp 0)" "exact_offsets (xops X)" "b - ARITH_HDR < fuel"
  shows "\<exists>r. vm_run fuel X k C lev (init_vm (xops X) sh) = Some r \<and>
    (case r of Inl e \<Rightarrow> tame C m k e | Inr s \<Rightarrow> vpc s = b \<and> fits (xops X) C \<tau> s)"
proof -
  have "fits (xops X) C [] (init_vm (xops X) sh :: ('f, 'v, 's) vm)" "vpc (init_vm (xops X) sh) = ARITH_HDR"
    by (simp_all add: fits_def init_vm_def)
  from reaches_run [OF seg_sound [where k = k and lev = lev, OF assms(1) this(2,1) assms(3)] assms(2,4)]
  show ?thesis .
qed

text \<open>
  C14. Type soundness of the machine: code that the verifier types from the empty stack to \<open>\<tau>\<close> and that is followed by
  the end mark runs in no more steps than it has bytes; it never fetches an operand that is not there
  and never takes from an empty stack, it does not overflow the space for \<open>k\<close> numbers unless the verifier's bound \<open>m\<close> is
  larger or an \<open>A_POP\<close> occurs, and when it ends regularly there are as many numbers on the stack as \<open>\<tau>\<close> says.
\<close>

theorem typed_code_runs:
  fixes X :: "('f, 'v, 'm, 's) xenv"
  assumes "seg C m ARITH_HDR [] b \<tau>" "C b = Some (COp 0)" "exact_offsets (xops X)" "b - ARITH_HDR < fuel"
  shows "case vm_run fuel X k C lev (init_vm (xops X) sh) of
      None \<Rightarrow> False
    | Some (Inl e) \<Rightarrow> e \<noteq> BadFetch \<and> e \<noteq> StackUnder \<and> (int m \<le> k \<and> no_pop C \<longrightarrow> e \<noteq> StackOver)
    | Some (Inr s) \<Rightarrow> vpc s = b \<and> length (vsp s) = length \<tau>"
proof -
  obtain r where "vm_run fuel X k C lev (init_vm (xops X) sh) = Some r"
    "case r of Inl e \<Rightarrow> tame C m k e | Inr s \<Rightarrow> vpc s = b \<and> fits (xops X) C \<tau> s"
    using typed_run [OF assms, of k lev sh] by blast
  then show ?thesis by (cases r) (auto simp: tame_def dest: fits_length)
qed

section \<open>Compiled code\<close>

lemma init_vars_top: "top init_vars = ARITH_HDR" "staksize init_vars = 0" "infun init_vars = 0"
  by (simp_all add: init_vars_def)

lemma compiled_typed:
  assumes E: "text_ok E" "convert_ok E" and c: "arith_compile E Raise = Some (Code ep stop)"
  obtains m \<tau> where "seg (acode ep) m ARITH_HDR [] (ARITH_HDR + asize ep - 1) \<tau>" "acode ep (ARITH_HDR + asize ep - 1) = Some (COp 0)"
    "0 < asize ep" "(\<forall>i. acode ep i \<noteq> Some (COp A_STORE)) \<Longrightarrow> int m \<le> astaksize ep"
proof -
  define r where "r = expr (length (ptext E) + 2) E 0 init_vars"
  have ex: "explains (expr (length (ptext E) + 2) E)" by (rule said_expr)
  have c': "(case r of None \<Rightarrow> None | Some (ok, v) \<Rightarrow>
      (case (if ok then None else errmsg v) of None \<Rightarrow> Some (finish_code 0 (nextchr v) v) | Some m \<Rightarrow> Some (Raised m))) =
      Some (Code ep stop)"
    using c unfolding arith_compile_def r_def onmsg.case .
  have no: "errmsg w \<noteq> None" if "r = Some (False, w)" for w
    using ex that unfolding explains_def r_def by blast
  obtain v where v: "r = Some (True, v)" "Code ep stop = finish_code 0 (nextchr v) v"
  proof (cases r)
    case None
    then show ?thesis using c' by simp
  next
    case (Some z)
    then obtain ok w where z: "r = Some (ok, w)" by (cases z) auto
    show ?thesis
    proof (cases ok)
      case True
      then show ?thesis using c' z that by simp
    next
      case False
      then obtain m where "errmsg w = Some m" using no z by auto
      then show ?thesis using c' z False by simp
    qed
  qed
  have pre: "pre E init_vars" using E(1) by (simp add: pre_def init_vars_def weight_def sized_def text_ok_def)
  have p: "post E 0 init_vars [] v"
    using expr_ok [OF E] pre v(1) unfolding call_ok_def r_def by (meson le0)
  obtain \<tau> where g: "grow init_vars [] v \<tau>" using p init_vars_top(3) unfolding post_def adds_def by auto
  note t0 = init_vars_top
  have ep: "acode ep = (code v)(top v := Some (COp 0))" "asize ep = Suc (top v) - ARITH_HDR" "astaksize ep = stakmaxsize v + 1"
    using v(2) by (simp_all add: finish_code_def stkpush_def Let_def)
  have le: "ARITH_HDR \<le> top v" using grow_ext [OF g] by (simp add: ext_def t0)
  obtain m where m: "seg (code v) m ARITH_HDR [] (top v) \<tau>" "no_store v \<longrightarrow> int m \<le> stakmaxsize v"
    using g by (auto simp: grow_def t0)
  have "seg (acode ep) m ARITH_HDR [] (top v) \<tau>"
    by (rule seg_frame [OF m(1)]) (simp add: ep)
  moreover have "int m \<le> astaksize ep" if "\<forall>i. acode ep i \<noteq> Some (COp A_STORE)"
  proof -
    have "code v i \<noteq> Some (COp A_STORE)" if "i < top v" for i
      using \<open>\<forall>i. acode ep i \<noteq> Some (COp A_STORE)\<close> [rule_format, of i] that by (simp add: ep)
    then show ?thesis using m(2) ep(3) by (simp add: no_store_def)
  qed
  moreover have "ARITH_HDR + asize ep - 1 = top v" "0 < asize ep" "acode ep (top v) = Some (COp 0)"
    using ep le by simp_all
  ultimately show ?thesis by (intro that) auto
qed

text \<open>
  C8. Safety of compiled arithmetic: for a text of at most 255 bytes (and the other conditions of \<open>text_ok\<close>) and a
  conversion routine that keeps its contract, whatever \<open>arith_compile\<close> accepts is run by \<open>arith_exec\<close> to an end, in no
  more steps than the code has bytes, at any recursion level; it never fetches an operand that is not there or
  takes from an empty stack, and when the code has no \<open>A_STORE\<close> and no \<open>A_POP\<close> the space
  \<open>staksize\<close> the compiler computed is enough.
\<close>

theorem arith_code_safe:
  fixes X :: "('f, 'v, 'm, 's) xenv" and ep :: "('f, 'v, 'm) arith"
  assumes "text_ok E" "convert_ok E" "exact_offsets (xops X)" "arith_compile E Raise = Some (Code ep stop)" "asize ep \<le> fuel"
  shows "case arith_exec fuel X ep lev sh of
      None \<Rightarrow> False
    | Some (Inl e) \<Rightarrow> e \<noteq> BadFetch \<and> e \<noteq> StackUnder \<and>
        ((\<forall>i. acode ep i \<noteq> Some (COp A_STORE) \<and> acode ep i \<noteq> Some (COp A_POP)) \<longrightarrow> e \<noteq> StackOver)
    | Some (Inr r) \<Rightarrow> True"
proof -
  obtain m \<tau> where m: "seg (acode ep) m ARITH_HDR [] (ARITH_HDR + asize ep - 1) \<tau>"
      "acode ep (ARITH_HDR + asize ep - 1) = Some (COp 0)" "0 < asize ep"
      "(\<forall>i. acode ep i \<noteq> Some (COp A_STORE)) \<Longrightarrow> int m \<le> astaksize ep"
    using compiled_typed [OF assms(1,2,4)] by blast
  have le: "ARITH_HDR + asize ep - 1 - ARITH_HDR < fuel" using assms(5) m(3) by simp
  obtain r where "vm_run fuel X (astaksize ep) (acode ep) (lev + 1) (init_vm (xops X) sh) = Some r"
    "case r of Inl e \<Rightarrow> tame (acode ep) m (astaksize ep) e
       | Inr s \<Rightarrow> vpc s = ARITH_HDR + asize ep - 1 \<and> fits (xops X) (acode ep) \<tau> s"
    using typed_run [OF m(1,2) assms(3) le, of "astaksize ep" "lev + 1" sh] by blast
  then show ?thesis
    using m(4) by (cases r) (auto simp: arith_exec_def tame_def no_pop_def)
qed

end
