(* ===== verification/ArithEnds.thy ===== *)
theory ArithEnds
  imports ArithRun
begin

text \<open>
  The compiler of arithmetic returns for every text: a call of \<open>expr\<close> never goes back before the
  position where it starts, a round of its loop passes at least one character, and so do the
  tokens before a recursive call.
\<close>

section \<open>Positions\<close>

text \<open>The conversion routine and \<open>chresc\<close> go forward and stay within the text.\<close>

definition convert_forward :: "('f, 'v, 'm) penv \<Rightarrow> bool" where
  "convert_forward E \<longleftrightarrow>
     (\<forall>pos l. pos \<le> text_len E \<longrightarrow> pos \<le> fst (pconvert E pos l) \<and> fst (pconvert E pos l) \<le> text_len E) \<and>
     (\<forall>pos. pos \<le> text_len E \<longrightarrow> pos \<le> fst (pchresc E pos) \<and> fst (pchresc E pos) \<le> text_len E)"

text \<open>A result that is there, at a position from \<open>i\<close> on; a function with such results from \<open>j\<close> on.\<close>

definition ends :: "('f, 'v, 'm) penv \<Rightarrow> nat \<Rightarrow> ('f, 'v, 'm) xres \<Rightarrow> bool" where
  "ends E i r \<longleftrightarrow> (\<exists>b w. r = Some (b, w) \<and> i \<le> nextchr w \<and> nextchr w \<le> text_len E)"

definition calls :: "('f, 'v, 'm) penv \<Rightarrow> (nat \<Rightarrow> ('f, 'v, 'm) vars \<Rightarrow> ('f, 'v, 'm) xres) \<Rightarrow> nat \<Rightarrow> bool" where
  "calls E ex j \<longleftrightarrow> (\<forall>p v. j \<le> nextchr v \<and> nextchr v \<le> text_len E \<longrightarrow> ends E (nextchr v) (ex p v))"

definition moves :: "('f, 'v, 'm) penv \<Rightarrow> nat \<Rightarrow> nat \<Rightarrow> ('f, 'v, 'm) iter \<Rightarrow> bool" where
  "moves E i j it \<longleftrightarrow> (case it of Return r \<Rightarrow> ends E i r | Again L v \<Rightarrow> j \<le> nextchr v \<and> nextchr v \<le> text_len E)"

lemma ends_Some [simp]: "ends E i (Some (b, w)) = (i \<le> nextchr w \<and> nextchr w \<le> text_len E)"
  by (simp add: ends_def)

lemma moves_simps [simp]:
  "moves E i j (Return r) = ends E i r"
  "moves E i j (Again L v) = (j \<le> nextchr v \<and> nextchr v \<le> text_len E)"
  by (simp_all add: moves_def)

lemma ends_mono: "ends E j r \<Longrightarrow> i \<le> j \<Longrightarrow> ends E i r"
  by (fastforce simp: ends_def)

lemma ends_err: "i \<le> text_len E \<Longrightarrow> ends E i (xerr E e v)"
  by (simp add: xerr_def seterror_def)

lemma ends_if: "(b \<Longrightarrow> ends E i r) \<Longrightarrow> (\<not> b \<Longrightarrow> ends E i r') \<Longrightarrow> ends E i (if b then r else r')"
  by simp

lemma calls_mono: "calls E ex j \<Longrightarrow> j \<le> k \<Longrightarrow> calls E ex k"
  by (simp add: calls_def)

lemma ends_call: "calls E ex j \<Longrightarrow> j \<le> nextchr v \<Longrightarrow> nextchr v \<le> text_len E \<Longrightarrow> i \<le> nextchr v \<Longrightarrow> ends E i (ex p v)"
  using ends_mono by (fastforce simp: calls_def)

lemma ends_do:
  "ends E j r \<Longrightarrow> (\<And>v. j \<le> nextchr v \<Longrightarrow> nextchr v \<le> text_len E \<Longrightarrow> ends E j (k v)) \<Longrightarrow> ends E j (xdo r k)"
  by (auto simp: ends_def xdo_def)

lemma moves_then: "ends E j r \<Longrightarrow> i \<le> j \<Longrightarrow> moves E i j (xthen r L)"
  by (auto simp: ends_def xthen_def split: bool.splits)

lemma ends_token:
  assumes "nextchr v \<le> text_len E" "j \<le> nextchr v"
    and "\<And>t w. j \<le> nextchr w \<Longrightarrow> nextchr w \<le> text_len E \<Longrightarrow> ends E j (k t w)"
  shows "ends E j (case token E v of (t, w) \<Rightarrow> k t w)"
proof -
  obtain t e q where g: "gettok (pcomma E) (ptext E) (nextchr v) = (t, e, q)" by (metis prod_cases3)
  have "j \<le> q" "q \<le> text_len E" using gettok_bounds(1-3) [OF g] assms(1,2) by simp_all
  then show ?thesis using assms(3) by (simp add: token_def g)
qed

lemma nextchr_simps [simp]:
  "nextchr (putop b v) = nextchr v" "nextchr (putcell c v) = nextchr v"
  "nextchr (stak_up v) = nextchr v" "nextchr (stak_down v) = nextchr v"
  by (simp_all add: putop_def putcell_def stak_up_def stak_down_def)

section \<open>The branches of the switch\<close>

lemma ends_paren:
  assumes "calls E ex j" "j \<le> nextchr v" "nextchr v \<le> text_len E"
  shows "ends E j (xparen ex E L v)"
proof -
  have j: "j \<le> text_len E" using assms(2,3) by simp
  define v1 where "v1 = (case lfun (lv L) of
      Some f \<Rightarrow> putop 1 (putcell (CFun f) (putop A_PUSHF (stak_up v\<lparr>infun := 1\<rparr>)))
    | None \<Rightarrow> v\<lparr>infun := 0\<rparr>)"
  have "nextchr v1 = nextchr v" by (simp add: v1_def split: option.split)
  then have v1: "j \<le> nextchr v1" "nextchr v1 \<le> text_len E" using assms(2,3) by simp_all
  show ?thesis
    unfolding xparen_def v1_def [symmetric] Let_def
    by (intro ends_if ends_err ends_do ends_call [OF assms(1)] ends_token) (use v1 j in simp_all)
qed

lemma ends_quest:
  assumes "calls E ex j" "j \<le> nextchr v" "nextchr v \<le> text_len E"
  shows "ends E j (xquest ex E v)"
proof -
  obtain o1 s1 where s1: "stkpush (CShort 0) (stk (putop A_JMPZ v)) = (o1, s1)" by force
  show ?thesis
    unfolding xquest_def Let_def s1 prod.case
  proof (intro ends_do ends_call [OF assms(1)] ends_token)
    fix v2 :: "('a, 'b, 'c) vars" and t and w :: "('a, 'b, 'c) vars"
    assume w: "j \<le> nextchr w" "nextchr w \<le> text_len E"
    obtain o2 s2 where s2: "stkpush (CShort 0) (stk (putop A_JMP w)) = (o2, s2)" by force
    have "ends E j (xdo (ex 3 (putop A_POP (putop A_JMP w\<lparr>stk := patch o1 s2\<rparr>))) (\<lambda>v5. Some (True, v5\<lparr>stk := patch o2 (stk v5)\<rparr>)))"
      by (intro ends_do ends_call [OF assms(1)]) (use w in simp_all)
    then show "ends E j (if t \<noteq> A_COLON then xerr E e_questcolon w
         else (case stkpush (CShort 0) (stk (putop A_JMP w)) of
            (off2, s2) \<Rightarrow> xdo (ex 3 (putop A_POP (putop A_JMP w\<lparr>stk := patch o1 s2\<rparr>)))
                (\<lambda>v5. Some (True, v5\<lparr>stk := patch off2 (stk v5)\<rparr>))))"
      using w by (auto simp: s2 intro: ends_err)
  qed (use assms(2,3) in simp_all)
qed

lemma ends_logic:
  assumes "calls E ex j" "j \<le> nextchr v" "nextchr v \<le> text_len E"
  shows "ends E j (xlogic ex op c v)"
proof -
  obtain o1 s1 where s1: "stkpush (CShort 0) (stk (putop (if op = A_ANDAND then A_JMPZ else A_JMPNZ) v)) = (o1, s1)" by force
  show ?thesis
    unfolding xlogic_def Let_def s1 prod.case
    by (intro ends_do ends_call [OF assms(1)]) (use assms(2,3) in simp_all)
qed

lemma ends_comma:
  assumes "calls E ex j" "j \<le> nextchr v" "nextchr v \<le> text_len E"
  shows "ends E j (xcomma ex c v)"
proof -
  define u where "u = (if infun v \<noteq> 0 then v\<lparr>infun := infun v + 1\<rparr> else stak_down (putop A_POP v))"
  have "ends E j (ex c u)" by (rule ends_call [OF assms(1)]) (use assms(2,3) in \<open>simp_all add: u_def\<close>)
  then show ?thesis
    unfolding xcomma_def u_def [symmetric] Let_def by (auto simp: ends_def)
qed

lemma moves_switch:
  assumes "calls E ex j" "j \<le> nextchr v" "nextchr v \<le> text_len E" "i \<le> j" "i \<le> start" "start \<le> text_len E"
  shows "moves E i j (xswitch ex E op c start L v)"
proof -
  note j = order_trans [OF assms(2,3)]
  have i: "i \<le> text_len E" using assms(4) j by simp
  note b = ends_paren [OF assms(1-3)] ends_quest [OF assms(1-3)] ends_logic [OF assms(1-3)] ends_comma [OF assms(1-3)]
  show ?thesis
    unfolding xswitch_def
    using assms(2-6) by (simp add: moves_then b ends_err [OF i])
qed

lemma moves_right:
  assumes "calls E ex j" "j \<le> nextchr v" "nextchr v \<le> text_len E" "i \<le> j" "i \<le> start" "start \<le> text_len E"
  shows "moves E i j (xright ex E op c start a L v)"
proof -
  define d where "d = (if rassoc (strval_precedence ! op) then c - 1 else c)"
  define o' where "o' = (d < 2 * MAXPREC + 1 \<and> \<not> seqpoint (strval_precedence ! op))"
  define r where "r = (if o' then ex d v else Some (True, v))"
  have "ends E j (ex d v)" by (rule ends_call [OF assms(1-3,2)])
  then have "ends E j r" using assms(2,3) by (simp add: r_def)
  then obtain b w where r: "r = Some (b, w)" "j \<le> nextchr w" "nextchr w \<le> text_len E" by (auto simp: ends_def)
  have sw: "moves E i j (case xswitch ex E op d start L' w of Return r \<Rightarrow> Return r
      | Again L v \<Rightarrow> Again (L\<lparr>invalid := False\<rparr>) (put_assignop d a v))" for L'
    using moves_switch [OF assms(1) r(2,3) assms(4-6), of op d L']
    by (cases "xswitch ex E op d start L' w") (auto simp: put_assignop_def putvar_def split: option.splits)
  have "xright ex E op c start a L v = (if lprec L \<ge> c then Return (Some (True, v\<lparr>nextchr := start\<rparr>))
      else case r of Some (True, w) \<Rightarrow> (case xswitch ex E op d start (if o' then L\<lparr>wasop := 0\<rparr> else L) w of
          Return r \<Rightarrow> Return r | Again L v \<Rightarrow> Again (L\<lparr>invalid := False\<rparr>) (put_assignop d a v)) | r \<Rightarrow> Return r)"
    unfolding xright_def Let_def d_def o'_def r_def by (rule refl)
  then show ?thesis
    using sw r assms(4-6) by (cases b) simp_all
qed

section \<open>A round of the loop\<close>

lemma op_level_next:
  assumes "op_level E op L v = Some (c, a, L1, v1)" "nextchr v \<le> text_len E"
  shows "nextchr v \<le> nextchr v1" "nextchr v1 \<le> text_len E"
proof -
  have "nextchr v < text_len E" if "chr_at (ptext E) (nextchr v) = 61"
    by (rule chr_at_end) (simp add: that)
  then show "nextchr v \<le> nextchr v1" "nextchr v1 \<le> text_len E"
    using assms by (auto simp: op_level_def Let_def Suc_le_eq split: if_splits)
qed

lemma put_left_next: "put_left op a L v = (L', v') \<Longrightarrow> nextchr v' = nextchr v"
  by (auto simp: put_left_def Let_def)

lemma moves_operator:
  assumes "calls E ex j" "j \<le> nextchr v" "nextchr v \<le> text_len E" "i \<le> j" "i \<le> errchr v" "errchr v \<le> text_len E"
  shows "moves E i j (xoperator ex E op L v)"
proof -
  have i: "i \<le> text_len E" using assms by simp
  show ?thesis
  proof (cases "op_level E op L v")
    case (Some r)
    obtain c a L1 v1 where r: "r = (c, a, L1, v1)" by (cases r) auto
    note n = op_level_next [OF Some [unfolded r] assms(3)]
    obtain L2 v2 where p: "put_left op (a \<noteq> None) L1 v1 = (L2, v2)" by force
    have "moves E i j (xright ex E op c (errchr v) a L1 v1)" "moves E i j (xright ex E op c (errchr v) a L2 v2)"
      using n put_left_next [OF p] assms by (auto intro!: moves_right)
    then show ?thesis unfolding xoperator_def Some r using p by (auto simp: ends_err [OF i])
  qed (simp add: xoperator_def ends_err [OF i])
qed

text \<open>At the end of the text the loop ends.\<close>

lemma eof_returns:
  assumes "errchr v \<le> text_len E" "i \<le> errchr v"
  shows "moves E i j (xoperator ex E A_EOF L v)"
proof -
  have i: "i \<le> text_len E" using assms by simp
  have "op_level E A_EOF L v = Some (0, None, L, v)"
    by (simp add: op_level_def strval_precedence_def)
  moreover have "moves E i j (xright ex E A_EOF 0 (errchr v) a L' w)" for a L' w
    using assms by (simp add: xright_def)
  ultimately show ?thesis
    by (auto simp: xoperator_def ends_err [OF i] split: prod.splits)
qed

lemma read_next:
  assumes E: "convert_forward E" and pos: "pos < text_len E" and r: "read_operand E op l pos = (q, l', d)"
  shows "pos \<le> q" "q \<le> text_len E"
proof -
  have lit: "q' + 1 \<le> text_len E" if "chr_at (ptext E) q' = 39" for q'
    using chr_at_end [of "ptext E" q'] that by simp
  show "pos \<le> q" "q \<le> text_len E"
    using r E [unfolded convert_forward_def] pos lit [of "pos + 2"] lit [of "fst (pchresc E (pos + 1))"]
    by (auto simp: read_operand_def Let_def split: if_splits prod.splits)
      (metis Suc_leI Suc_leD fst_conv less_imp_le le_SucI)+
qed

lemma moves_number:
  assumes E: "convert_forward E" and v: "nextchr v < text_len E" "i \<le> nextchr v"
  shows "moves E i (nextchr v + 1) (xnumber E op L v)"
proof -
  define wide where "wide = (chr_at (ptext E) (nextchr v) = 76 \<and> chr_at (ptext E) (nextchr v + 1) = 39)"
  define pos where "pos = (if wide then nextchr v + 1 else nextchr v)"
  define o' where "o' = (if wide then A_LIT else op)"
  have pos: "nextchr v \<le> pos" "pos < text_len E"
    using v(1) chr_at_end [of "ptext E" "nextchr v + 1"] by (auto simp: pos_def wide_def)
  obtain q l d where r: "read_operand E o' ((lv L)\<lparr>lfloat := False\<rparr>) pos = (q, l, d)" by (metis prod_cases3)
  note n = read_next [OF E pos(2) r]
  have i: "i \<le> text_len E" using v by simp
  show ?thesis
    unfolding xnumber_def wide_def [symmetric] Let_def pos_def [symmetric] o'_def [symmetric] r prod.case
    using n pos v(2) by (auto simp: ends_err [OF i])
qed

lemma token_moves:
  assumes "token E v = (op, w)" "nextchr v \<le> text_len E"
  shows "nextchr v \<le> errchr w" "errchr w \<le> nextchr w" "nextchr w \<le> text_len E"
    "op \<notin> {A_EOF, A_DIG, A_REG, A_LIT} \<Longrightarrow> nextchr v < nextchr w"
    "op \<in> {A_DIG, A_REG, A_LIT} \<Longrightarrow> nextchr w < text_len E"
proof -
  obtain t e q where g: "gettok (pcomma E) (ptext E) (nextchr v) = (t, e, q)" by (metis prod_cases3)
  have w: "t = op" "errchr w = e" "nextchr w = q" using assms(1) by (auto simp: token_def g)
  note b = gettok_bounds [OF g]
  show "nextchr v \<le> errchr w" "errchr w \<le> nextchr w" "nextchr w \<le> text_len E"
    using b(1-3) assms(2) w by simp_all
  show "nextchr v < nextchr w" if "op \<notin> {A_EOF, A_DIG, A_REG, A_LIT}"
    using b(4) that b(1) w by simp
  show "nextchr w < text_len E" if op: "op \<in> {A_DIG, A_REG, A_LIT}"
  proof -
    obtain n where n: "tok_at (pcomma E) (getop (chr_at (ptext E) e)) (chr_at (ptext E) e) (chr_at (ptext E) (e + 1)) = (t, n)"
      using gettok_tok [OF g] by metis
    have "t \<noteq> A_EOF" using op w(1) by auto
    then have "getop (chr_at (ptext E) e) \<noteq> A_EOF" using tok_at_facts(6) [OF n gettok_at(4) [OF g]] by simp
    then have "e < text_len E" using getop_nonzero chr_at_end by blast
    then show ?thesis using b(5) op w by simp
  qed
qed

lemma moves_step:
  assumes E: "convert_forward E" and ex: "calls E ex (nextchr v + 1)" and v: "nextchr v \<le> text_len E"
  shows "moves E (nextchr v) (nextchr v + 1) (loop_step ex E L v)"
proof -
  obtain op w where t: "token E v = (op, w)" by force
  note f = token_moves [OF t v]
  have err: "ends E (nextchr v) (xerr E e w)" for e using v by (rule ends_err)
  have up: "moves E (nextchr v) (nextchr w + 1) it \<Longrightarrow> moves E (nextchr v) (nextchr v + 1) it" for it
    using f(1,2) by (cases it) simp_all
  have num: "moves E (nextchr v) (nextchr v + 1) (xnumber E op L w)" if "op \<in> {A_DIG, A_REG, A_LIT}"
    by (rule up, rule moves_number [OF E f(5) [OF that]]) (use f(1,2) in simp)
  have op: "moves E (nextchr v) (nextchr v + 1) (xoperator ex E op L' w)" if "op \<notin> {A_DIG, A_REG, A_LIT}" for L'
  proof (cases "op = A_EOF")
    case True
    then show ?thesis using eof_returns [of w E "nextchr v"] f(1-3) by simp
  next
    case False
    with that have "nextchr v < nextchr w" by (intro f(4)) simp
    then show ?thesis using f(1-3) v by (intro moves_operator [OF ex]) simp_all
  qed
  show ?thesis using num op err t by (auto simp: loop_step_def)
qed

lemma ends_loop:
  assumes E: "convert_forward E" and ex: "calls E ex (j + 1)"
  shows "text_len E + 1 \<le> m + nextchr v \<Longrightarrow> j \<le> nextchr v \<Longrightarrow> nextchr v \<le> text_len E \<Longrightarrow> ends E j (expr_loop m ex E L v)"
proof (induction m arbitrary: L v)
  case (Suc m)
  have step: "moves E (nextchr v) (nextchr v + 1) (loop_step ex E L v)"
    by (rule moves_step [OF E calls_mono [OF ex] Suc.prems(3)]) (use Suc.prems in simp)
  show ?case
  proof (cases "loop_step ex E L v")
    case (Return r)
    then show ?thesis using step Suc.prems(2) ends_mono by fastforce
  next
    case (Again L' w)
    then have "nextchr v + 1 \<le> nextchr w" "nextchr w \<le> text_len E" using step by simp_all
    then show ?thesis using Suc.IH [of w L'] Suc.prems Again by simp
  qed
qed simp

lemma calls_expr:
  assumes E: "convert_forward E"
  shows "text_len E + 2 \<le> n + j \<Longrightarrow> calls E (expr n E) j"
proof (induction n arbitrary: j)
  case (Suc n)
  have body: "ends E (nextchr v) (expr_body n (expr n E) E p v)" if v: "j \<le> nextchr v" "nextchr v \<le> text_len E" for p v
  proof -
    obtain op w where t: "token E v = (op, w)" by force
    note f = token_moves [OF t v(2)]
    have ex: "calls E (expr n E) (nextchr v + 1)" using Suc v(1) by simp
    have loop: "ends E (nextchr v) (expr_loop n (expr n E) E L u)" if "nextchr v \<le> nextchr u" "nextchr u \<le> text_len E" for L u
      using that Suc.prems v(1) by (intro ends_loop [OF E ex]) simp_all
    have call: "ends E (nextchr v) (expr n E c w)" if "op \<notin> {A_EOF, A_DIG, A_REG, A_LIT}" for c
      using f(1-3) f(4) [OF that] by (intro ends_call [OF ex]) simp_all
    have pre: "op \<notin> {A_EOF, A_DIG, A_REG, A_LIT}" if "op = A_PLUS \<or> prefix_op op \<noteq> None"
      using that by (auto simp: prefix_op_def split: if_splits)
    have un: "ends E (nextchr v) (xdo (expr n E c w) (\<lambda>v. expr_loop n (expr n E) E (start_loc p 0) (putop b v)))"
      if "prefix_op op = Some (b, c)" for b c
      using call pre that loop by (intro ends_do) simp_all
    have err: "ends E (nextchr v) (xerr E e w)" for e using v(2) by (rule ends_err)
    show ?thesis
    proof (cases "prefix_op op")
      case None
      then show ?thesis
        using call [of p] pre err loop f(1-3) t v(2) by (auto simp: expr_body_def)
    next
      case (Some z)
      then obtain b c where z: "prefix_op op = Some (b, c)" by (cases z) auto
      have "op \<noteq> A_PLUS" "op \<noteq> A_EOF" using z by (auto simp: prefix_op_def)
      then show ?thesis using un [OF z] t z by (simp add: expr_body_def)
    qed
  qed
  then show ?case by (simp add: calls_def)
next
  case 0
  then show ?case by (auto simp: calls_def)
qed

lemma init_vars_start: "nextchr init_vars = 0"
  by (simp add: init_vars_def)

text \<open>
  C15. Termination of the compiler: for every text, and a conversion routine that goes forward and stays within the
  text, \<open>arith_compile\<close> returns in every mode, with fuel two more than the length of the text; in the mode that
  raises errors, the position where a compiled expression ends is within the text.
\<close>

theorem arith_compile_returns:
  assumes "convert_forward E"
  shows "case arith_compile E mode of
      None \<Rightarrow> False
    | Some (Code ep stop) \<Rightarrow> mode = Raise \<longrightarrow> stop \<le> length (ptext E)
    | Some _ \<Rightarrow> True"
proof -
  have "calls E (expr (text_len E + 2) E) 0" by (rule calls_expr [OF assms]) simp
  then obtain ok v where v: "expr (text_len E + 2) E 0 init_vars = Some (ok, v)" "nextchr v \<le> text_len E"
    unfolding calls_def ends_def using init_vars_start by (metis le0)
  have ex: "explains (expr (text_len E + 2) E)" by (rule said_expr)
  have no: "errmsg v \<noteq> None" if "ok = False"
    using ex v(1) [unfolded that] unfolding explains_def by blast
  show ?thesis
  proof (cases "if ok then None else errmsg v")
    case None
    then show ?thesis unfolding arith_compile_def v(1) using v(2) no by (simp add: finish_code_def Let_def)
  next
    case (Some m)
    then show ?thesis unfolding arith_compile_def v(1) by (cases mode) (simp_all add: finish_code_def Let_def)
  qed
qed

end
