(* ===== verification/ArithWitness.thy ===== *)
theory ArithWitness
  imports ArithEnds
begin

text \<open>
  Concrete programs for the properties of \<open>ArithRun\<close> and \<open>ArithEnds\<close>: the text \<open>(1+2)*3\<close> with a conversion routine
  that reads one digit, on integers in place of floating point numbers.
\<close>

section \<open>An arithmetic on integers\<close>

definition int_ops :: "int fops" where
  "int_ops =
     \<lparr>fadd = (+), fsub = (-), fmul = (*), fdiv = (div), fpow = (\<lambda>x y. x ^ nat y), fneg = uminus,
      feq = (=), fle = (\<le>), flt = (<), of_long = sint, of_ulong = uint, to_long = word_of_int,
      to_ulong = word_of_int, llong_max = 2 ^ 63 - 1, ullong_max = 2 ^ 64 - 1, llong_min = - (2 ^ 63)\<rparr>"

definition int_env :: "(int, nat, nat, unit) xenv" where
  "int_env =
     \<lparr>xops = int_ops, xvalue = (\<lambda>sh n x. Inr (case nvalue n of None \<Rightarrow> 0 | Some k \<Rightarrow> int k, n, sh)), xassign = (\<lambda>sh n x. Inr (x, n, sh)),
      xcallf = (\<lambda>m xs. 0), xcalli = (\<lambda>m xs. 0), xcallfi = (\<lambda>m x i. x),
      xmathfun = (\<lambda>sh m xs. Inr (0, sh)), xfatal = True\<rparr>"

lemma int_exact: "exact_offsets (xops int_env)"
  by (simp add: exact_offsets_def int_env_def int_ops_def fnum_def)

section \<open>A text\<close>

definition demo_text :: "byte list" where
  "demo_text = [40, 49, 43, 50, 41, 42, 51]"

definition demo_convert :: "nat \<Rightarrow> (nat, nat) lval \<Rightarrow> nat \<times> (nat, nat) lval \<times> int" where
  "demo_convert pos l =
     (let c = chr_at demo_text pos
      in if is_digit c then (pos + 1, l, uint c - 48)
         else (pos, l, 0))"

definition demo_env :: "(int, nat, nat) penv" where
  "demo_env =
     \<lparr>ptext = demo_text, pconvert = demo_convert, pchresc = (\<lambda>pos. (pos, 0)), pbackslash = 92, pcomma = False\<rparr>"

lemma demo_text_ok: "text_ok demo_env"
proof -
  have "chr_at demo_text i \<noteq> 58" for i
  proof (cases "i < length demo_text")
    case True
    then have "chr_at demo_text i \<in> set demo_text" by (simp add: chr_at_def)
    then show ?thesis by (auto simp: demo_text_def)
  qed (simp add: chr_at_def)
  moreover have "no_functions demo_env"
    by (simp add: no_functions_def demo_env_def demo_convert_def Let_def)
  ultimately show ?thesis by (simp add: text_ok_def demo_env_def) (simp add: demo_text_def)
qed

lemma demo_tokens:
  "\<forall>pos \<in> set [0..<8]. is_digit (chr_at demo_text pos) \<longrightarrow> fst (gettok False demo_text pos) = A_DIG \<and> pos < 7"
  by code_simp

lemma demo_digit:
  assumes "pos \<le> 7" "is_digit (chr_at demo_text pos)"
  shows "fst (gettok False demo_text pos) = A_DIG" "pos < 7"
proof -
  have "pos \<in> set [0..<8]" using assms(1) by simp
  from bspec [OF demo_tokens this] assms(2)
  show "fst (gettok False demo_text pos) = A_DIG" "pos < 7" by blast+
qed

lemma demo_convert_ok: "convert_ok demo_env"
proof -
  have len: "length demo_text = 7" by (simp add: demo_text_def)
  show ?thesis
    unfolding convert_ok_def
    using demo_digit by (auto simp: demo_env_def demo_convert_def Let_def len Suc_le_eq)
qed

text \<open>It compiles, to at most 100 bytes of code whose value is 9.\<close>

lemma demo_runs:
  "case arith_compile demo_env Raise of
     Some (Code ep stop) \<Rightarrow>
       (case arith_exec 100 int_env ep 0 () of Some (Inr r) \<Rightarrow> asize ep \<le> 100 \<and> fst r = 9 | _ \<Rightarrow> False)
   | _ \<Rightarrow> False"
  by code_simp

section \<open>The properties at these inputs\<close>

theorem arith_code_safe_witness:
  "\<exists>ep stop. arith_compile demo_env Raise = Some (Code ep stop) \<and>
     (case arith_exec 100 int_env ep 0 () of
        None \<Rightarrow> False
      | Some (Inl e) \<Rightarrow> e \<noteq> BadFetch \<and> e \<noteq> StackUnder
      | Some (Inr r) \<Rightarrow> True)"
proof -
  obtain ep stop where c: "arith_compile demo_env Raise = Some (Code ep stop)" "asize ep \<le> 100"
    using demo_runs by (auto split: option.splits compiled.splits sum.splits)
  note safe = arith_code_safe [OF demo_text_ok demo_convert_ok int_exact c, of 0 "()"]
  have "case arith_exec 100 int_env ep 0 () of None \<Rightarrow> False | Some (Inl e) \<Rightarrow> e \<noteq> BadFetch \<and> e \<noteq> StackUnder | Some (Inr r) \<Rightarrow> True"
  proof (cases "arith_exec 100 int_env ep 0 ()")
    case (Some r)
    then show ?thesis using safe by (cases r) simp_all
  qed (use safe in simp)
  with c(1) show ?thesis by blast
qed

lemma demo_forward: "convert_forward demo_env"
proof -
  have len: "length demo_text = 7" by (simp add: demo_text_def)
  show ?thesis
    unfolding convert_forward_def
    using demo_digit by (auto simp: demo_env_def demo_convert_def Let_def len Suc_le_eq)
qed

theorem arith_compile_returns_witness:
  "case arith_compile demo_env Raise of None \<Rightarrow> False | Some (Code ep stop) \<Rightarrow> stop \<le> 7 | Some _ \<Rightarrow> True"
  using arith_compile_returns [OF demo_forward, of Raise]
  by (auto simp: demo_env_def demo_text_def split: option.splits compiled.splits)

definition demo_code :: "(int, nat, nat) code" where
  "demo_code = [32 \<mapsto> COp A_PUSHN, 48 \<mapsto> CNum 7, 64 \<mapsto> COp 1, 65 \<mapsto> COp A_UMINUS, 66 \<mapsto> COp 0]"

lemma demo_code_typed: "seg demo_code 1 ARITH_HDR [] 66 [None]"
proof (rule seg.s_seq)
  have "instr demo_code ARITH_HDR [] (48 + 17) [None]"
    by (rule i_pushn [where d = 7 and t = 1]) (simp_all add: demo_code_def round_up_def)
  then show "seg demo_code 1 ARITH_HDR [] 65 [None]" by (intro seg.s_instr) simp_all
  have "instr demo_code 65 [None] (Suc 65) [None]"
    by (rule i_unary [where c = A_UMINUS]) (simp_all add: demo_code_def)
  then show "seg demo_code 1 65 [None] 66 [None]" by (intro seg.s_instr) simp_all
qed

theorem typed_code_runs_witness:
  "case vm_run 40 int_env 1 demo_code 1 (init_vm (xops int_env) ()) of
     None \<Rightarrow> False
   | Some (Inl e) \<Rightarrow> e \<noteq> BadFetch \<and> e \<noteq> StackUnder
   | Some (Inr s) \<Rightarrow> vpc s = 66 \<and> length (vsp s) = 1"
proof -
  have "demo_code 66 = Some (COp 0)" "(66::nat) - ARITH_HDR < 40" by (simp_all add: demo_code_def)
  from typed_code_runs [OF demo_code_typed this(1) int_exact this(2), of 1 1 "()"]
  show ?thesis by (auto split: option.splits sum.splits)
qed

section \<open>The value of ?:\<close>

text \<open>
  C19. The value of \<open>a ?: b\<close> is normalised: the code the compiler writes for it ends with \<open>A_NOTNOT\<close>, because
  the opcode is overwritten by the jump before it is compared with \<open>A_QCOLON\<close>; the step of the machine there leaves
  the number 0 or 1, whatever the value of the operand was.
\<close>

theorem qcolon_normalised:
  assumes "xlogic ex A_QCOLON c v = Some (True, w)" "vpc s = tell (stk w) - 1"
    and "fetch_op (items (stk w)) (vpc s) = Inr o'" "vm_step X k (items (stk w)) lev o' s = Inr s'"
  shows "o' = A_NOTNOT \<and> vnum s' \<in> {fnum (xops X) 0, fnum (xops X) 1}"
proof -
  obtain u where u: "w = putop A_NOTNOT u"
    using assms(1) by (auto simp: xlogic_def Let_def xdo_def split: prod.splits option.splits if_splits)
  have "items (stk w) (vpc s) = Some (COp A_NOTNOT)"
    using assms(2) u by (simp add: putop_def stkpush_def Let_def)
  then have o': "o' = A_NOTNOT" using assms(3) by (simp add: fetch_op_def)
  have keep: "vnum s' = vnum t" if "vm_end A_NOTNOT t = Inr s'" for t
    using that by (auto simp: vm_end_def Let_def vbind_def split: list.splits sum.splits if_splits)
  have "vm_end A_NOTNOT (s\<lparr>vpc := vpc s + 1, vnum := fbool (xops X) (fnz (xops X) (vnum s)), vtype := 0\<rparr>) = Inr s'"
    using assms(4) o' by (simp add: vm_step_def vm_op_def check_nofloat_def Let_def)
  from keep [OF this] o' show ?thesis by (simp add: fbool_def)
qed

text \<open>At the value 5.\<close>

definition five :: "(int, nat, unit) vm" where
  "five = (init_vm int_ops ())\<lparr>vpc := 37, vnum := 5, vsp := [5], vtp := [0]\<rparr>"

theorem qcolon_normalised_witness:
  "case xlogic (\<lambda>p v. Some (True, v)) A_QCOLON 6 (init_vars :: (int, nat, nat) vars) of
     Some (True, w) \<Rightarrow>
       (case vm_step int_env 1 (items (stk w)) 1 A_NOTNOT five of Inr s' \<Rightarrow> vnum five = 5 \<and> vnum s' \<in> {0, 1} | Inl e \<Rightarrow> False)
   | _ \<Rightarrow> False"
proof -
  define r where "r = xlogic (\<lambda>p v. Some (True, v)) A_QCOLON 6 (init_vars :: (int, nat, nat) vars)"
  obtain w where w: "r = Some (True, w)" "tell (stk w) = 38" "items (stk w) 37 = Some (COp A_NOTNOT)"
    by (simp add: r_def xlogic_def xdo_def init_vars_def putop_def stkpush_def round_up_def patch_def Let_def)
  have pc: "vpc five = tell (stk w) - 1" by (simp add: five_def w)
  have f: "fetch_op (items (stk w)) (vpc five) = Inr A_NOTNOT" by (simp add: fetch_op_def five_def w)
  obtain s' where s': "vm_step int_env 1 (items (stk w)) 1 A_NOTNOT five = Inr s'"
    by (simp add: vm_step_def vm_op_def check_nofloat_def vm_end_def Let_def five_def)
  have "vnum s' \<in> {0, 1}"
    using qcolon_normalised [OF w(1) [unfolded r_def] pc f s'] by (simp add: int_env_def int_ops_def fnum_def)
  then show ?thesis using w(1) s' by (simp add: r_def five_def)
qed

end
