(* ===== verification/DtTree.thy ===== *)
theory DtTree
  imports KshPrelude "HOL-Library.Tree" "HOL-Library.Multiset"
begin

text \<open>
  Ordered dictionaries: the methods \<open>Dtoset\<close> and \<open>Dtobag\<close> of the library \<open>cdt\<close>
  (\<open>src/src/lib/libast/cdt/dttree.c\<close>, \<open>dtopen.c\<close>, \<open>cdtlib.h\<close>, \<open>include/cdt.h\<close>), which hold the
  shell's variables, functions and aliases.  A \<open>Dtlink_t*\<close> is a binary tree of objects (pointers
  of type \<open>'o\<close>); a node stands for a link and the object \<open>_DTOBJ\<close> gives for it.  Locks of shared
  dictionaries are not modelled.
\<close>

section \<open>Operations and disciplines\<close>

text \<open>The operation bits; the argument \<open>type\<close> is the set of its bits.\<close>

datatype dtop = DT_INSERT | DT_DELETE | DT_SEARCH | DT_NEXT | DT_PREV | DT_FIRST | DT_LAST
  | DT_MATCH | DT_ATTACH | DT_DETACH | DT_APPEND | DT_ATLEAST | DT_ATMOST | DT_REMOVE | DT_INSTALL
  | DT_RELINK | DT_FLATTEN | DT_CLEAR | DT_EXTRACT | DT_RESTORE | DT_STAT

abbreviation has :: "dtop set \<Rightarrow> dtop set \<Rightarrow> bool" where
  "has type bits \<equiv> type \<inter> bits \<noteq> {}"

definition DT_TOANNOUNCE :: "dtop set" where
  "DT_TOANNOUNCE = {DT_INSERT, DT_DELETE, DT_SEARCH, DT_NEXT, DT_PREV, DT_FIRST, DT_LAST, DT_MATCH,
     DT_ATTACH, DT_DETACH, DT_APPEND, DT_ATLEAST, DT_ATMOST, DT_REMOVE, DT_INSTALL}"

text \<open>
  \<open>Dtdisc_t\<close>: the key of an object, the comparison, the constructor and whether there are a
  destructor and an event routine; whether the link is embedded in the object (\<open>link >= 0\<close>) and,
  if not, whether there is memory for a holder.
\<close>

record ('o, 'k) dtdisc =
  dkey :: "'o \<Rightarrow> 'k"
  dcmp :: "'k \<Rightarrow> 'k \<Rightarrow> int"
  dmakef :: "('o \<Rightarrow> 'o option) option"
  dfreef :: bool
  deventf :: bool
  dembed :: bool
  dmemory :: "'o \<Rightarrow> bool"

text \<open>The calls of \<open>freef\<close>, \<open>memoryf\<close> (to free a holder) and \<open>eventf\<close>.\<close>

datatype 'o dtevent = FreeObj 'o | FreeHolder 'o | Announce "dtop set" 'o | Error_event

datatype dtmethod = Dtoset | Dtobag

text \<open>\<open>Dt_t\<close> with its \<open>Dttree_t\<close>; \<open>dold\<close> tells the 2005 interface (\<open>typef\<close>).\<close>

record 'o dt =
  droot :: "'o tree"
  dsize :: int
  dmeth :: dtmethod
  dannounce :: bool
  dold :: bool
  dlog :: "'o dtevent list"

definition dttype2005 :: "'o dt \<Rightarrow> dtop set \<Rightarrow> dtop set" where
  "dttype2005 dt type = (if type = {DT_DELETE} \<and> dmeth dt = Dtobag then {DT_REMOVE} else type)"

definition DTTYPE :: "'o dt \<Rightarrow> dtop set \<Rightarrow> dtop set" where
  "DTTYPE dt type = (if dold dt then dttype2005 dt type else type)"

definition DTANNOUNCE :: "('o, 'k) dtdisc \<Rightarrow> 'o option \<Rightarrow> dtop set \<Rightarrow> 'o dt \<Rightarrow> 'o dt" where
  "DTANNOUNCE D obj type dt =
     (case obj of
        None \<Rightarrow> dt
      | Some x \<Rightarrow>
          if has type DT_TOANNOUNCE \<and> dannounce dt \<and> deventf D
          then dt\<lparr>dlog := dlog dt @ [Announce type x]\<rparr> else dt)"

definition dtmake :: "('o, 'k) dtdisc \<Rightarrow> dtop set \<Rightarrow> 'o \<Rightarrow> 'o dt \<Rightarrow> 'o option \<times> 'o dt" where
  "dtmake D type obj dt =
     (case (if DT_ATTACH \<in> type then Some obj
            else (case dmakef D of None \<Rightarrow> Some obj | Some mk \<Rightarrow> mk obj)) of
        None \<Rightarrow> (None, dt)
      | Some x \<Rightarrow>
          if dembed D \<or> dmemory D x then (Some x, dt)
          else (None, dt\<lparr>dlog := dlog dt @ (if deventf D then [Error_event] else []) @
                  (if DT_ATTACH \<notin> type \<and> dmakef D \<noteq> None \<and> dfreef D then [FreeObj x] else [])\<rparr>))"

definition dtfree :: "('o, 'k) dtdisc \<Rightarrow> 'o \<Rightarrow> dtop set \<Rightarrow> 'o dt \<Rightarrow> 'o dt" where
  "dtfree D x type dt =
     dt\<lparr>dlog := dlog dt @ (if DT_DETACH \<notin> type \<and> dfreef D then [FreeObj x] else []) @
       (if \<not> dembed D then [FreeHolder x] else [])\<rparr>"

section \<open>Rotations\<close>

text \<open>\<open>while((t = root->_left)) RROTATE(root,t)\<close> and its mirror image.\<close>

function rot_min :: "'o tree \<Rightarrow> 'o tree" where
  "rot_min \<langle>\<langle>a, y, b\<rangle>, x, c\<rangle> = rot_min \<langle>a, y, \<langle>b, x, c\<rangle>\<rangle>"
| "rot_min \<langle>Leaf, x, c\<rangle> = \<langle>Leaf, x, c\<rangle>"
| "rot_min Leaf = Leaf"
  by pat_completeness auto
termination by (relation "measure (\<lambda>t. size (left t))") auto

function rot_max :: "'o tree \<Rightarrow> 'o tree" where
  "rot_max \<langle>a, x, \<langle>b, y, c\<rangle>\<rangle> = rot_max \<langle>\<langle>a, x, b\<rangle>, y, c\<rangle>"
| "rot_max \<langle>a, x, Leaf\<rangle> = \<langle>a, x, Leaf\<rangle>"
| "rot_max Leaf = Leaf"
  by pat_completeness auto
termination by (relation "measure (\<lambda>t. size (right t))") auto

text \<open>The loop at \<open>no_root\<close>: \<open>LLSHIFT\<close> two steps at a time, \<open>LROTATE\<close> at the end.\<close>

function lmax :: "'o tree \<Rightarrow> 'o tree" where
  "lmax \<langle>a, x, \<langle>b, y, \<langle>c, z, d\<rangle>\<rangle>\<rangle> = lmax \<langle>\<langle>a, x, \<langle>b, y, c\<rangle>\<rangle>, z, d\<rangle>"
| "lmax \<langle>a, x, \<langle>b, y, Leaf\<rangle>\<rangle> = \<langle>\<langle>a, x, b\<rangle>, y, Leaf\<rangle>"
| "lmax \<langle>a, x, Leaf\<rangle> = \<langle>a, x, Leaf\<rangle>"
| "lmax Leaf = Leaf"
  by pat_completeness auto
termination by (relation "measure (\<lambda>t. size (right t))") auto

text \<open>\<open>no_root\<close>: the LEFT and RIGHT trees become the tree.\<close>

definition join_trees :: "'o tree \<Rightarrow> 'o tree \<Rightarrow> 'o tree" where
  "join_trees l r = (case lmax l of Leaf \<Rightarrow> r | \<langle>a, x, b\<rangle> \<Rightarrow> \<langle>a, x, r\<rangle>)"

section \<open>The search\<close>

text \<open>
  The chain from \<open>link._rght\<close> to \<open>l\<close> (\<open>llink\<close> adds at its end) as the list of its nodes with
  their left subtrees, the last first; likewise from \<open>link._left\<close> to \<open>r\<close> with right subtrees.
\<close>

primrec zip_left :: "('o tree \<times> 'o) list \<Rightarrow> 'o tree \<Rightarrow> 'o tree" where
  "zip_left [] t = t"
| "zip_left (n # ns) t = zip_left ns \<langle>fst n, snd n, t\<rangle>"

primrec zip_right :: "('o \<times> 'o tree) list \<Rightarrow> 'o tree \<Rightarrow> 'o tree" where
  "zip_right [] t = t"
| "zip_right (n # ns) t = zip_right ns \<langle>t, fst n, snd n\<rangle>"

text \<open>The splay loop: the matching node, if any, and the two chains.\<close>

fun splay :: "('k \<Rightarrow> 'k \<Rightarrow> int) \<Rightarrow> ('o \<Rightarrow> 'k) \<Rightarrow> 'k \<Rightarrow> 'o tree \<Rightarrow> ('o tree \<times> 'o) list \<Rightarrow>
    ('o \<times> 'o tree) list \<Rightarrow> 'o tree \<times> ('o tree \<times> 'o) list \<times> ('o \<times> 'o tree) list" where
  "splay cmp ky key Leaf L R = (Leaf, L, R)"
| "splay cmp ky key \<langle>a, x, b\<rangle> L R =
     (if cmp key (ky x) = 0 then (\<langle>a, x, b\<rangle>, L, R)
      else if cmp key (ky x) < 0 then
        (case a of
           Leaf \<Rightarrow> (Leaf, L, (x, b) # R)
         | \<langle>a1, y, b1\<rangle> \<Rightarrow>
             if cmp key (ky y) < 0 then splay cmp ky key a1 L ((y, \<langle>b1, x, b\<rangle>) # R)
             else if cmp key (ky y) = 0 then (\<langle>a1, y, b1\<rangle>, L, (x, b) # R)
             else splay cmp ky key b1 ((a1, y) # L) ((x, b) # R))
      else
        (case b of
           Leaf \<Rightarrow> (Leaf, (a, x) # L, R)
         | \<langle>a1, y, b1\<rangle> \<Rightarrow>
             if cmp key (ky y) > 0 then splay cmp ky key b1 ((\<langle>a, x, a1\<rangle>, y) # L) R
             else if cmp key (ky y) = 0 then (\<langle>a1, y, b1\<rangle>, (a, x) # L, R)
             else splay cmp ky key a1 ((a, x) # L) ((y, b1) # R)))"

text \<open>
  Lines 396 to 460: the matching node's object, \<open>link._rght\<close> and \<open>link._left\<close>.  The root is not
  searched for when it holds \<open>obj\<close> itself.
\<close>

definition split_tree :: "('o, 'k) dtdisc \<Rightarrow> 'o option \<Rightarrow> 'k \<Rightarrow> 'o tree \<Rightarrow> 'o option \<times> 'o tree \<times> 'o tree" where
  "split_tree D obj key t =
     (case (if (case t of Leaf \<Rightarrow> True | \<langle>_, x, _\<rangle> \<Rightarrow> Some x = obj) then (t, [], [])
            else splay (dcmp D) (dkey D) key t [] []) of
        (Leaf, L, R) \<Rightarrow> (None, zip_left L Leaf, zip_right R Leaf)
      | (\<langle>a, x, b\<rangle>, L, R) \<Rightarrow> (Some x, zip_left L a, zip_right R b))"

section \<open>Equal objects of a bag\<close>

lemma size_rot_min [simp]: "size (rot_min t) = size t"
  by (induction t rule: rot_min.induct) auto

lemma size_rot_max [simp]: "size (rot_max t) = size t"
  by (induction t rule: rot_max.induct) auto

text \<open>\<open>troot\<close> for \<open>DT_ATMOST\<close>: the root moves to the first object of its group, and back.\<close>

function first_equal :: "('o \<Rightarrow> bool) \<Rightarrow> 'o tree \<Rightarrow> 'o \<Rightarrow> 'o tree \<Rightarrow> 'o tree \<times> 'o \<times> 'o tree" where
  "first_equal same l x r =
     (case rot_max l of
        Leaf \<Rightarrow> (Leaf, x, r)
      | \<langle>a, y, b\<rangle> \<Rightarrow> if \<not> same y then (\<langle>a, y, b\<rangle>, x, r) else first_equal same a y \<langle>b, x, r\<rangle>)"
  by pat_completeness auto
termination
proof (relation "measure (\<lambda>(same, l, x, r). size l)", goal_cases)
  case (2 same l x r a y b)
  then have "size (rot_max l) = size \<langle>a, y, b\<rangle>" by simp
  then show ?case by simp
qed simp

function last_equal :: "('o \<Rightarrow> bool) \<Rightarrow> 'o tree \<Rightarrow> 'o \<Rightarrow> 'o tree \<Rightarrow> 'o tree \<times> 'o \<times> 'o tree" where
  "last_equal same l x r =
     (case rot_min r of
        Leaf \<Rightarrow> (l, x, Leaf)
      | \<langle>a, y, b\<rangle> \<Rightarrow> if \<not> same y then (l, x, \<langle>a, y, b\<rangle>) else last_equal same \<langle>l, x, a\<rangle> y b)"
  by pat_completeness auto
termination
proof (relation "measure (\<lambda>(same, l, x, r). size r)", goal_cases)
  case (2 same l x r a y b)
  then have "size (rot_min r) = size \<langle>a, y, b\<rangle>" by simp
  then show ?case by simp
qed simp

text \<open>
  The two loops that look for \<open>obj\<close> itself among its equals: whether it was found, what is left of
  the LEFT (RIGHT) tree, and the objects passed, in the order they were met.
\<close>

function seek_left :: "('o \<Rightarrow> bool) \<Rightarrow> 'o option \<Rightarrow> 'o tree \<Rightarrow> 'o option \<times> 'o tree \<times> 'o list" where
  "seek_left same obj l =
     (case rot_max l of
        Leaf \<Rightarrow> (None, Leaf, [])
      | \<langle>a, y, b\<rangle> \<Rightarrow>
          if \<not> same y then (None, \<langle>a, y, b\<rangle>, [])
          else if Some y = obj then (Some y, a, [])
          else (case seek_left same obj a of (f, l', ys) \<Rightarrow> (f, l', y # ys)))"
  by pat_completeness auto
termination
proof (relation "measure (\<lambda>(same, obj, l). size l)", goal_cases)
  case (2 same obj l a y b)
  then have "size (rot_max l) = size \<langle>a, y, b\<rangle>" by simp
  then show ?case by simp
qed simp

function seek_right :: "('o \<Rightarrow> bool) \<Rightarrow> 'o option \<Rightarrow> 'o tree \<Rightarrow> 'o option \<times> 'o tree \<times> 'o list" where
  "seek_right same obj r =
     (case rot_min r of
        Leaf \<Rightarrow> (None, Leaf, [])
      | \<langle>a, y, b\<rangle> \<Rightarrow>
          if \<not> same y then (None, \<langle>a, y, b\<rangle>, [])
          else if Some y = obj then (Some y, b, [])
          else (case seek_right same obj b of (f, r', ys) \<Rightarrow> (f, r', y # ys)))"
  by pat_completeness auto
termination
proof (relation "measure (\<lambda>(same, obj, r). size r)", goal_cases)
  case (2 same obj r a y b)
  then have "size (rot_min r) = size \<langle>a, y, b\<rangle>" by simp
  then show ?case by simp
qed simp

text \<open>A chain linked by \<open>_left\<close> (\<open>_rght\<close>) whose last node gets the tree \<open>t\<close>.\<close>

definition left_chain :: "'o list \<Rightarrow> 'o tree \<Rightarrow> 'o tree" where
  "left_chain xs t = foldr (\<lambda>x s. \<langle>s, x, Leaf\<rangle>) xs t"

definition right_chain :: "'o list \<Rightarrow> 'o tree \<Rightarrow> 'o tree" where
  "right_chain xs t = foldr (\<lambda>x s. \<langle>Leaf, x, s\<rangle>) xs t"

text \<open>
  \<open>troot\<close>, for the key of \<open>obj\<close>.  The equal objects passed form the chain \<open>list\<close>: from the last
  one down for \<open>DT_NEXT\<close>, otherwise from the first one up.
\<close>

definition troot :: "('o, 'k) dtdisc \<Rightarrow> 'o tree \<Rightarrow> 'o \<Rightarrow> 'o tree \<Rightarrow> 'o option \<Rightarrow> 'k \<Rightarrow> dtop set \<Rightarrow>
    'o tree \<times> 'o \<times> 'o tree" where
  "troot D L x R obj key type =
     (let same = (\<lambda>y. dcmp D key (dkey D y) = 0) in
      if has type {DT_ATMOST, DT_ATLEAST} then
        (if DT_ATMOST \<in> type then first_equal same L x R else last_equal same L x R)
      else
        (case seek_left same obj L of
           (f, L, ys) \<Rightarrow>
             (case (if f = None then seek_right same obj R else (f, R, [])) of
                (f, R, zs) \<Rightarrow>
                  if DT_NEXT \<in> type then
                    (let c = rev zs @ x # ys in
                     case f of
                       Some y \<Rightarrow> (left_chain c L, y, R)
                     | None \<Rightarrow> (left_chain (List.tl c) L, hd c, R))
                  else
                    (let c = rev ys @ x # zs in
                     case f of
                       Some y \<Rightarrow> (L, y, right_chain c R)
                     | None \<Rightarrow> (L, hd c, right_chain (List.tl c) R)))))"

section \<open>Searching, inserting and deleting\<close>

text \<open>How an operation ends: the object returned, the bits to announce, the dictionary.\<close>

type_synonym 'o dtres = "'o option \<times> dtop set \<times> 'o dt"

definition has_root :: "'o tree \<Rightarrow> 'o \<Rightarrow> 'o tree \<Rightarrow> dtop set \<Rightarrow> 'o dt \<Rightarrow> 'o dtres" where
  "has_root L x R type dt = (Some x, type, dt\<lparr>droot := \<langle>L, x, R\<rangle>\<rparr>)"

definition no_root :: "'o option \<Rightarrow> 'o tree \<Rightarrow> 'o tree \<Rightarrow> dtop set \<Rightarrow> 'o dt \<Rightarrow> 'o dtres" where
  "no_root obj L R type dt =
     (if has type {DT_DELETE, DT_DETACH, DT_REMOVE} then obj else None, type,
      dt\<lparr>droot := join_trees L R\<rparr>)"

definition dt_next :: "'o option \<Rightarrow> 'o tree \<Rightarrow> 'o tree \<Rightarrow> dtop set \<Rightarrow> 'o dt \<Rightarrow> 'o dtres" where
  "dt_next obj L R type dt =
     (case rot_min R of
        Leaf \<Rightarrow> no_root obj L Leaf type dt
      | \<langle>_, x, r\<rangle> \<Rightarrow> has_root L x r type dt)"

definition dt_prev :: "'o option \<Rightarrow> 'o tree \<Rightarrow> 'o tree \<Rightarrow> dtop set \<Rightarrow> 'o dt \<Rightarrow> 'o dtres" where
  "dt_prev obj L R type dt =
     (case rot_max L of
        Leaf \<Rightarrow> no_root obj Leaf R type dt
      | \<langle>l, x, _\<rangle> \<Rightarrow> has_root l x R type dt)"

definition dt_delete :: "('o, 'k) dtdisc \<Rightarrow> 'o tree \<Rightarrow> 'o \<Rightarrow> 'o tree \<Rightarrow> dtop set \<Rightarrow> 'o dt \<Rightarrow> 'o dtres" where
  "dt_delete D L x R type dt =
     (let dt = dtfree D x type dt in no_root (Some x) L R type (dt\<lparr>dsize := dsize dt - 1\<rparr>))"

definition dt_insert :: "('o, 'k) dtdisc \<Rightarrow> 'o option \<Rightarrow> 'o tree \<Rightarrow> 'o tree \<Rightarrow> dtop set \<Rightarrow> 'o dt \<Rightarrow> 'o dtres" where
  "dt_insert D obj L R type dt =
     (case (case obj of None \<Rightarrow> (None, dt) | Some x \<Rightarrow> dtmake D type x dt) of
        (None, dt) \<Rightarrow> no_root None L R type dt
      | (Some y, dt) \<Rightarrow> has_root L y R type (dt\<lparr>dsize := dsize dt + 1\<rparr>))"

text \<open>The object \<open>me\<close> to relink is a duplicate.\<close>

definition dt_relink :: "('o, 'k) dtdisc \<Rightarrow> 'o \<Rightarrow> 'o tree \<Rightarrow> 'o \<Rightarrow> 'o tree \<Rightarrow> dtop set \<Rightarrow> 'o dt \<Rightarrow> 'o dtres" where
  "dt_relink D me L x R type dt =
     (if dmeth dt = Dtoset
      then has_root L x R type (DTANNOUNCE D (Some me) {DT_DELETE} (dtfree D me {DT_DELETE} dt))
      else has_root L x \<langle>Leaf, me, R\<rangle> type dt)"

text \<open>Lines 462 to 552: \<open>x\<close> matches, with the LEFT and RIGHT trees.\<close>

definition dt_found :: "('o, 'k) dtdisc \<Rightarrow> 'o option \<Rightarrow> 'k \<Rightarrow> 'o option \<Rightarrow> 'o tree \<Rightarrow> 'o \<Rightarrow> 'o tree \<Rightarrow>
    dtop set \<Rightarrow> 'o dt \<Rightarrow> 'o dtres" where
  "dt_found D obj key me L x R type dt =
     (case (if dmeth dt = Dtobag \<and>
               (has type {DT_ATLEAST, DT_ATMOST} \<or> (has type {DT_NEXT, DT_PREV, DT_REMOVE} \<and> Some x \<noteq> obj))
            then troot D L x R obj key type else (L, x, R)) of
        (L, x, R) \<Rightarrow>
          if has type {DT_SEARCH, DT_MATCH, DT_ATMOST, DT_ATLEAST} then has_root L x R type dt
          else if DT_NEXT \<in> type then dt_next obj \<langle>L, x, Leaf\<rangle> R type dt
          else if DT_PREV \<in> type then dt_prev obj L \<langle>Leaf, x, R\<rangle> type dt
          else if has type {DT_DELETE, DT_DETACH} then dt_delete D L x R type dt
          else if DT_REMOVE \<in> type then
            (if Some x = obj then dt_delete D L x R type dt
             else (None, type, dt\<lparr>droot := \<langle>L, x, R\<rangle>\<rparr>))
          else if has type {DT_INSERT, DT_APPEND, DT_ATTACH} then
            (if dmeth dt = Dtoset then has_root L x R (type \<union> {DT_MATCH}) dt
             else dt_insert D obj L \<langle>Leaf, x, R\<rangle> type dt)
          else if DT_INSTALL \<in> type then
            dt_insert D obj L R type (DTANNOUNCE D (Some x) {DT_DELETE} (dtfree D x {DT_DELETE} dt))
          else (case me of
                  Some y \<Rightarrow> dt_relink D y L x R type dt
                | None \<Rightarrow> (None, type, dt)))"

text \<open>Lines 553 to 596: nothing matches.\<close>

definition dt_absent :: "('o, 'k) dtdisc \<Rightarrow> 'o option \<Rightarrow> 'o option \<Rightarrow> 'o tree \<Rightarrow> 'o tree \<Rightarrow>
    dtop set \<Rightarrow> 'o dt \<Rightarrow> 'o dtres" where
  "dt_absent D obj me L R type dt =
     (if has type {DT_SEARCH, DT_MATCH} then no_root obj L R type dt
      else if has type {DT_NEXT, DT_ATLEAST} then dt_next obj L R type dt
      else if has type {DT_PREV, DT_ATMOST} then dt_prev obj L R type dt
      else if has type {DT_DELETE, DT_DETACH, DT_REMOVE} then no_root None L R type dt
      else if has type {DT_INSERT, DT_APPEND, DT_ATTACH, DT_INSTALL} then dt_insert D obj L R type dt
      else (case me of Some y \<Rightarrow> has_root L y R type dt | None \<Rightarrow> (None, type, dt)))"

definition dt_object :: "('o, 'k) dtdisc \<Rightarrow> 'o option \<Rightarrow> 'k \<Rightarrow> 'o option \<Rightarrow> dtop set \<Rightarrow> 'o dt \<Rightarrow> 'o dtres" where
  "dt_object D obj key me type dt =
     (case split_tree D obj key (droot dt) of
        (Some x, L, R) \<Rightarrow> dt_found D obj key me L x R type dt
      | (None, L, R) \<Rightarrow> dt_absent D obj me L R type dt)"

section \<open>First, last, clearing\<close>

definition tfirstlast :: "dtop set \<Rightarrow> 'o dt \<Rightarrow> 'o option \<times> 'o dt" where
  "tfirstlast type dt =
     (let t = (if DT_LAST \<in> type then rot_max (droot dt) else rot_min (droot dt))
      in (case t of Leaf \<Rightarrow> None | \<langle>_, x, _\<rangle> \<Rightarrow> Some x, dt\<lparr>droot := t\<rparr>))"

text \<open>The loop of \<open>tclear\<close> that frees the objects, the smallest first.\<close>

function tfree :: "('o, 'k) dtdisc \<Rightarrow> 'o tree \<Rightarrow> 'o dt \<Rightarrow> 'o dt" where
  "tfree D t dt =
     (case rot_min t of Leaf \<Rightarrow> dt | \<langle>_, x, r\<rangle> \<Rightarrow> tfree D r (dtfree D x {DT_DELETE} dt))"
  by pat_completeness auto
termination
proof (relation "measure (\<lambda>(D, t, dt). size t)", goal_cases)
  case (2 D t dt l x r)
  then have "size (rot_min t) = size \<langle>l, x, r\<rangle>" by simp
  then show ?case by simp
qed simp

definition tclear :: "('o, 'k) dtdisc \<Rightarrow> 'o dt \<Rightarrow> 'o dt" where
  "tclear D dt =
     (let root = droot dt; dt = dt\<lparr>droot := Leaf, dsize := 0\<rparr>
      in if \<not> dembed D \<or> dfreef D then tfree D root dt else dt)"

section \<open>Lists of links\<close>

text \<open>The objects of a list of links: what \<open>_rght\<close> leads to.\<close>

fun chain :: "'o tree \<Rightarrow> 'o list" where
  "chain Leaf = []"
| "chain \<langle>_, x, r\<rangle> = x # chain r"

text \<open>The loop of \<open>tlist\<close>: no node has a left child any more.\<close>

function tflat :: "'o tree \<Rightarrow> 'o tree" where
  "tflat t = (case rot_min t of Leaf \<Rightarrow> Leaf | \<langle>_, x, r\<rangle> \<Rightarrow> \<langle>Leaf, x, tflat r\<rangle>)"
  by pat_completeness auto
termination
proof (relation "measure size", goal_cases)
  case (2 t l x r)
  then have "size (rot_min t) = size \<langle>l, x, r\<rangle>" by simp
  then show ?case by simp
qed simp

definition tlist_out :: "dtop set \<Rightarrow> 'o dt \<Rightarrow> 'o list \<times> 'o dt" where
  "tlist_out type dt =
     (let list = tflat (droot dt)
      in (chain list, if DT_FLATTEN \<in> type then dt\<lparr>droot := list\<rparr> else dt\<lparr>droot := Leaf, dsize := 0\<rparr>))"

text \<open>The loop of \<open>DT_RESTORE\<close>: an object counts when the search gives it back.\<close>

primrec trelink :: "('o, 'k) dtdisc \<Rightarrow> 'o list \<Rightarrow> 'o dt \<Rightarrow> 'o dt" where
  "trelink D [] dt = dt"
| "trelink D (x # xs) dt =
     (case dt_object D (Some x) (dkey D x) (Some x) {DT_RELINK} dt of
        (r, _, dt) \<Rightarrow> trelink D xs (if r = Some x then dt\<lparr>dsize := dsize dt + 1\<rparr> else dt))"

definition tlist_in :: "('o, 'k) dtdisc \<Rightarrow> 'o list \<Rightarrow> 'o dt \<Rightarrow> 'o dt" where
  "tlist_in D xs dt = trelink D xs (dt\<lparr>dsize := 0\<rparr>)"

section \<open>Balancing and statistics\<close>

abbreviation (input) DT_MAXRECURSE :: nat where "DT_MAXRECURSE \<equiv> 1024"
abbreviation (input) DT_MAXSIZE :: nat where "DT_MAXSIZE \<equiv> 256"

text \<open>\<open>tbalance\<close>: a list of links into a tree; up to two links stay a list.\<close>

function tbalance :: "'o list \<Rightarrow> nat \<Rightarrow> 'o tree" where
  "tbalance xs sz =
     (if sz \<le> 2 then right_chain xs Leaf
      else let n = sz div 2 in
        \<langle>tbalance (take n xs) n, xs ! n, tbalance (drop (n + 1) xs) (sz - (n + 1))\<rangle>)"
  by pat_completeness auto
termination by (relation "measure (\<lambda>(xs, n). n)") auto

definition toptimize :: "'o dt \<Rightarrow> 'o dt" where
  "toptimize dt =
     (case tlist_out {DT_FLATTEN} dt of
        (xs, dt) \<Rightarrow> if xs = [] then dt else dt\<lparr>droot := tbalance xs (length xs)\<rparr>)"

text \<open>\<open>Dtstat_t\<close>, the fields the tree methods set.\<close>

record dtstat =
  smeth :: dtmethod
  ssize :: int
  sspace :: int
  smlev :: nat
  smsize :: nat
  slsize :: "nat list"

definition tlevel :: "nat \<Rightarrow> dtstat \<Rightarrow> dtstat" where
  "tlevel lev st =
     (let st = st\<lparr>smlev := (if lev > smlev st then lev else smlev st)\<rparr>
      in if lev < DT_MAXSIZE
         then st\<lparr>smsize := (if lev > smsize st then lev else smsize st),
                slsize := (slsize st)[lev := slsize st ! lev + 1]\<rparr>
         else st)"

fun tsize :: "'o tree \<Rightarrow> nat \<Rightarrow> dtstat \<Rightarrow> int \<times> dtstat" where
  "tsize Leaf lev st = (0, st)"
| "tsize \<langle>l, x, r\<rangle> lev st =
     (if lev \<ge> DT_MAXRECURSE then (-1, st)
      else (case tsize l (lev + 1) (tlevel lev st) of
              (y, st) \<Rightarrow>
                if y < 0 then (-1, st)
                else (case tsize r (lev + 1) st of
                        (z, st) \<Rightarrow> if z < 0 then (-1, st) else (1 + y + z, st))))"

text \<open>\<open>sizeof(Dttree_t)\<close> and \<open>sizeof(Dthold_t)\<close> on an LP64 target.\<close>

definition tstat :: "('o, 'k) dtdisc \<Rightarrow> 'o dt \<Rightarrow> int \<times> dtstat" where
  "tstat D dt =
     (case tsize (droot dt) 0 \<lparr>smeth = dmeth dt, ssize = 0, sspace = 0, smlev = 0, smsize = 0,
             slsize = replicate DT_MAXSIZE 0\<rparr> of
        (n, st) \<Rightarrow> (n, st\<lparr>ssize := n, sspace := 120 + (if dembed D then 0 else n * 24)\<rparr>))"

section \<open>The search function\<close>

text \<open>
  What \<open>obj\<close> points to, and what is returned.  A call with an argument of another kind than its
  operation needs has no meaning in C; the model gives \<open>None\<close>.
\<close>

datatype ('o, 'k) dtarg = NoArg | Obj 'o | Key 'k | Link 'o | Links "'o list" | StatBuf

datatype 'o dtret = Ret "'o option" | RetLinks "'o list" | RetSize int "dtstat option"

definition dt_return :: "('o, 'k) dtdisc \<Rightarrow> 'o dtres \<Rightarrow> 'o dtret \<times> 'o dt" where
  "dt_return D r = (case r of (obj, type, dt) \<Rightarrow> (Ret obj, DTANNOUNCE D obj type dt))"

definition dttree :: "('o, 'k) dtdisc \<Rightarrow> ('o, 'k) dtarg \<Rightarrow> dtop set \<Rightarrow> 'o dt \<Rightarrow> 'o dtret \<times> 'o dt" where
  "dttree D arg type0 dt =
     (let type = DTTYPE dt type0 in
      if type = {} then (Ret None, dt)
      else if has type {DT_FIRST, DT_LAST} then
        (case tfirstlast type dt of (obj, dt) \<Rightarrow> dt_return D (obj, type, dt))
      else if has type {DT_EXTRACT, DT_RESTORE, DT_FLATTEN} then
        (if has type {DT_FLATTEN, DT_EXTRACT}
         then (case tlist_out type dt of (xs, dt) \<Rightarrow> (RetLinks xs, dt))
         else (case arg of Links xs \<Rightarrow> (RetLinks xs, tlist_in D xs dt)
               | _ \<Rightarrow> (RetLinks [], dt\<lparr>dsize := 0\<rparr>)))
      else if DT_CLEAR \<in> type then (Ret None, tclear D dt)
      else if DT_STAT \<in> type then
        (let dt = toptimize dt in
         case arg of
           StatBuf \<Rightarrow> (case tstat D dt of (n, st) \<Rightarrow> (RetSize n (Some st), dt))
         | _ \<Rightarrow> (RetSize (dsize dt) None, dt))
      else (case arg of
              Link x \<Rightarrow>
                if DT_RELINK \<in> type
                then dt_return D (dt_object D (Some x) (dkey D x) (Some x) type dt)
                else (Ret None, dt)
            | Key k \<Rightarrow>
                if DT_RELINK \<notin> type \<and> DT_MATCH \<in> type
                then dt_return D (dt_object D None k None type dt)
                else (Ret None, dt)
            | Obj x \<Rightarrow>
                if DT_RELINK \<notin> type \<and> DT_MATCH \<notin> type
                then dt_return D (dt_object D (Some x) (dkey D x) None type dt)
                else (Ret None, dt)
            | _ \<Rightarrow> (Ret None, dt)))"

text \<open>The dictionary \<open>_dtopen\<close> makes for one of these methods.\<close>

definition dtopen :: "dtmethod \<Rightarrow> bool \<Rightarrow> 'o dt" where
  "dtopen meth old =
     \<lparr>droot = Leaf, dsize = 0, dmeth = meth, dannounce = False, dold = old, dlog = []\<rparr>"

text \<open>Equations that unfold without end are used one step at a time.\<close>

declare first_equal.simps [simp del] last_equal.simps [simp del] seek_left.simps [simp del]
  seek_right.simps [simp del] tfree.simps [simp del] tflat.simps [simp del] tbalance.simps [simp del]

end
