(* ===== verification/DtOrder.thy ===== *)
theory DtOrder
  imports DtTree
begin

text \<open>
  What the tree methods do to the sequence of objects.  The rotations and the splay loop keep it;
  under an ordering of the keys a search splits it into the objects before, equal to and after
  the key.
\<close>

section \<open>Rotations keep the sequence\<close>

lemma rot_min_inorder [simp]: "inorder (rot_min t) = inorder t"
  by (induction t rule: rot_min.induct) auto

lemma rot_max_inorder [simp]: "inorder (rot_max t) = inorder t"
  by (induction t rule: rot_max.induct) auto

lemma lmax_inorder [simp]: "inorder (lmax t) = inorder t"
  by (induction t rule: lmax.induct) auto

lemma rot_min_left: "rot_min t = \<langle>a, x, b\<rangle> \<Longrightarrow> a = Leaf"
  by (induction t rule: rot_min.induct) auto

lemma rot_max_right: "rot_max t = \<langle>a, x, b\<rangle> \<Longrightarrow> b = Leaf"
  by (induction t rule: rot_max.induct) auto

lemma lmax_right: "lmax t = \<langle>a, x, b\<rangle> \<Longrightarrow> b = Leaf"
  by (induction t rule: lmax.induct) auto

lemma inorder_Leaf [simp]: "inorder t = [] \<longleftrightarrow> t = Leaf"
  by (cases t) auto

lemma rot_min_Leaf [simp]: "rot_min t = Leaf \<longleftrightarrow> t = Leaf"
  by (simp add: inorder_Leaf [symmetric] del: inorder_Leaf)

lemma rot_max_Leaf [simp]: "rot_max t = Leaf \<longleftrightarrow> t = Leaf"
  by (simp add: inorder_Leaf [symmetric] del: inorder_Leaf)

lemma lmax_Leaf [simp]: "lmax t = Leaf \<longleftrightarrow> t = Leaf"
  by (simp add: inorder_Leaf [symmetric] del: inorder_Leaf)

lemma rot_min_Node: "rot_min t = \<langle>a, x, b\<rangle> \<Longrightarrow> inorder t = x # inorder b"
  using rot_min_left [of t] rot_min_inorder [of t] by fastforce

lemma rot_max_Node: "rot_max t = \<langle>a, x, b\<rangle> \<Longrightarrow> inorder t = inorder a @ [x]"
  using rot_max_right [of t] rot_max_inorder [of t] by fastforce

lemma join_inorder [simp]: "inorder (join_trees l r) = inorder l @ inorder r"
proof (cases "lmax l")
  case Leaf
  then have "l = Leaf" by simp
  then show ?thesis by (simp add: join_trees_def)
next
  case (Node a x b)
  then have "inorder l = inorder a @ [x]" using lmax_right [OF Node] lmax_inorder [of l] by simp
  with Node show ?thesis by (simp add: join_trees_def)
qed

section \<open>The splay loop\<close>

definition left_items :: "('o tree \<times> 'o) list \<Rightarrow> 'o list" where
  "left_items L = concat (map (\<lambda>n. inorder (fst n) @ [snd n]) (rev L))"

definition right_items :: "('o \<times> 'o tree) list \<Rightarrow> 'o list" where
  "right_items R = concat (map (\<lambda>n. fst n # inorder (snd n)) R)"

lemma items_simps [simp]:
  "left_items [] = []" "left_items (n # L) = left_items L @ inorder (fst n) @ [snd n]"
  "right_items [] = []" "right_items (m # R) = fst m # inorder (snd m) @ right_items R"
  by (simp_all add: left_items_def right_items_def)

lemma zip_left_inorder [simp]: "inorder (zip_left L t) = left_items L @ inorder t"
  by (induction L arbitrary: t) auto

lemma zip_right_inorder [simp]: "inorder (zip_right R t) = inorder t @ right_items R"
  by (induction R arbitrary: t) auto

lemma splay_inorder:
  "splay cmp ky key t L R = (s, L', R') \<Longrightarrow>
   left_items L' @ inorder s @ right_items R' = left_items L @ inorder t @ right_items R"
  by (induction cmp ky key t L R rule: splay.induct) (auto split: if_splits tree.splits)

lemma splay_match: "splay cmp ky key t L R = (\<langle>a, x, b\<rangle>, L', R') \<Longrightarrow> cmp key (ky x) = 0"
  by (induction cmp ky key t L R rule: splay.induct) (auto split: if_splits tree.splits)

text \<open>A search either is for the root itself or runs the loop.\<close>

lemma split_tree_cases:
  assumes "split_tree D obj key t = (m, L, R)"
  obtains (root) x a b where "t = \<langle>a, x, b\<rangle>" "obj = Some x" "m = Some x" "L = a" "R = b"
  | (found) x a b L' R' where "splay (dcmp D) (dkey D) key t [] [] = (\<langle>a, x, b\<rangle>, L', R')" "m = Some x"
      "L = zip_left L' a" "R = zip_right R' b"
  | (absent) L' R' where "splay (dcmp D) (dkey D) key t [] [] = (Leaf, L', R')" "m = None"
      "L = zip_left L' Leaf" "R = zip_right R' Leaf"
proof (cases t)
  case Leaf
  then show ?thesis using assms absent by (simp add: split_tree_def)
next
  case (Node a x b)
  obtain s L' R' where sp: "splay (dcmp D) (dkey D) key t [] [] = (s, L', R')"
    by (metis prod_cases3)
  show ?thesis
  proof (cases "Some x = obj")
    case True
    then show ?thesis using assms root Node by (auto simp: split_tree_def)
  next
    case False
    then show ?thesis
      using assms found absent Node sp by (cases s) (auto simp: split_tree_def)
  qed
qed

lemma split_inorder:
  assumes "split_tree D obj key t = (m, L, R)"
  shows "inorder t = inorder L @ (case m of None \<Rightarrow> [] | Some x \<Rightarrow> [x]) @ inorder R"
  using assms by (cases rule: split_tree_cases) (auto dest: splay_inorder)

lemma split_match:
  assumes "split_tree D obj key t = (Some x, L, R)" "\<And>y. obj = Some y \<Longrightarrow> dcmp D key (dkey D y) = 0"
  shows "dcmp D key (dkey D x) = 0"
  using assms(1) by (cases rule: split_tree_cases) (auto dest: splay_match assms(2))

section \<open>Comparisons\<close>

text \<open>What a dictionary relies on of the routine \<open>comparf\<close> (\<open>_DTCMP\<close>).\<close>

locale key_order =
  fixes cmp :: "'k \<Rightarrow> 'k \<Rightarrow> int"
  assumes cmp_same: "cmp a a = 0"
    and cmp_flip: "cmp a b < 0 \<longleftrightarrow> 0 < cmp b a"
    and cmp_trans: "cmp a b \<le> 0 \<Longrightarrow> cmp b c \<le> 0 \<Longrightarrow> cmp a c \<le> 0"
begin

lemma zero_flip: "cmp a b = 0 \<longleftrightarrow> cmp b a = 0"
  using cmp_flip [of a b] cmp_flip [of b a] by linarith

lemma le_flip: "cmp a b \<le> 0 \<longleftrightarrow> 0 \<le> cmp b a"
  using cmp_flip [of b a] by linarith

lemma ge_trans: "0 \<le> cmp a b \<Longrightarrow> 0 \<le> cmp b c \<Longrightarrow> 0 \<le> cmp a c"
  using cmp_trans [of c b a] by (simp add: le_flip)

lemma less_le_trans:
  assumes "cmp a b < 0" "cmp b c \<le> 0"
  shows "cmp a c < 0"
proof (rule ccontr)
  assume "\<not> cmp a c < 0"
  then have "cmp c a \<le> 0" by (simp add: le_flip)
  with assms(2) have "cmp b a \<le> 0" by (rule cmp_trans)
  with assms(1) show False using cmp_flip [of a b] by simp
qed

lemma le_less_trans:
  assumes "cmp a b \<le> 0" "cmp b c < 0"
  shows "cmp a c < 0"
proof (rule ccontr)
  assume "\<not> cmp a c < 0"
  then have "cmp c a \<le> 0" by (simp add: le_flip)
  then have "cmp c b \<le> 0" using assms(1) by (rule cmp_trans)
  with assms(2) show False using cmp_flip [of b c] by simp
qed

lemma zero_less: "cmp a b = 0 \<Longrightarrow> cmp a c < 0 \<longleftrightarrow> cmp b c < 0"
  using le_less_trans [of a b c] le_less_trans [of b a c] zero_flip [of a b] by auto

lemma zero_greater: "cmp a b = 0 \<Longrightarrow> 0 < cmp a c \<longleftrightarrow> 0 < cmp b c"
  unfolding cmp_flip [symmetric]
  using less_le_trans [of c a b] less_le_trans [of c b a] zero_flip [of a b] by auto

lemma zero_zero: "cmp a b = 0 \<Longrightarrow> cmp a c = 0 \<longleftrightarrow> cmp b c = 0"
  using zero_less [of a b c] zero_greater [of a b c] by linarith

text \<open>A search that finds nothing splits the sequence at the key.\<close>

lemma greater_le_trans: "0 < cmp a c \<Longrightarrow> cmp b c \<le> 0 \<Longrightarrow> 0 < cmp a b"
  using le_less_trans [of b c a] unfolding cmp_flip [symmetric] by simp

lemma all_above: "cmp key (ky x) < 0 \<Longrightarrow> \<forall>z \<in> S. cmp (ky x) (ky z) \<le> 0 \<Longrightarrow> \<forall>z \<in> S. cmp key (ky z) < 0"
  by (intro ballI, rule less_le_trans) auto

lemma all_below: "0 < cmp key (ky x) \<Longrightarrow> \<forall>z \<in> S. cmp (ky z) (ky x) \<le> 0 \<Longrightarrow> \<forall>z \<in> S. 0 < cmp key (ky z)"
  by (intro ballI, rule greater_le_trans) auto

lemma splay_absent:
  assumes "splay cmp ky key t L R = (Leaf, L', R')"
    and "sorted_wrt (\<lambda>a b. cmp (ky a) (ky b) \<le> 0) (inorder t)"
    and "\<forall>x \<in> set (left_items L). 0 < cmp key (ky x)" "\<forall>x \<in> set (right_items R). cmp key (ky x) < 0"
  shows "(\<forall>x \<in> set (left_items L'). 0 < cmp key (ky x)) \<and> (\<forall>x \<in> set (right_items R'). cmp key (ky x) < 0)"
  using assms
proof (induction t arbitrary: L R rule: measure_induct_rule [of size])
  case (less t)
  show ?case
  proof (cases t)
    case Leaf
    then show ?thesis using less.prems by simp
  next
    case (Node a x b)
    note so = less.prems(2) [unfolded Node, simplified, unfolded sorted_wrt_append, simplified]
    have up: "cmp key (ky x) < 0 \<Longrightarrow> \<forall>z \<in> set (inorder b). cmp key (ky z) < 0"
      by (rule all_above) (use so in auto)
    have down: "0 < cmp key (ky x) \<Longrightarrow> \<forall>z \<in> set (inorder a). 0 < cmp key (ky z)"
      by (rule all_below) (use so in auto)
    consider (eq) "cmp key (ky x) = 0" | (lt) "cmp key (ky x) < 0" | (gt) "0 < cmp key (ky x)" by linarith
    then show ?thesis
    proof cases
      case eq
      then show ?thesis using less.prems(1) Node by simp
    next
      case lt
      note lt_items = lt up [OF lt]
      show ?thesis
      proof (cases a)
        case Leaf
        then show ?thesis using less.prems Node lt lt_items by auto
      next
        case (Node a1 y b1)
        note so' = so [unfolded Node, simplified, unfolded sorted_wrt_append, simplified]
        have up': "cmp key (ky y) < 0 \<Longrightarrow> \<forall>z \<in> set (inorder b1). cmp key (ky z) < 0"
          by (rule all_above) (use so' in auto)
        have down': "0 < cmp key (ky y) \<Longrightarrow> \<forall>z \<in> set (inorder a1). 0 < cmp key (ky z)"
          by (rule all_below) (use so' in auto)
        consider (eq) "cmp key (ky y) = 0" | (lt) "cmp key (ky y) < 0" | (gt) "0 < cmp key (ky y)" by linarith
        then show ?thesis
        proof cases
          case eq
          then show ?thesis using less.prems(1) \<open>t = _\<close> Node \<open>cmp key (ky x) < 0\<close> by simp
        next
          case lt
          show ?thesis
            by (rule less.IH [of a1 L "(y, \<langle>b1, x, b\<rangle>) # R"])
              (use less.prems \<open>t = _\<close> Node \<open>cmp key (ky x) < 0\<close> lt lt_items up' so' in auto)
        next
          case gt
          show ?thesis
            by (rule less.IH [of b1 "(a1, y) # L" "(x, b) # R"])
              (use less.prems \<open>t = _\<close> Node \<open>cmp key (ky x) < 0\<close> gt lt_items down' so' in auto)
        qed
      qed
    next
      case gt
      note gt_items = gt down [OF gt]
      show ?thesis
      proof (cases b)
        case Leaf
        then show ?thesis using less.prems Node gt gt_items by auto
      next
        case (Node a1 y b1)
        note so' = so [unfolded Node, simplified, unfolded sorted_wrt_append, simplified]
        have up': "cmp key (ky y) < 0 \<Longrightarrow> \<forall>z \<in> set (inorder b1). cmp key (ky z) < 0"
          by (rule all_above) (use so' in auto)
        have down': "0 < cmp key (ky y) \<Longrightarrow> \<forall>z \<in> set (inorder a1). 0 < cmp key (ky z)"
          by (rule all_below) (use so' in auto)
        consider (eq) "cmp key (ky y) = 0" | (lt) "cmp key (ky y) < 0" | (gt) "0 < cmp key (ky y)" by linarith
        then show ?thesis
        proof cases
          case eq
          then show ?thesis using less.prems(1) \<open>t = _\<close> Node \<open>0 < cmp key (ky x)\<close> by simp
        next
          case lt
          show ?thesis
            by (rule less.IH [of a1 "(a, x) # L" "(y, b1) # R"])
              (use less.prems \<open>t = _\<close> Node \<open>0 < cmp key (ky x)\<close> lt gt_items up' so' in auto)
        next
          case gt
          show ?thesis
            by (rule less.IH [of b1 "(\<langle>a, x, a1\<rangle>, y) # L" R])
              (use less.prems \<open>t = _\<close> Node \<open>0 < cmp key (ky x)\<close> gt gt_items down' so' in auto)
        qed
      qed
    qed
  qed
qed

end

end
