(* ===== verification/DtSet.thy ===== *)
theory DtSet
  imports DtOrder
begin

text \<open>
  The method \<open>Dtoset\<close> implements an ordered set: its contract as operations on a list of objects
  with increasing keys, and the proof that \<open>dttree\<close> refines it.
\<close>

section \<open>The contract\<close>

abbreviation items :: "'o dt \<Rightarrow> 'o list" where
  "items dt \<equiv> inorder (droot dt)"

definition increasing :: "('o, 'k) dtdisc \<Rightarrow> 'o list \<Rightarrow> bool" where
  "increasing D xs = sorted_wrt (\<lambda>a b. dcmp D (dkey D a) (dkey D b) < 0) xs"

definition lower :: "('o, 'k) dtdisc \<Rightarrow> 'k \<Rightarrow> 'o list \<Rightarrow> 'o list" where
  "lower D k xs = filter (\<lambda>x. 0 < dcmp D k (dkey D x)) xs"

definition upper :: "('o, 'k) dtdisc \<Rightarrow> 'k \<Rightarrow> 'o list \<Rightarrow> 'o list" where
  "upper D k xs = filter (\<lambda>x. dcmp D k (dkey D x) < 0) xs"

definition lookup :: "('o, 'k) dtdisc \<Rightarrow> 'k \<Rightarrow> 'o list \<Rightarrow> 'o option" where
  "lookup D k xs = List.find (\<lambda>x. dcmp D k (dkey D x) = 0) xs"

definition first_of :: "'o list \<Rightarrow> 'o option" where
  "first_of xs = (case xs of [] \<Rightarrow> None | x # _ \<Rightarrow> Some x)"

definition last_of :: "'o list \<Rightarrow> 'o option" where
  "last_of xs = (if xs = [] then None else Some (last xs))"

definition orelse :: "'a option \<Rightarrow> 'a option \<Rightarrow> 'a option" where
  "orelse a b = (case a of None \<Rightarrow> b | Some x \<Rightarrow> Some x)"

text \<open>The object an insertion enters: made, or the prototype; none when it cannot be made or held.\<close>

definition made :: "('o, 'k) dtdisc \<Rightarrow> dtop \<Rightarrow> 'o \<Rightarrow> 'o option" where
  "made D op x =
     (case (if op = DT_ATTACH then Some x
            else (case dmakef D of None \<Rightarrow> Some x | Some mk \<Rightarrow> mk x)) of
        None \<Rightarrow> None
      | Some y \<Rightarrow> if dembed D \<or> dmemory D y then Some y else None)"

definition enter :: "('o, 'k) dtdisc \<Rightarrow> 'k \<Rightarrow> 'o option \<Rightarrow> 'o list \<Rightarrow> 'o list" where
  "enter D k y xs = lower D k xs @ (case y of None \<Rightarrow> [] | Some z \<Rightarrow> [z]) @ upper D k xs"

text \<open>An operation for an object or a key: the object returned and the objects after it.\<close>

fun oset_spec :: "('o, 'k) dtdisc \<Rightarrow> dtop \<Rightarrow> ('o, 'k) dtarg \<Rightarrow> 'o list \<Rightarrow> 'o option \<times> 'o list" where
  "oset_spec D DT_FIRST _ xs = (first_of xs, xs)"
| "oset_spec D DT_LAST _ xs = (last_of xs, xs)"
| "oset_spec D DT_CLEAR _ xs = (None, [])"
| "oset_spec D DT_MATCH (Key k) xs = (lookup D k xs, xs)"
| "oset_spec D DT_SEARCH (Obj x) xs = (lookup D (dkey D x) xs, xs)"
| "oset_spec D DT_ATLEAST (Obj x) xs =
     (orelse (lookup D (dkey D x) xs) (first_of (upper D (dkey D x) xs)), xs)"
| "oset_spec D DT_ATMOST (Obj x) xs =
     (orelse (lookup D (dkey D x) xs) (last_of (lower D (dkey D x) xs)), xs)"
| "oset_spec D DT_NEXT (Obj x) xs = (first_of (upper D (dkey D x) xs), xs)"
| "oset_spec D DT_PREV (Obj x) xs = (last_of (lower D (dkey D x) xs), xs)"
| "oset_spec D DT_DELETE (Obj x) xs = (lookup D (dkey D x) xs, enter D (dkey D x) None xs)"
| "oset_spec D DT_DETACH (Obj x) xs = (lookup D (dkey D x) xs, enter D (dkey D x) None xs)"
| "oset_spec D DT_REMOVE (Obj x) xs =
     (if lookup D (dkey D x) xs = Some x then (Some x, enter D (dkey D x) None xs) else (None, xs))"
| "oset_spec D DT_INSTALL (Obj x) xs =
     (made D DT_INSTALL x, enter D (dkey D x) (made D DT_INSTALL x) xs)"
| "oset_spec D DT_RELINK (Link x) xs =
     (case lookup D (dkey D x) xs of
        Some y \<Rightarrow> (Some y, xs) | None \<Rightarrow> (Some x, enter D (dkey D x) (Some x) xs))"
| "oset_spec D op (Obj x) xs =
     (if op \<in> {DT_INSERT, DT_APPEND, DT_ATTACH} then
        (case lookup D (dkey D x) xs of
           Some y \<Rightarrow> (Some y, xs)
         | None \<Rightarrow> (made D op x, enter D (dkey D x) (made D op x) xs))
      else (None, xs))"
| "oset_spec D op _ xs = (None, xs)"

text \<open>The argument an operation is called with.\<close>

definition fits_op :: "dtop \<Rightarrow> ('o, 'k) dtarg \<Rightarrow> bool" where
  "fits_op op arg \<longleftrightarrow>
     op \<in> {DT_FIRST, DT_LAST, DT_CLEAR} \<or> (op = DT_MATCH \<and> (\<exists>k. arg = Key k)) \<or>
     (op = DT_RELINK \<and> (\<exists>x. arg = Link x)) \<or>
     (op \<in> {DT_INSERT, DT_DELETE, DT_SEARCH, DT_NEXT, DT_PREV, DT_ATTACH, DT_DETACH, DT_APPEND,
        DT_ATLEAST, DT_ATMOST, DT_REMOVE, DT_INSTALL} \<and> (\<exists>x. arg = Obj x))"

section \<open>A search on an ordered set\<close>

text \<open>What the methods rely on of a discipline: an ordering, and a constructor that keeps the key.\<close>

locale discipline = key_order "dcmp D" for D :: "('o, 'k) dtdisc" +
  assumes make_key: "dmakef D = Some mk \<Longrightarrow> mk x = Some y \<Longrightarrow> dcmp D (dkey D x) (dkey D y) = 0"
begin

lemma parts_absent:
  assumes "\<forall>x \<in> set ls. 0 < dcmp D k (dkey D x)" "\<forall>x \<in> set us. dcmp D k (dkey D x) < 0"
  shows "lower D k (ls @ us) = ls" "upper D k (ls @ us) = us" "lookup D k (ls @ us) = None"
proof -
  have "filter (\<lambda>x. 0 < dcmp D k (dkey D x)) us = []" "filter (\<lambda>x. dcmp D k (dkey D x) < 0) ls = []"
    using assms by (auto simp: filter_empty_conv)
  then show "lower D k (ls @ us) = ls" "upper D k (ls @ us) = us"
    using assms by (simp_all add: lower_def upper_def)
  show "lookup D k (ls @ us) = None"
    using assms by (auto simp: lookup_def find_None_iff)
qed

lemma find_skip: "\<forall>y \<in> set ls. \<not> P y \<Longrightarrow> List.find P (ls @ x # us) = (if P x then Some x else List.find P us)"
  by (induction ls) auto

lemma increasing_sides:
  assumes "increasing D (ls @ x # us)" "dcmp D k (dkey D x) = 0"
  shows "\<forall>y \<in> set ls. 0 < dcmp D k (dkey D y)" "\<forall>y \<in> set us. dcmp D k (dkey D y) < 0"
proof -
  have b: "\<forall>y \<in> set ls. 0 < dcmp D (dkey D x) (dkey D y)" "\<forall>y \<in> set us. dcmp D (dkey D x) (dkey D y) < 0"
    using assms(1) cmp_flip by (auto simp: increasing_def sorted_wrt_append)
  show "\<forall>y \<in> set ls. 0 < dcmp D k (dkey D y)" using b(1) zero_greater [OF assms(2)] by blast
  show "\<forall>y \<in> set us. dcmp D k (dkey D y) < 0" using b(2) zero_less [OF assms(2)] by blast
qed

lemma parts_found:
  assumes "increasing D (ls @ x # us)" "dcmp D k (dkey D x) = 0"
  shows "lower D k (ls @ x # us) = ls" "upper D k (ls @ x # us) = us" "lookup D k (ls @ x # us) = Some x"
proof -
  note s = increasing_sides [OF assms]
  have "filter (\<lambda>y. 0 < dcmp D k (dkey D y)) us = []" "filter (\<lambda>y. dcmp D k (dkey D y) < 0) ls = []"
    using s by (auto simp: filter_empty_conv)
  then show "lower D k (ls @ x # us) = ls" "upper D k (ls @ x # us) = us"
    using s assms(2) by (simp_all add: lower_def upper_def)
  show "lookup D k (ls @ x # us) = Some x"
    unfolding lookup_def by (subst find_skip) (use s(1) assms(2) in auto)
qed

lemma increasing_weak: "increasing D xs \<Longrightarrow> sorted_wrt (\<lambda>a b. dcmp D (dkey D a) (dkey D b) \<le> 0) xs"
  unfolding increasing_def by (erule sorted_wrt_mono_rel [rotated]) simp

lemma split_absent:
  assumes "split_tree D obj k t = (None, L, R)"
    and "sorted_wrt (\<lambda>a b. dcmp D (dkey D a) (dkey D b) \<le> 0) (inorder t)"
  shows "(\<forall>x \<in> set (inorder L). 0 < dcmp D k (dkey D x)) \<and> (\<forall>x \<in> set (inorder R). dcmp D k (dkey D x) < 0)"
  using assms(1)
proof (cases rule: split_tree_cases)
  case (absent L' R')
  then show ?thesis using splay_absent [OF absent(1) assms(2)] by simp
qed simp_all

text \<open>The splay search of an ordered set, in terms of its contract.\<close>

lemma split_set:
  assumes "split_tree D obj k t = (m, L, R)" "increasing D (inorder t)"
    and "\<And>y. obj = Some y \<Longrightarrow> k = dkey D y"
  shows "lookup D k (inorder t) = m" "lower D k (inorder t) = inorder L" "upper D k (inorder t) = inorder R"
proof -
  note i = split_inorder [OF assms(1)]
  have "lookup D k (inorder t) = m \<and> lower D k (inorder t) = inorder L \<and> upper D k (inorder t) = inorder R"
  proof (cases m)
    case None
    then show ?thesis
      using i parts_absent [of "inorder L" k "inorder R"] assms(1)
        split_absent [OF _ increasing_weak [OF assms(2)]] by simp
  next
    case (Some x)
    have "dcmp D k (dkey D x) = 0"
      by (rule split_match) (use assms(1,3) Some cmp_same in auto)
    with assms(2) show ?thesis using parts_found i Some by simp
  qed
  then show "lookup D k (inorder t) = m" "lower D k (inorder t) = inorder L" "upper D k (inorder t) = inorder R"
    by simp_all
qed

end

section \<open>The operations refine the contract\<close>

text \<open>What no operation changes.\<close>

definition keeps :: "'o dt \<Rightarrow> 'o dt \<Rightarrow> bool" where
  "keeps dt dt' \<longleftrightarrow> dmeth dt' = dmeth dt \<and> dannounce dt' = dannounce dt \<and> dold dt' = dold dt"

lemma first_rot_min: "first_of (inorder t) = (case rot_min t of Leaf \<Rightarrow> None | \<langle>_, x, _\<rangle> \<Rightarrow> Some x)"
  by (cases "rot_min t") (auto simp: first_of_def dest: rot_min_Node)

lemma last_rot_max: "last_of (inorder t) = (case rot_max t of Leaf \<Rightarrow> None | \<langle>_, x, _\<rangle> \<Rightarrow> Some x)"
  by (cases "rot_max t") (auto simp: last_of_def dest: rot_max_Node)

lemma keeps_update [simp]:
  "keeps d (droot_update f dt) = keeps d dt" "keeps d (dsize_update g dt) = keeps d dt"
  "keeps d (dlog_update h dt) = keeps d dt"
  by (simp_all add: keeps_def)

lemma has_root_spec [simp]:
  "fst (has_root L x R type dt) = Some x"
  "items (snd (snd (has_root L x R type dt))) = inorder L @ x # inorder R"
  "keeps d (snd (snd (has_root L x R type dt))) = keeps d dt"
  "dsize (snd (snd (has_root L x R type dt))) = dsize dt"
  "dlog (snd (snd (has_root L x R type dt))) = dlog dt"
  by (simp_all add: has_root_def keeps_def)

lemma no_root_spec [simp]:
  "fst (no_root obj L R type dt) = (if has type {DT_DELETE, DT_DETACH, DT_REMOVE} then obj else None)"
  "items (snd (snd (no_root obj L R type dt))) = inorder L @ inorder R"
  "keeps d (snd (snd (no_root obj L R type dt))) = keeps d dt"
  "dsize (snd (snd (no_root obj L R type dt))) = dsize dt"
  "dlog (snd (snd (no_root obj L R type dt))) = dlog dt"
  by (simp_all add: no_root_def keeps_def)

lemma dt_next_spec [simp]:
  "\<not> has type {DT_DELETE, DT_DETACH, DT_REMOVE} \<Longrightarrow> fst (dt_next obj L R type dt) = first_of (inorder R)"
  "items (snd (snd (dt_next obj L R type dt))) = inorder L @ inorder R"
  "keeps d (snd (snd (dt_next obj L R type dt))) = keeps d dt"
  "dsize (snd (snd (dt_next obj L R type dt))) = dsize dt"
  "dlog (snd (snd (dt_next obj L R type dt))) = dlog dt"
  unfolding dt_next_def first_rot_min by (auto split: tree.split dest: rot_min_Node)

lemma dt_prev_spec [simp]:
  "\<not> has type {DT_DELETE, DT_DETACH, DT_REMOVE} \<Longrightarrow> fst (dt_prev obj L R type dt) = last_of (inorder L)"
  "items (snd (snd (dt_prev obj L R type dt))) = inorder L @ inorder R"
  "keeps d (snd (snd (dt_prev obj L R type dt))) = keeps d dt"
  "dsize (snd (snd (dt_prev obj L R type dt))) = dsize dt"
  "dlog (snd (snd (dt_prev obj L R type dt))) = dlog dt"
  unfolding dt_prev_def last_rot_max by (auto split: tree.split dest: rot_max_Node)

lemma dtfree_spec [simp]:
  "droot (dtfree D x type dt) = droot dt" "keeps d (dtfree D x type dt) = keeps d dt"
  "dsize (dtfree D x type dt) = dsize dt" "dmeth (dtfree D x type dt) = dmeth dt"
  by (simp_all add: dtfree_def keeps_def)

lemma DTANNOUNCE_spec [simp]:
  "droot (DTANNOUNCE D obj type dt) = droot dt" "keeps d (DTANNOUNCE D obj type dt) = keeps d dt"
  "dsize (DTANNOUNCE D obj type dt) = dsize dt" "dmeth (DTANNOUNCE D obj type dt) = dmeth dt"
  by (simp_all add: DTANNOUNCE_def keeps_def split: option.split)

lemma dtmake_spec [simp]:
  "fst (dtmake D {op} x dt) = made D op x"
  "droot (snd (dtmake D type x dt)) = droot dt" "keeps d (snd (dtmake D type x dt)) = keeps d dt"
  "dsize (snd (dtmake D type x dt)) = dsize dt"
  by (auto simp: dtmake_def made_def keeps_def split: option.split)

lemma keeps_refl [simp]: "keeps dt dt"
  by (simp add: keeps_def)

lemma keeps_trans: "keeps a b \<Longrightarrow> keeps b c \<Longrightarrow> keeps a c"
  by (simp add: keeps_def)

lemma dt_delete_spec [simp]:
  "fst (dt_delete D L x R type dt) =
     (if has type {DT_DELETE, DT_DETACH, DT_REMOVE} then Some x else None)"
  "items (snd (snd (dt_delete D L x R type dt))) = inorder L @ inorder R"
  "keeps d (snd (snd (dt_delete D L x R type dt))) = keeps d dt"
  "dsize (snd (snd (dt_delete D L x R type dt))) = dsize dt - 1"
  by (simp_all add: dt_delete_def Let_def no_root_def keeps_def dtfree_def)

lemma dt_insert_spec [simp]:
  "\<not> has {op} {DT_DELETE, DT_DETACH, DT_REMOVE} \<Longrightarrow> fst (dt_insert D (Some x) L R {op} dt) = made D op x"
  "items (snd (snd (dt_insert D (Some x) L R {op} dt))) =
     inorder L @ (case made D op x of None \<Rightarrow> [] | Some y \<Rightarrow> [y]) @ inorder R"
  "keeps d (snd (snd (dt_insert D (Some x) L R {op} dt))) = keeps d dt"
  "dsize (snd (snd (dt_insert D (Some x) L R {op} dt))) = dsize dt + (if made D op x = None then 0 else 1)"
  using dtmake_spec(1) [of D op x dt] dtmake_spec(3) [of _ D "{op}" x dt] dtmake_spec(4) [of D "{op}" x dt]
  by (cases "dtmake D {op} x dt"; cases "made D op x"; simp add: dt_insert_def keeps_def no_root_def has_root_def)+

text \<open>The arguments \<open>dttree\<close> passes on for an operation.\<close>

definition arg_ok :: "('o, 'k) dtdisc \<Rightarrow> dtop \<Rightarrow> ('o, 'k) dtarg \<Rightarrow> 'o option \<Rightarrow> 'k \<Rightarrow> 'o option \<Rightarrow> bool" where
  "arg_ok D op arg obj key me \<longleftrightarrow>
     (case arg of
        Obj x \<Rightarrow> obj = Some x \<and> key = dkey D x \<and> me = None
      | Key k \<Rightarrow> obj = None \<and> key = k \<and> me = None
      | Link x \<Rightarrow> obj = Some x \<and> key = dkey D x \<and> me = Some x
      | _ \<Rightarrow> False)"

definition object_ops :: "dtop set" where
  "object_ops = {DT_INSERT, DT_DELETE, DT_SEARCH, DT_NEXT, DT_PREV, DT_MATCH, DT_ATTACH, DT_DETACH,
     DT_APPEND, DT_ATLEAST, DT_ATMOST, DT_REMOVE, DT_INSTALL, DT_RELINK}"

definition result_is :: "'o dt \<Rightarrow> 'o dtres \<Rightarrow> 'o option \<times> 'o list \<Rightarrow> bool" where
  "result_is dt r s \<longleftrightarrow> fst r = fst s \<and> items (snd (snd r)) = snd s \<and> keeps dt (snd (snd r))"

context discipline
begin

lemma absent_spec:
  assumes "dmeth dt = Dtoset" "op \<in> object_ops" "fits_op op arg" "arg_ok D op arg obj key me"
    and "lookup D key (items dt) = None" "lower D key (items dt) = inorder L" "upper D key (items dt) = inorder R"
    and "items dt = inorder L @ inorder R"
  shows "result_is dt (dt_absent D obj me L R {op} dt) (oset_spec D op arg (items dt))"
  using assms
  by (auto simp: fits_op_def arg_ok_def object_ops_def dt_absent_def result_is_def orelse_def enter_def)

lemma found_spec:
  assumes "dmeth dt = Dtoset" "op \<in> object_ops" "fits_op op arg" "arg_ok D op arg obj key me"
    and "lookup D key (items dt) = Some x" "lower D key (items dt) = inorder L" "upper D key (items dt) = inorder R"
    and "items dt = inorder L @ x # inorder R"
  shows "result_is dt (dt_found D obj key me L x R {op} dt) (oset_spec D op arg (items dt))"
  using assms
  by (auto simp: fits_op_def arg_ok_def object_ops_def dt_found_def result_is_def orelse_def enter_def
    dt_relink_def)

lemma object_spec:
  assumes "dmeth dt = Dtoset" "op \<in> object_ops" "fits_op op arg" "arg_ok D op arg obj key me"
    and "increasing D (items dt)"
  shows "result_is dt (dt_object D obj key me {op} dt) (oset_spec D op arg (items dt))"
proof -
  obtain m L R where st: "split_tree D obj key (droot dt) = (m, L, R)" by (metis prod_cases3)
  have "\<And>y. obj = Some y \<Longrightarrow> key = dkey D y" using assms(4) by (auto simp: arg_ok_def split: dtarg.splits)
  note p = split_set [OF st assms(5) this] and i = split_inorder [OF st]
  show ?thesis
  proof (cases m)
    case None
    then show ?thesis
      using absent_spec [OF assms(1-4), of L R] p i st by (simp add: dt_object_def)
  next
    case (Some x)
    then show ?thesis
      using found_spec [OF assms(1-4), of x L R] p i st by (simp add: dt_object_def)
  qed
qed

lemma increasing_lower: "increasing D xs \<Longrightarrow> increasing D (lower D k xs)"
  by (simp add: increasing_def lower_def sorted_wrt_filter)

lemma increasing_upper: "increasing D xs \<Longrightarrow> increasing D (upper D k xs)"
  by (simp add: increasing_def upper_def sorted_wrt_filter)

lemma increasing_enter:
  assumes "increasing D xs" "\<And>z. y = Some z \<Longrightarrow> dcmp D k (dkey D z) = 0"
  shows "increasing D (enter D k y xs)"
proof -
  have lu: "dcmp D (dkey D a) (dkey D b) < 0" if "a \<in> set (lower D k xs)" "b \<in> set (upper D k xs)" for a b
    using that le_less_trans [of "dkey D a" k "dkey D b"] cmp_flip [of "dkey D a" k] by (auto simp: lower_def upper_def)
  have lz: "dcmp D (dkey D a) (dkey D z) < 0" if "a \<in> set (lower D k xs)" "y = Some z" for a z
    using that zero_greater [OF assms(2), of z "dkey D a"] cmp_flip [of "dkey D a" "dkey D z"] by (simp add: lower_def)
  have zu: "dcmp D (dkey D z) (dkey D b) < 0" if "b \<in> set (upper D k xs)" "y = Some z" for b z
    using that zero_less [OF assms(2), of z "dkey D b"] by (simp add: upper_def)
  show ?thesis
    using increasing_lower [OF assms(1), of k] increasing_upper [OF assms(1), of k] lu lz zu
    unfolding enter_def increasing_def by (cases y) (auto simp: sorted_wrt_append)
qed

lemma made_key: "made D op x = Some y \<Longrightarrow> dcmp D (dkey D x) (dkey D y) = 0"
  using make_key cmp_same by (auto simp: made_def split: option.splits if_splits)

lemma spec_increasing:
  assumes "increasing D xs"
  shows "increasing D (snd (oset_spec D op arg xs))"
proof -
  have e: "increasing D (enter D (dkey D x) (made D op x) xs)" "increasing D (enter D k None xs)"
    "increasing D (enter D (dkey D x) (Some x) xs)" for op x k
    by (rule increasing_enter [OF assms]; simp add: made_key cmp_same)+
  show ?thesis
    using assms e by (cases "(D, op, arg, xs)" rule: oset_spec.cases) (auto simp: increasing_def split: option.split)
qed

end

lemma tfirstlast_spec:
  "fst (tfirstlast {DT_FIRST} dt) = first_of (items dt)" "fst (tfirstlast {DT_LAST} dt) = last_of (items dt)"
  "items (snd (tfirstlast type dt)) = items dt" "keeps d (snd (tfirstlast type dt)) = keeps d dt"
  "dsize (snd (tfirstlast type dt)) = dsize dt"
  by (auto simp: tfirstlast_def Let_def first_rot_min last_rot_max split: tree.split)

lemma tfree_spec [simp]:
  "droot (tfree D t dt) = droot dt \<and> keeps d (tfree D t dt) = keeps d dt \<and> dsize (tfree D t dt) = dsize dt"
proof (induction D t dt rule: tfree.induct)
  case (1 D t dt)
  show ?case
  proof (cases "rot_min t")
    case Leaf
    then show ?thesis by (subst (1 2 3) tfree.simps) simp
  next
    case (Node l x r)
    with 1 [of l x r] show ?thesis by (simp add: tfree.simps [of D t dt])
  qed
qed

lemma tclear_spec [simp]:
  "droot (tclear D dt) = Leaf" "keeps d (tclear D dt) = keeps d dt" "dsize (tclear D dt) = 0"
  by (simp_all add: tclear_def Let_def)

lemma dt_return_spec [simp]:
  "fst (dt_return D r) = Ret (fst r)" "droot (snd (dt_return D r)) = droot (snd (snd r))"
  "keeps d (snd (dt_return D r)) = keeps d (snd (snd r))" "dsize (snd (dt_return D r)) = dsize (snd (snd r))"
  by (simp_all add: dt_return_def split: prod.split)

lemma DTTYPE_set [simp]: "dmeth dt = Dtoset \<Longrightarrow> DTTYPE dt type = type"
  by (simp add: DTTYPE_def dttype2005_def)

text \<open>How \<open>dttree\<close> passes on an operation for an object.\<close>

lemma dttree_object:
  assumes "dmeth dt = Dtoset" "op \<in> object_ops" "fits_op op arg"
  obtains obj key me where "arg_ok D op arg obj key me"
    "dttree D arg {op} dt = dt_return D (dt_object D obj key me {op} dt)"
  using assms by (cases arg) (auto simp: fits_op_def object_ops_def arg_ok_def dttree_def)

lemma fits_cases: "fits_op op arg \<Longrightarrow> op \<notin> object_ops \<Longrightarrow> op = DT_FIRST \<or> op = DT_LAST \<or> op = DT_CLEAR"
  by (auto simp: fits_op_def object_ops_def)

lemma dttree_set:
  assumes "discipline D" "dmeth dt = Dtoset" "increasing D (items dt)" "fits_op op arg"
  shows "fst (dttree D arg {op} dt) = Ret (fst (oset_spec D op arg (items dt))) \<and>
    items (snd (dttree D arg {op} dt)) = snd (oset_spec D op arg (items dt)) \<and>
    keeps dt (snd (dttree D arg {op} dt))"
proof (cases "op \<in> object_ops")
  case True
  obtain obj key me where a: "arg_ok D op arg obj key me"
    "dttree D arg {op} dt = dt_return D (dt_object D obj key me {op} dt)"
    using dttree_object [OF assms(2) True assms(4)] .
  show ?thesis
    using discipline.object_spec [OF assms(1,2) True assms(4) a(1) assms(3)] a(2)
    by (simp add: result_is_def)
next
  case False
  have c: "op = DT_FIRST \<or> op = DT_LAST \<or> op = DT_CLEAR" by (rule fits_cases [OF assms(4) False])
  have r: "dttree D arg {op} dt = dt_return D (fst (tfirstlast {op} dt), {op}, snd (tfirstlast {op} dt))"
    if "op \<in> {DT_FIRST, DT_LAST}"
    using that assms(2) by (auto simp: dttree_def Let_def split_beta)
  have cl: "dttree D arg {DT_CLEAR} dt = (Ret None, tclear D dt)"
    using assms(2) by (simp add: dttree_def)
  show ?thesis
  proof (cases "op = DT_CLEAR")
    case True
    then show ?thesis using cl by simp
  next
    case False
    then show ?thesis using c r by (auto simp: tfirstlast_spec)
  qed
qed

text \<open>
  C4. For every operation on an ordered set (\<open>Dtoset\<close>) called with the argument it takes, \<open>dttree\<close>
  returns what the contract of the operation gives, leaves the objects the contract gives, in
  increasing order of their keys, and changes neither the method nor the flags.
\<close>

theorem oset_refines:
  assumes "discipline D" "dmeth dt = Dtoset" "increasing D (items dt)" "fits_op op arg"
  shows "\<exists>dt'. dttree D arg {op} dt = (Ret (fst (oset_spec D op arg (items dt))), dt') \<and>
    items dt' = snd (oset_spec D op arg (items dt)) \<and> increasing D (items dt') \<and> dmeth dt' = Dtoset"
proof -
  obtain r dt' where r: "dttree D arg {op} dt = (r, dt')" by fastforce
  show ?thesis
    using dttree_set [OF assms] discipline.spec_increasing [OF assms(1,3)] assms(2) r
    by (auto simp: keeps_def)
qed

end
