(* ===== verification/DtView.thy ===== *)
theory DtView
  imports DtSet
begin

text \<open>
  View paths: \<open>dtview\<close> and \<open>dtvsearch\<close> of \<open>src/src/lib/libast/cdt/dtview.c\<close>, by which a function's
  variables hide those of its caller.  A \<open>Dt_t*\<close> is a number and the store maps it to the
  dictionary, its view, the last dictionary walked and the number of its viewers.  The method's
  search function is a parameter; its contract is the locale \<open>ordered_method\<close>.
\<close>

section \<open>The store of dictionaries\<close>

record 'd vdict =
  body :: 'd
  view :: "nat option"
  walk :: "nat option"
  nview :: int

type_synonym 'd dheap = "nat \<Rightarrow> 'd vdict"

definition set_body :: "nat \<Rightarrow> 'd \<Rightarrow> 'd dheap \<Rightarrow> 'd dheap" where
  "set_body d b h = h(d := (h d)\<lparr>body := b\<rparr>)"

definition set_walk :: "nat \<Rightarrow> nat option \<Rightarrow> 'd dheap \<Rightarrow> 'd dheap" where
  "set_walk d w h = h(d := (h d)\<lparr>walk := w\<rparr>)"

text \<open>The dictionaries a loop \<open>for(d = dt; d; d = d->view)\<close> visits; \<open>None\<close> if it does not end.\<close>

partial_function (option) vpath :: "'d dheap \<Rightarrow> nat \<Rightarrow> nat list option" where
  "vpath h d =
     (case view (h d) of
        None \<Rightarrow> Some [d]
      | Some v \<Rightarrow> Option.bind (vpath h v) (\<lambda>ds. Some (d # ds)))"

text \<open>The loop of \<open>dtview\<close> that looks for a cycle.\<close>

partial_function (option) on_path :: "'d dheap \<Rightarrow> nat \<Rightarrow> nat option \<Rightarrow> bool option" where
  "on_path h dt v =
     (case v of
        None \<Rightarrow> Some False
      | Some d \<Rightarrow> if d = dt then Some True else on_path h dt (view (h d)))"

text \<open>\<open>dtview\<close>: the pointer returned and the store; \<open>meth\<close> gives a dictionary's method.\<close>

definition dtview :: "('d \<Rightarrow> 'm) \<Rightarrow> nat \<Rightarrow> nat option \<Rightarrow> 'd dheap \<Rightarrow> (nat option \<times> 'd dheap) option" where
  "dtview meth dt v h =
     (if (case v of None \<Rightarrow> False | Some w \<Rightarrow> meth (body (h w)) \<noteq> meth (body (h dt))) then Some (None, h)
      else (case on_path h dt v of
              None \<Rightarrow> None
            | Some True \<Rightarrow> Some (None, h)
            | Some False \<Rightarrow>
                let d = view (h dt);
                    h = (case d of None \<Rightarrow> h | Some e \<Rightarrow> h(e := (h e)\<lparr>nview := nview (h e) - 1\<rparr>));
                    h = h(dt := (h dt)\<lparr>view := None, walk := None\<rparr>)
                in case v of
                     None \<Rightarrow> Some (d, h)
                   | Some w \<Rightarrow>
                       let h = h(dt := (h dt)\<lparr>view := Some w\<rparr>)
                       in Some (Some w, h(w := (h w)\<lparr>nview := nview (h w) + 1\<rparr>))))"

section \<open>Searching along a view path\<close>

definition DT_NOVIEWPATH :: "dtop set" where
  "DT_NOVIEWPATH = {DT_INSERT, DT_APPEND, DT_DELETE, DT_ATTACH, DT_DETACH, DT_RELINK, DT_CLEAR,
     DT_FLATTEN, DT_EXTRACT, DT_RESTORE, DT_STAT}"

type_synonym ('o, 'k, 'd) searchf = "('o, 'k) dtarg \<Rightarrow> dtop set \<Rightarrow> 'd \<Rightarrow> 'o dtret \<times> 'd"

definition search_at :: "('o, 'k, 'd) searchf \<Rightarrow> ('o, 'k) dtarg \<Rightarrow> dtop set \<Rightarrow> nat \<Rightarrow> 'd dheap \<Rightarrow>
    'o option \<times> 'd dheap" where
  "search_at sf arg type d h =
     (case sf arg type (body (h d)) of
        (r, b) \<Rightarrow> (case r of Ret obj \<Rightarrow> obj | _ \<Rightarrow> None, set_body d b h))"

text \<open>The first dictionary that has the object.\<close>

primrec view_first :: "('o, 'k, 'd) searchf \<Rightarrow> ('o, 'k) dtarg \<Rightarrow> dtop set \<Rightarrow> nat list \<Rightarrow> 'd dheap \<Rightarrow>
    'o option \<times> nat option \<times> 'd dheap" where
  "view_first sf arg type [] h = (None, None, h)"
| "view_first sf arg type (d # ds) h =
     (case search_at sf arg type d h of
        (Some x, h) \<Rightarrow> (Some x, Some d, h)
      | (None, h) \<Rightarrow> view_first sf arg type ds h)"

text \<open>The least (greatest) of the objects the dictionaries give, with its dictionary.\<close>

primrec view_best :: "('o, 'k) dtdisc \<Rightarrow> ('o, 'k, 'd) searchf \<Rightarrow> ('o, 'k) dtarg \<Rightarrow> dtop set \<Rightarrow>
    nat list \<Rightarrow> ('o \<times> nat) option \<Rightarrow> 'd dheap \<Rightarrow> ('o \<times> nat) option \<times> 'd dheap" where
  "view_best D sf arg type [] best h = (best, h)"
| "view_best D sf arg type (d # ds) best h =
     (case search_at sf arg type d h of
        (None, h) \<Rightarrow> view_best D sf arg type ds best h
      | (Some x, h) \<Rightarrow>
          view_best D sf arg type ds
            (case best of
               None \<Rightarrow> Some (x, d)
             | Some (n, p) \<Rightarrow>
                 let c = dcmp D (dkey D x) (dkey D n) in
                 if (has type {DT_NEXT, DT_FIRST, DT_ATLEAST} \<and> c < 0) \<or>
                    (has type {DT_PREV, DT_LAST, DT_ATMOST} \<and> c > 0)
                 then Some (x, d) else Some (n, p)) h)"

text \<open>\<open>dtvsearch\<close> for the ordered methods, up to the operations it hands to the method itself.\<close>

definition dtvsearch :: "('o, 'k) dtdisc \<Rightarrow> ('o, 'k, 'd) searchf \<Rightarrow> nat \<Rightarrow> ('o, 'k) dtarg \<Rightarrow> dtop set \<Rightarrow>
    'd dheap \<Rightarrow> ('o dtret \<times> 'd dheap) option" where
  "dtvsearch D sf dt arg type h =
     (if has type DT_NOVIEWPATH then
        Some (case sf arg type (body (h dt)) of (r, b) \<Rightarrow> (r, set_body dt b h))
      else (case vpath h dt of
              None \<Rightarrow> None
            | Some ds \<Rightarrow>
                if has type {DT_MATCH, DT_SEARCH} then
                  (case view_first sf arg type ds h of
                     (r, d, h) \<Rightarrow> Some (Ret r, set_walk dt d h))
                else if \<not> has type {DT_FIRST, DT_LAST, DT_NEXT, DT_PREV, DT_ATLEAST, DT_ATMOST} then
                  Some (Ret None, h)
                else (case view_best D sf arg type ds None h of
                        (best, h) \<Rightarrow> Some (Ret (map_option fst best), set_walk dt (map_option snd best) h))))"

text \<open>The macros \<open>dtfirst\<close>, \<open>dtnext\<close> and so on call \<open>searchf\<close>, which \<open>dtview\<close> set.\<close>

definition vsearch :: "('o, 'k) dtdisc \<Rightarrow> ('o, 'k, 'd) searchf \<Rightarrow> nat \<Rightarrow> ('o, 'k) dtarg \<Rightarrow> dtop set \<Rightarrow>
    'd dheap \<Rightarrow> ('o dtret \<times> 'd dheap) option" where
  "vsearch D sf dt arg type h =
     (if view (h dt) = None
      then Some (case sf arg type (body (h dt)) of (r, b) \<Rightarrow> (r, set_body dt b h))
      else dtvsearch D sf dt arg type h)"

section \<open>View paths end\<close>

definition paths_end :: "'d dheap \<Rightarrow> bool" where
  "paths_end h \<longleftrightarrow> (\<forall>d. vpath h d \<noteq> None)"

lemma vpath_split:
  assumes "vpath h d = Some ds"
  obtains (last) "view (h d) = None" "ds = [d]"
    | (more) v es where "view (h d) = Some v" "vpath h v = Some es" "ds = d # es"
proof (cases "view (h d)")
  case None
  then show ?thesis using assms last vpath.simps [of h d] by simp
next
  case (Some v)
  then show ?thesis using assms more vpath.simps [of h d] by (cases "vpath h v") simp_all
qed

lemma vpath_Cons: "vpath h d = Some ds \<Longrightarrow> \<exists>es. ds = d # es"
  by (erule vpath_split) auto

lemma vpath_view: "view (h d) = Some v \<Longrightarrow> vpath h v = Some es \<Longrightarrow> vpath h d = Some (d # es)"
  by (subst vpath.simps) simp

lemma vpath_last: "view (h d) = None \<Longrightarrow> vpath h d = Some [d]"
  by (subst vpath.simps) simp

lemma on_path_iff: "vpath h d = Some ds \<Longrightarrow> on_path h dt (Some d) = Some (dt \<in> set ds)"
proof (induction ds arbitrary: d)
  case Nil
  then show ?case using vpath_Cons by blast
next
  case (Cons e es)
  from Cons.prems show ?case
  proof (cases rule: vpath_split)
    case last
    then show ?thesis by (subst on_path.simps, subst on_path.simps) auto
  next
    case (more v fs)
    then show ?thesis using Cons.IH [of v] by (subst on_path.simps) auto
  qed
qed

text \<open>No dictionary is twice on a path.\<close>

lemma vpath_member: "vpath h d = Some ds \<Longrightarrow> e \<in> set ds \<Longrightarrow> \<exists>es. vpath h e = Some es \<and> length es \<le> length ds"
proof (induction ds arbitrary: d)
  case (Cons x xs)
  from Cons.prems(1) show ?case
  proof (cases rule: vpath_split)
    case last
    then show ?thesis using Cons.prems by auto
  next
    case (more v es)
    show ?thesis
    proof (cases "e = d")
      case True
      then show ?thesis using Cons.prems(1) by auto
    next
      case False
      then have "e \<in> set xs" using Cons.prems(2) more(3) by auto
      with Cons.IH [of v] more obtain es where "vpath h e = Some es" "length es \<le> length xs" by auto
      then show ?thesis by auto
    qed
  qed
qed simp

lemma vpath_distinct: "vpath h d = Some ds \<Longrightarrow> distinct ds"
proof (induction ds arbitrary: d)
  case (Cons x xs)
  from Cons.prems show ?case
  proof (cases rule: vpath_split)
    case (more v es)
    have "d \<notin> set es"
    proof
      assume "d \<in> set es"
      from vpath_member [OF more(2) this] Cons.prems more(3) show False by auto
    qed
    with Cons.IH [of v] more show ?thesis by auto
  qed simp
qed simp

lemma vpath_upd:
  "vpath h d = Some ds \<Longrightarrow> (\<And>e. e \<in> set ds \<Longrightarrow> view (h' e) = view (h e)) \<Longrightarrow> vpath h' d = Some ds"
proof (induction ds arbitrary: d)
  case Nil
  then show ?case using vpath_Cons by blast
next
  case (Cons x xs)
  from Cons.prems(1) show ?case
  proof (cases rule: vpath_split)
    case last
    then show ?thesis using vpath_last [of h' d] Cons.prems(2) by simp
  next
    case (more v es)
    then show ?thesis using vpath_view [of h' d v es] Cons.IH [of v] Cons.prems(2) by simp
  qed
qed

lemma vpath_same:
  assumes v: "\<And>e. view (h' e) = view (h e)"
  shows "vpath h' d = vpath h d"
proof (cases "vpath h d")
  case None
  show ?thesis
  proof (cases "vpath h' d")
    case (Some ds)
    then have "vpath h d = Some ds" by (rule vpath_upd) (simp add: v)
    with None show ?thesis by simp
  qed (use None in simp)
next
  case (Some ds)
  then have "vpath h' d = Some ds" by (rule vpath_upd) (simp add: v)
  with Some show ?thesis by simp
qed

text \<open>A path through \<open>dt\<close>, after \<open>dt\<close> got a new view that does not lead to it.\<close>

lemma vpath_relink:
  assumes "vpath h d = Some ds" "\<And>e. e \<noteq> dt \<Longrightarrow> view (h' e) = view (h e)" "vpath h' dt \<noteq> None"
  shows "vpath h' d \<noteq> None"
  using assms(1)
proof (induction ds arbitrary: d)
  case Nil
  then show ?case using vpath_Cons by blast
next
  case (Cons x xs)
  show ?case
  proof (cases "d = dt")
    case True
    then show ?thesis using assms(3) by simp
  next
    case False
    note v = assms(2) [OF False]
    from Cons.prems show ?thesis
    proof (cases rule: vpath_split)
      case last
      then show ?thesis using v vpath_last [of h' d] by simp
    next
      case (more w es)
      then have "vpath h' w \<noteq> None" using Cons.IH [of w] by simp
      then show ?thesis using v more(1) vpath_view [of h' d w] by auto
    qed
  qed
qed

text \<open>What \<open>dtview\<close> does when the views end: it refuses, or sets the view.\<close>

definition relinked :: "nat \<Rightarrow> nat option \<Rightarrow> 'd dheap \<Rightarrow> 'd dheap \<Rightarrow> bool" where
  "relinked dt v h h' \<longleftrightarrow> view (h' dt) = v \<and> (\<forall>e. e \<noteq> dt \<longrightarrow> view (h' e) = view (h e)) \<and>
     (\<forall>e. body (h' e) = body (h e))"

definition refuses :: "('d \<Rightarrow> 'm) \<Rightarrow> nat \<Rightarrow> nat \<Rightarrow> 'd dheap \<Rightarrow> bool" where
  "refuses meth dt w h \<longleftrightarrow> meth (body (h w)) \<noteq> meth (body (h dt)) \<or>
     (case vpath h w of None \<Rightarrow> False | Some ws \<Rightarrow> dt \<in> set ws)"

lemma relinked_end:
  assumes "paths_end h" "relinked dt v h h'"
    and "\<And>w ws. v = Some w \<Longrightarrow> vpath h w = Some ws \<Longrightarrow> dt \<notin> set ws"
  shows "paths_end h'"
proof -
  have v': "view (h' dt) = v" "\<And>e. e \<noteq> dt \<Longrightarrow> view (h' e) = view (h e)"
    using assms(2) by (simp_all add: relinked_def)
  have nz: "vpath h' dt \<noteq> None"
  proof (cases v)
    case None
    then show ?thesis using vpath_last [of h' dt] v'(1) by simp
  next
    case (Some w)
    obtain ws where ws: "vpath h w = Some ws" using assms(1) by (auto simp: paths_end_def)
    have "vpath h' w = Some ws"
      by (rule vpath_upd [OF ws]) (use v'(2) assms(3) [OF Some ws] in metis)
    then show ?thesis using vpath_view [of h' dt w ws] v'(1) Some by simp
  qed
  show ?thesis
    unfolding paths_end_def
  proof
    fix d
    obtain ds where ds: "vpath h d = Some ds" using assms(1) by (auto simp: paths_end_def)
    show "vpath h' d \<noteq> None"
    proof (rule vpath_relink [OF ds _ nz])
      show "view (h' e) = view (h e)" if "e \<noteq> dt" for e by (rule v'(2) [OF that])
    qed
  qed
qed

lemma dtview_None:
  obtains h' where "dtview meth dt None h = Some (view (h dt), h')" "relinked dt None h h'"
proof -
  have o: "on_path h dt None = Some False" by (subst on_path.simps) simp
  show ?thesis
    by (rule that, simp add: dtview_def o Let_def) (auto simp: relinked_def split: option.split)
qed

lemma dtview_refused:
  assumes "paths_end h" "refuses meth dt w h"
  shows "dtview meth dt (Some w) h = Some (None, h)"
proof -
  obtain ws where ws: "vpath h w = Some ws" using assms(1) by (auto simp: paths_end_def)
  show ?thesis using on_path_iff [OF ws, of dt] ws assms(2) by (auto simp: dtview_def refuses_def)
qed

lemma dtview_done:
  assumes "paths_end h" "\<not> refuses meth dt w h"
  obtains h' where "dtview meth dt (Some w) h = Some (Some w, h')" "relinked dt (Some w) h h'"
proof -
  obtain ws where ws: "vpath h w = Some ws" using assms(1) by (auto simp: paths_end_def)
  then have o: "on_path h dt (Some w) = Some False" "meth (body (h w)) = meth (body (h dt))" "w \<noteq> dt"
    using on_path_iff [OF ws, of dt] vpath_Cons [OF ws] assms(2) by (auto simp: refuses_def)
  show ?thesis
    by (rule that, simp add: dtview_def o Let_def) (use o(3) in \<open>auto simp: relinked_def split: option.split\<close>)
qed

text \<open>
  C23. \<open>dtview\<close> keeps every view path finite: it always returns, refuses (with \<open>NULL\<close>, changing
  nothing) exactly a view with another method or from which the dictionary itself can be reached, and
  sets the view otherwise.  So every chain of views ends afterwards, whatever it is called with, and
  with it the loops of \<open>dtvsearch\<close>, \<open>nv_search\<close> and \<open>dtview\<close>.
\<close>

theorem dtview_acyclic:
  assumes "paths_end h"
  shows "\<exists>r h'. dtview meth dt v h = Some (r, h') \<and> paths_end h' \<and>
    (case v of
       None \<Rightarrow> r = view (h dt) \<and> relinked dt None h h'
     | Some w \<Rightarrow> if refuses meth dt w h then r = None \<and> h' = h else r = v \<and> relinked dt v h h')"
proof (cases v)
  case None
  obtain h' where h': "dtview meth dt None h = Some (view (h dt), h')" "relinked dt None h h'"
    using dtview_None .
  then show ?thesis using None relinked_end [OF assms h'(2)] by auto
next
  case (Some w)
  show ?thesis
  proof (cases "refuses meth dt w h")
    case True
    then show ?thesis using dtview_refused [OF assms True] assms Some by simp
  next
    case False
    obtain h' where h': "dtview meth dt (Some w) h = Some (Some w, h')" "relinked dt (Some w) h h'"
      using dtview_done [OF assms False] .
    have "paths_end h'"
      by (rule relinked_end [OF assms h'(2)]) (use False in \<open>auto simp: refuses_def\<close>)
    then show ?thesis using h' Some False by simp
  qed
qed

end
