(* ===== verification/DtOverlay.thy ===== *)
theory DtOverlay
  imports DtView
begin

text \<open>
  A view path of ordered sets behaves as one ordered set in which the objects of the nearer
  dictionaries hide those of the farther ones with the same key.
\<close>

section \<open>Overlays\<close>

fun overlay :: "('o, 'k) dtdisc \<Rightarrow> 'o list \<Rightarrow> 'o list \<Rightarrow> 'o list" where
  "overlay D [] ys = ys"
| "overlay D (x # xs) [] = x # xs"
| "overlay D (x # xs) (y # ys) =
     (if dcmp D (dkey D x) (dkey D y) < 0 then x # overlay D xs (y # ys)
      else if dcmp D (dkey D x) (dkey D y) = 0 then x # overlay D xs ys
      else y # overlay D (x # xs) ys)"

primrec visible :: "('o, 'k) dtdisc \<Rightarrow> 'o list list \<Rightarrow> 'o list" where
  "visible D [] = []"
| "visible D (xs # xss) = overlay D xs (visible D xss)"

lemma overlay_Nil [simp]: "overlay D xs [] = xs"
  by (cases xs) auto

lemma overlay_set: "z \<in> set (overlay D xs ys) \<Longrightarrow> z \<in> set xs \<or> z \<in> set ys"
  by (induction D xs ys rule: overlay.induct) (auto split: if_splits)

text \<open>The nearer of two objects, the first one on a tie: before (\<open>s = 1\<close>) or after (\<open>s = -1\<close>).\<close>

definition better :: "('o, 'k) dtdisc \<Rightarrow> int \<Rightarrow> 'o option \<Rightarrow> 'o option \<Rightarrow> 'o option" where
  "better D s a b =
     (case a of None \<Rightarrow> b
      | Some x \<Rightarrow> (case b of None \<Rightarrow> a
                 | Some y \<Rightarrow> if s * dcmp D (dkey D y) (dkey D x) < 0 then b else a))"

definition pick :: "int \<Rightarrow> 'o list \<Rightarrow> 'o option" where
  "pick s xs = (if s = 1 then first_of xs else last_of xs)"

text \<open>The end a query takes, of the objects it selects.\<close>

definition query_side :: "dtop \<Rightarrow> int" where
  "query_side op = (if op \<in> {DT_LAST, DT_PREV, DT_ATMOST} then -1 else 1)"

definition queries :: "dtop set" where
  "queries = {DT_FIRST, DT_LAST, DT_NEXT, DT_PREV, DT_ATLEAST, DT_ATMOST, DT_SEARCH, DT_MATCH}"

lemma pick_Nil [simp]: "pick s [] = None"
  by (simp add: pick_def first_of_def last_of_def)

lemma first_of_in: "first_of xs = Some x \<Longrightarrow> x \<in> set xs"
  by (cases xs) (auto simp: first_of_def)

lemma last_of_Cons: "last_of (x # ys) = orelse (last_of ys) (Some x)"
  by (simp add: last_of_def orelse_def)

context discipline
begin

lemma same_key:
  assumes "dcmp D k a = 0" "dcmp D k b = 0"
  shows "dcmp D b a = 0"
proof -
  have "dcmp D b k = 0" using assms(2) zero_flip by simp
  from zero_zero [OF this, of a] assms(1) show ?thesis by simp
qed

lemma overlay_above:
  assumes "\<forall>z \<in> set xs. dcmp D k (dkey D z) < 0" "\<forall>z \<in> set ys. dcmp D k (dkey D z) < 0"
  shows "\<forall>z \<in> set (overlay D xs ys). dcmp D k (dkey D z) < 0"
  using assms overlay_set [of _ D xs ys] by blast

lemma increasing_Cons: "increasing D (x # xs) \<longleftrightarrow> (\<forall>z \<in> set xs. dcmp D (dkey D x) (dkey D z) < 0) \<and> increasing D xs"
  by (simp add: increasing_def)

lemma above_less: "dcmp D k (dkey D y) < 0 \<Longrightarrow> increasing D (y # ys) \<Longrightarrow> \<forall>z \<in> set (y # ys). dcmp D k (dkey D z) < 0"
  using less_le_trans [of k "dkey D y"] by (auto simp: increasing_Cons dest: order_less_imp_le)

lemma above_zero: "dcmp D k (dkey D y) = 0 \<Longrightarrow> increasing D (y # ys) \<Longrightarrow> \<forall>z \<in> set ys. dcmp D k (dkey D z) < 0"
  using zero_less [of k "dkey D y"] by (simp add: increasing_Cons)

lemma overlay_increasing: "increasing D xs \<Longrightarrow> increasing D ys \<Longrightarrow> increasing D (overlay D xs ys)"
proof (induction D\<equiv>D xs ys rule: overlay.induct)
  case (3 x xs y ys)
  let ?c = "dcmp D (dkey D x) (dkey D y)"
  have x: "\<forall>z \<in> set xs. dcmp D (dkey D x) (dkey D z) < 0" "increasing D xs"
    and y: "\<forall>z \<in> set ys. dcmp D (dkey D y) (dkey D z) < 0" "increasing D ys"
    using 3(4,5) by (simp_all add: increasing_Cons)
  consider (lt) "?c < 0" | (eq) "?c = 0" | (gt) "0 < ?c" by linarith
  then show ?case
  proof cases
    case lt
    then show ?thesis
      using 3(1) [OF lt x(2) 3(5)] overlay_above [OF x(1) above_less [OF lt 3(5)]]
      by (simp add: increasing_Cons)
  next
    case eq
    then show ?thesis
      using 3(2) [OF _ eq x(2) y(2)] overlay_above [OF x(1) above_zero [OF eq 3(5)]]
      by (simp add: increasing_Cons)
  next
    case gt
    then have "dcmp D (dkey D y) (dkey D x) < 0" by (simp add: cmp_flip)
    then show ?thesis
      using 3(3) [OF _ _ 3(4) y(2)] gt overlay_above [OF above_less [OF _ 3(4)] y(1)]
      by (simp add: increasing_Cons)
  qed
qed (simp_all add: increasing_def)

text \<open>A condition on keys alone can be tested before or after.\<close>

definition key_pred :: "('o \<Rightarrow> bool) \<Rightarrow> bool" where
  "key_pred P \<longleftrightarrow> (\<forall>x y. dcmp D (dkey D x) (dkey D y) = 0 \<longrightarrow> P x = P y)"

lemma overlay_less: "\<forall>z \<in> set ys. dcmp D (dkey D x) (dkey D z) < 0 \<Longrightarrow> overlay D (x # xs) ys = x # overlay D xs ys"
  by (cases ys) auto

lemma overlay_greater: "\<forall>z \<in> set xs. dcmp D (dkey D y) (dkey D z) < 0 \<Longrightarrow> overlay D xs (y # ys) = y # overlay D xs ys"
  using cmp_flip [of "dkey D y"] by (cases xs) auto

lemma overlay_filter:
  "key_pred P \<Longrightarrow> increasing D xs \<Longrightarrow> increasing D ys \<Longrightarrow>
   filter P (overlay D xs ys) = overlay D (filter P xs) (filter P ys)"
proof (induction D\<equiv>D xs ys rule: overlay.induct)
  case (3 x xs y ys)
  let ?c = "dcmp D (dkey D x) (dkey D y)"
  have x: "increasing D xs" and y: "increasing D ys" using 3(5,6) by (simp_all add: increasing_Cons)
  consider (lt) "?c < 0" | (eq) "?c = 0" | (gt) "0 < ?c" by linarith
  then show ?case
  proof cases
    case lt
    have "\<forall>z \<in> set (filter P (y # ys)). dcmp D (dkey D x) (dkey D z) < 0"
      using above_less [OF lt 3(6)] by auto
    then show ?thesis
      using 3(1) [OF lt 3(4) x 3(6)] lt overlay_less [of "filter P (y # ys)" x "filter P xs"] by auto
  next
    case eq
    then have "P x = P y" using 3(4) by (simp add: key_pred_def)
    then show ?thesis using 3(2) [OF _ eq 3(4) x y] eq by simp
  next
    case gt
    then have "dcmp D (dkey D y) (dkey D x) < 0" by (simp add: cmp_flip)
    from above_less [OF this 3(5)]
    have "\<forall>z \<in> set (filter P (x # xs)). dcmp D (dkey D y) (dkey D z) < 0" by auto
    then show ?thesis
      using 3(3) [OF _ _ 3(4,5) y] gt overlay_greater [of "filter P (x # xs)" y "filter P ys"] by auto
  qed
qed simp_all

lemma pick_in: "pick s ys = Some z \<Longrightarrow> z \<in> set ys"
  by (auto simp: pick_def first_of_def last_of_def split: list.splits if_splits)

lemma first_overlay: "first_of (overlay D xs ys) = better D 1 (first_of xs) (first_of ys)"
proof (cases xs)
  case x: (Cons x xs')
  show ?thesis
  proof (cases ys)
    case (Cons y ys')
    then show ?thesis
      using x cmp_flip [of "dkey D x" "dkey D y"] cmp_flip [of "dkey D y" "dkey D x"]
      by (auto simp: first_of_def better_def)
  qed (simp add: first_of_def better_def x)
qed (simp add: first_of_def better_def)

lemma last_above: "increasing D (x # xs) \<Longrightarrow> xs \<noteq> [] \<Longrightarrow> dcmp D (dkey D x) (dkey D (last xs)) < 0"
  by (simp add: increasing_Cons)

lemma last_overlay:
  "increasing D xs \<Longrightarrow> increasing D ys \<Longrightarrow> last_of (overlay D xs ys) = better D (-1) (last_of xs) (last_of ys)"
proof (induction D\<equiv>D xs ys rule: overlay.induct)
  case (3 x xs y ys)
  let ?c = "dcmp D (dkey D x) (dkey D y)"
  have x: "increasing D xs" and y: "increasing D ys" using 3(4,5) by (simp_all add: increasing_Cons)
  have ne: "overlay D xs (y # ys) \<noteq> []" "overlay D (x # xs) ys \<noteq> []"
    by (cases xs; simp) (cases ys; simp)
  consider (lt) "?c < 0" | (eq) "?c = 0" | (gt) "0 < ?c" by linarith
  then show ?case
  proof cases
    case lt
    note a = above_less [OF lt 3(5)]
    have "dcmp D (dkey D x) (dkey D (last (y # ys))) < 0" using a last_in_set by blast
    then show ?thesis
      using 3(1) [OF lt x 3(5)] lt ne by (auto simp: last_of_def better_def cmp_flip)
  next
    case eq
    have z: "dcmp D (dkey D y) (dkey D x) = 0" using eq zero_flip by simp
    have yx: "0 < dcmp D (dkey D (last ys)) (dkey D x)" if "ys \<noteq> []"
      using above_zero [OF eq 3(5)] that cmp_flip by auto
    have xy: "dcmp D (dkey D y) (dkey D (last xs)) < 0" if "xs \<noteq> []"
      using above_zero [OF z 3(4)] that by auto
    show ?thesis
      using 3(2) [OF _ eq x y] eq z yx xy
      by (cases xs; cases ys) (auto simp: last_of_def better_def)
  next
    case gt
    then have g: "dcmp D (dkey D y) (dkey D x) < 0" by (simp add: cmp_flip)
    note a = above_less [OF g 3(4)]
    have "dcmp D (dkey D y) (dkey D (last (x # xs))) < 0" using a last_in_set by blast
    then show ?thesis
      using 3(3) [OF _ _ 3(4) y] gt ne by (auto simp: last_of_def better_def)
  qed
qed (auto simp: last_of_def better_def split: option.split)

lemma pick_overlay:
  "s = 1 \<or> s = -1 \<Longrightarrow> increasing D xs \<Longrightarrow> increasing D ys \<Longrightarrow>
   pick s (overlay D xs ys) = better D s (pick s xs) (pick s ys)"
  by (auto simp: pick_def first_overlay last_overlay)

lemma better_assoc: "better D s (better D s a b) c = better D s a (better D s b c)"
  if s: "s = 1 \<or> s = -1"
proof (cases a)
  case (Some x)
  show ?thesis
  proof (cases b)
    case y: (Some y)
    show ?thesis
    proof (cases c)
      case z: (Some z)
      show ?thesis
        using s less_le_trans [of "dkey D z" "dkey D y" "dkey D x"] le_less_trans [of "dkey D z" "dkey D y" "dkey D x"]
          less_le_trans [of "dkey D y" "dkey D z" "dkey D x"]
          less_le_trans [of "dkey D z" "dkey D x" "dkey D y"] less_le_trans [of "dkey D x" "dkey D z" "dkey D y"]
          less_le_trans [of "dkey D x" "dkey D y" "dkey D z"] le_less_trans [of "dkey D x" "dkey D y" "dkey D z"]
          cmp_flip [of "dkey D x" "dkey D y"] cmp_flip [of "dkey D y" "dkey D x"]
          cmp_flip [of "dkey D y" "dkey D z"] cmp_flip [of "dkey D z" "dkey D y"]
          cmp_flip [of "dkey D x" "dkey D z"] cmp_flip [of "dkey D z" "dkey D x"]
        unfolding Some y z better_def by (auto split: if_splits)
    qed (simp add: better_def Some y)
  qed (simp add: better_def Some)
qed (simp add: better_def)

section \<open>Queries\<close>

lemma find_first: "List.find P xs = first_of (filter P xs)"
  by (induction xs) (auto simp: first_of_def)

text \<open>Looking up a key in an overlay.\<close>

lemma lookup_overlay:
  assumes "increasing D xs" "increasing D ys"
  shows "lookup D k (overlay D xs ys) = orelse (lookup D k xs) (lookup D k ys)"
proof -
  let ?P = "\<lambda>z. dcmp D k (dkey D z) = 0"
  have "key_pred ?P"
    using zero_zero zero_flip by (auto simp: key_pred_def)
  note f = overlay_filter [OF this assms]
  have "better D 1 (first_of (filter ?P xs)) (first_of (filter ?P ys)) =
      orelse (first_of (filter ?P xs)) (first_of (filter ?P ys))"
  proof (cases "first_of (filter ?P xs)"; cases "first_of (filter ?P ys)")
    fix x y assume x: "first_of (filter ?P xs) = Some x" and y: "first_of (filter ?P ys) = Some y"
    have "x \<in> set (filter ?P xs)" "y \<in> set (filter ?P ys)"
      using x y by (simp_all only: first_of_in)
    then have "dcmp D (dkey D y) (dkey D x) = 0" using same_key [of k "dkey D x" "dkey D y"] by simp
    with x y show ?thesis by (simp add: better_def orelse_def)
  qed (simp_all add: better_def orelse_def)
  then show ?thesis unfolding lookup_def find_first f first_overlay .
qed

text \<open>The objects a query selects.\<close>

definition query_of :: "dtop \<Rightarrow> ('o, 'k) dtarg \<Rightarrow> 'o \<Rightarrow> bool" where
  "query_of op arg y =
     (case arg of
        Obj x \<Rightarrow>
          (let c = dcmp D (dkey D x) (dkey D y) in
           if op = DT_SEARCH then c = 0 else if op = DT_NEXT then c < 0 else if op = DT_PREV then 0 < c
           else if op = DT_ATLEAST then c \<le> 0 else if op = DT_ATMOST then 0 \<le> c else True)
      | Key k \<Rightarrow> (op = DT_MATCH \<longrightarrow> dcmp D k (dkey D y) = 0)
      | _ \<Rightarrow> True)"

lemma first_atleast:
  "increasing D xs \<Longrightarrow> orelse (lookup D k xs) (first_of (upper D k xs)) = first_of (filter (\<lambda>y. dcmp D k (dkey D y) \<le> 0) xs)"
proof (induction xs)
  case (Cons x xs)
  show ?case
  proof (cases "dcmp D k (dkey D x)" "0 :: int" rule: linorder_cases)
    case less
    have "lookup D k (x # xs) = None"
      using above_less [OF less Cons.prems] by (auto simp: lookup_def find_None_iff)
    then show ?thesis using less by (simp add: orelse_def upper_def first_of_def)
  next
    case equal
    then show ?thesis by (simp add: orelse_def lookup_def first_of_def)
  next
    case greater
    then show ?thesis using Cons by (simp add: lookup_def upper_def increasing_Cons)
  qed
qed (simp add: orelse_def lookup_def upper_def first_of_def)

lemma last_atmost:
  "increasing D xs \<Longrightarrow> orelse (lookup D k xs) (last_of (lower D k xs)) = last_of (filter (\<lambda>y. 0 \<le> dcmp D k (dkey D y)) xs)"
proof (induction xs)
  case (Cons x xs)
  have x: "increasing D xs" using Cons.prems by (simp add: increasing_Cons)
  show ?case
  proof (cases "dcmp D k (dkey D x)" "0 :: int" rule: linorder_cases)
    case less
    have a: "\<forall>z \<in> set (x # xs). dcmp D k (dkey D z) < 0" by (rule above_less [OF less Cons.prems])
    then have "lookup D k (x # xs) = None" "lower D k (x # xs) = []"
      "filter (\<lambda>y. 0 \<le> dcmp D k (dkey D y)) (x # xs) = []"
      by (auto simp: lookup_def find_None_iff lower_def filter_empty_conv)
    then show ?thesis by (simp add: orelse_def last_of_def)
  next
    case equal
    have a: "\<forall>z \<in> set xs. dcmp D k (dkey D z) < 0" by (rule above_zero [OF equal Cons.prems])
    then have "filter (\<lambda>y. 0 \<le> dcmp D k (dkey D y)) xs = []" by (auto simp: filter_empty_conv)
    then show ?thesis using equal by (simp add: orelse_def lookup_def last_of_def)
  next
    case greater
    have "orelse (lookup D k xs) (orelse (last_of (lower D k xs)) (Some x)) =
      orelse (orelse (lookup D k xs) (last_of (lower D k xs))) (Some x)"
      by (simp add: orelse_def split: option.split)
    then show ?thesis using Cons.IH [OF x] greater by (simp add: lookup_def lower_def last_of_Cons)
  qed
qed (simp add: orelse_def lookup_def lower_def last_of_def)

lemma query_of_simps:
  "query_of DT_FIRST arg = (\<lambda>_. True)" "query_of DT_LAST arg = (\<lambda>_. True)"
  "query_of DT_SEARCH (Obj x) = (\<lambda>y. dcmp D (dkey D x) (dkey D y) = 0)"
  "query_of DT_NEXT (Obj x) = (\<lambda>y. dcmp D (dkey D x) (dkey D y) < 0)"
  "query_of DT_PREV (Obj x) = (\<lambda>y. 0 < dcmp D (dkey D x) (dkey D y))"
  "query_of DT_ATLEAST (Obj x) = (\<lambda>y. dcmp D (dkey D x) (dkey D y) \<le> 0)"
  "query_of DT_ATMOST (Obj x) = (\<lambda>y. 0 \<le> dcmp D (dkey D x) (dkey D y))"
  "query_of DT_MATCH (Key k) = (\<lambda>y. dcmp D k (dkey D y) = 0)"
  by (rule ext, simp add: query_of_def Let_def split: dtarg.split)+

lemma query_spec:
  assumes "increasing D xs" "op \<in> queries" "fits_op op arg"
  shows "oset_spec D op arg xs = (pick (query_side op) (filter (query_of op arg) xs), xs)"
proof -
  have t: "filter (\<lambda>_. True) xs = xs" by simp
  show ?thesis
    using assms(2,3) first_atleast [OF assms(1)] last_atmost [OF assms(1)]
    by (auto simp: queries_def fits_op_def query_side_def query_of_simps pick_def upper_def lower_def
        lookup_def find_first)
qed

lemma query_key: "key_pred (query_of op arg)"
proof -
  have "query_of op arg x = query_of op arg y" if "dcmp D (dkey D x) (dkey D y) = 0" for x y
  proof -
    have l: "dcmp D k (dkey D x) < 0 \<longleftrightarrow> dcmp D k (dkey D y) < 0" for k
      unfolding cmp_flip [of k] by (rule zero_greater [OF that])
    have z: "dcmp D k (dkey D x) = 0 \<longleftrightarrow> dcmp D k (dkey D y) = 0" for k
      unfolding zero_flip [of k] by (rule zero_zero [OF that])
    have "dcmp D k (dkey D x) \<le> 0 \<longleftrightarrow> dcmp D k (dkey D y) \<le> 0"
      "0 < dcmp D k (dkey D x) \<longleftrightarrow> 0 < dcmp D k (dkey D y)"
      "0 \<le> dcmp D k (dkey D x) \<longleftrightarrow> 0 \<le> dcmp D k (dkey D y)" for k
      using l [of k] z [of k] by linarith+
    with l z show ?thesis by (simp add: query_of_def Let_def split: dtarg.split)
  qed
  then show ?thesis by (simp add: key_pred_def)
qed

end

section \<open>The contract of a method\<close>

text \<open>What \<open>dtvsearch\<close> relies on of an ordered method: its operations refine the ordered set.\<close>

locale ordered_method = discipline D for D :: "('o, 'k) dtdisc" +
  fixes sf :: "('o, 'k, 'd) searchf" and objs :: "'d \<Rightarrow> 'o list" and ok :: "'d \<Rightarrow> bool"
  assumes ok_increasing: "ok b \<Longrightarrow> increasing D (objs b)"
    and sf_refines: "ok b \<Longrightarrow> fits_op op arg \<Longrightarrow>
      \<exists>b'. sf arg {op} b = (Ret (fst (oset_spec D op arg (objs b))), b') \<and>
        objs b' = snd (oset_spec D op arg (objs b)) \<and> ok b'"
begin

text \<open>A query changes neither the objects nor the views.\<close>

definition unchanged :: "'d dheap \<Rightarrow> 'd dheap \<Rightarrow> bool" where
  "unchanged h h' \<longleftrightarrow> (\<forall>e. view (h' e) = view (h e) \<and> nview (h' e) = nview (h e) \<and>
     objs (body (h' e)) = objs (body (h e)) \<and> (ok (body (h e)) \<longrightarrow> ok (body (h' e))))"

lemma unchanged_trans: "unchanged a b \<Longrightarrow> unchanged b c \<Longrightarrow> unchanged a c"
  by (simp add: unchanged_def)

lemma unchanged_refl: "unchanged h h"
  by (simp add: unchanged_def)

lemma unchanged_walk: "unchanged h (set_walk d w h)"
  by (simp add: unchanged_def set_walk_def)

lemma search_at_spec:
  assumes "ok (body (h d))" "op \<in> queries" "fits_op op arg"
  obtains h' where "search_at sf arg {op} d h =
      (pick (query_side op) (filter (query_of op arg) (objs (body (h d)))), h')" "unchanged h h'"
proof -
  obtain b' where b: "sf arg {op} (body (h d)) = (Ret (fst (oset_spec D op arg (objs (body (h d))))), b')"
    "objs b' = snd (oset_spec D op arg (objs (body (h d))))" "ok b'"
    using sf_refines [OF assms(1,3)] by blast
  note q = query_spec [OF ok_increasing [OF assms(1)] assms(2,3)]
  have "unchanged h (set_body d b' h)" using b q by (simp add: unchanged_def set_body_def)
  with b(1) q show ?thesis by (intro that) (simp_all add: search_at_def)
qed

abbreviation (input) objects :: "'d dheap \<Rightarrow> nat list \<Rightarrow> 'o list list" where
  "objects h ds \<equiv> map (\<lambda>d. objs (body (h d))) ds"

lemma unchanged_objects: "unchanged h h' \<Longrightarrow> objects h' ds = objects h ds"
  by (simp add: unchanged_def)

lemma visible_increasing: "\<forall>d \<in> set ds. ok (body (h d)) \<Longrightarrow> increasing D (visible D (objects h ds))"
  by (induction ds) (auto simp: increasing_def [of _ "[]"] intro: overlay_increasing ok_increasing)

lemma side_cases: "query_side op = 1 \<or> query_side op = -1"
  by (simp add: query_side_def)

lemma pick_visible:
  assumes "ok (body (h d))" "\<forall>d \<in> set ds. ok (body (h d))"
  shows "pick (query_side op) (filter (query_of op arg) (visible D (objects h (d # ds)))) =
    better D (query_side op) (pick (query_side op) (filter (query_of op arg) (objs (body (h d)))))
      (pick (query_side op) (filter (query_of op arg) (visible D (objects h ds))))"
proof -
  note i = ok_increasing [OF assms(1)] visible_increasing [OF assms(2)]
  have "increasing D (filter (query_of op arg) (objs (body (h d))))"
    "increasing D (filter (query_of op arg) (visible D (objects h ds)))"
    using i by (simp_all add: increasing_def sorted_wrt_filter)
  from pick_overlay [OF side_cases this] show ?thesis
    by (simp add: overlay_filter [OF query_key i])
qed

lemma better_None [simp]: "better D s None b = b" "better D s b None = b"
  by (simp_all add: better_def split: option.split)

lemma view_best_spec:
  assumes "op \<in> queries - {DT_MATCH, DT_SEARCH}" "fits_op op arg"
  shows "\<forall>d \<in> set ds. ok (body (h d)) \<Longrightarrow>
    \<exists>b h'. view_best D sf arg {op} ds best h = (b, h') \<and> unchanged h h' \<and>
      map_option fst b = better D (query_side op) (map_option fst best)
        (pick (query_side op) (filter (query_of op arg) (visible D (objects h ds))))"
proof (induction ds arbitrary: best h)
  case Nil
  show ?case by (simp add: unchanged_refl)
next
  case (Cons d ds)
  have okd: "ok (body (h d))" "\<forall>d \<in> set ds. ok (body (h d))" using Cons.prems by simp_all
  have q: "op \<in> queries" using assms(1) by simp
  let ?r = "pick (query_side op) (filter (query_of op arg) (objs (body (h d))))"
  obtain h1 where h1: "search_at sf arg {op} d h = (?r, h1)" "unchanged h h1"
    using search_at_spec [where h = h and d = d, OF okd(1) q assms(2)] .
  have ok1: "\<forall>d \<in> set ds. ok (body (h1 d))" using okd(2) h1(2) by (simp add: unchanged_def)
  let ?best = "case ?r of None \<Rightarrow> best | Some x \<Rightarrow> (case best of None \<Rightarrow> Some (x, d)
     | Some (n, p) \<Rightarrow> let c = dcmp D (dkey D x) (dkey D n) in
         if (has {op} {DT_NEXT, DT_FIRST, DT_ATLEAST} \<and> c < 0) \<or>
            (has {op} {DT_PREV, DT_LAST, DT_ATMOST} \<and> c > 0) then Some (x, d) else Some (n, p))"
  have step: "view_best D sf arg {op} (d # ds) best h = view_best D sf arg {op} ds ?best h1"
    using h1(1) by (simp split: option.split)
  have m: "map_option fst ?best = better D (query_side op) (map_option fst best) ?r"
    using assms(1) by (auto simp: better_def query_side_def queries_def Let_def split: option.split)
  obtain b h' where b: "view_best D sf arg {op} ds ?best h1 = (b, h')" "unchanged h1 h'"
    "map_option fst b = better D (query_side op) (map_option fst ?best)
       (pick (query_side op) (filter (query_of op arg) (visible D (objects h1 ds))))"
    using Cons.IH [OF ok1] by blast
  have "map_option fst b = better D (query_side op) (map_option fst best)
       (pick (query_side op) (filter (query_of op arg) (visible D (objects h (d # ds)))))"
    unfolding b(3) m unchanged_objects [OF h1(2)] pick_visible [OF okd]
    by (rule better_assoc [OF side_cases])
  then show ?case
    using step b(1,2) unchanged_trans [OF h1(2)] by auto
qed

lemma view_first_spec:
  assumes "op \<in> {DT_MATCH, DT_SEARCH}" "fits_op op arg"
  shows "\<forall>d \<in> set ds. ok (body (h d)) \<Longrightarrow>
    \<exists>w h'. view_first sf arg {op} ds h =
        (pick (query_side op) (filter (query_of op arg) (visible D (objects h ds))), w, h') \<and> unchanged h h'"
proof (induction ds arbitrary: h)
  case Nil
  then show ?case by (simp add: unchanged_refl)
next
  case (Cons d ds)
  have okd: "ok (body (h d))" "\<forall>d \<in> set ds. ok (body (h d))" using Cons.prems by simp_all
  have q: "op \<in> queries" using assms(1) by (auto simp: queries_def)
  let ?r = "pick (query_side op) (filter (query_of op arg) (objs (body (h d))))"
  obtain h1 where h1: "search_at sf arg {op} d h = (?r, h1)" "unchanged h h1"
    using search_at_spec [where h = h and d = d, OF okd(1) q assms(2)] .
  have ok1: "\<forall>d \<in> set ds. ok (body (h1 d))" using okd(2) h1(2) by (simp add: unchanged_def)
  show ?case
  proof (cases ?r)
    case None
    then show ?thesis
      using h1 Cons.IH [OF ok1] pick_visible [OF okd] unchanged_objects [OF h1(2), of ds]
        unchanged_trans [OF h1(2)] by auto
  next
    case (Some x)
    let ?v = "pick (query_side op) (filter (query_of op arg) (visible D (objects h ds)))"
    have "better D (query_side op) (Some x) ?v = Some x"
    proof (cases ?v)
      case y: (Some y)
      have eq: "query_of op arg z" if "pick (query_side op) (filter (query_of op arg) xs) = Some z" for xs z
        using pick_in [OF that] by simp
      obtain k where "query_of op arg = (\<lambda>z. dcmp D k (dkey D z) = 0)"
        using assms by (auto simp: query_of_simps fits_op_def)
      with eq [OF Some] eq [OF y] have "dcmp D k (dkey D x) = 0" "dcmp D k (dkey D y) = 0" by simp_all
      then have "dcmp D (dkey D y) (dkey D x) = 0" by (rule same_key)
      then show ?thesis using y by (simp add: better_def)
    qed simp
    then show ?thesis using Some h1 pick_visible [OF okd] by auto
  qed
qed

text \<open>\<open>dtvsearch\<close> and the search function that \<open>dtview\<close> chose.\<close>

lemma dtvsearch_spec:
  assumes "op \<in> queries" "fits_op op arg" "vpath h dt = Some ds" "\<forall>d \<in> set ds. ok (body (h d))"
  shows "\<exists>h'. dtvsearch D sf dt arg {op} h = Some (Ret (fst (oset_spec D op arg (visible D (objects h ds)))), h') \<and>
    unchanged h h'"
proof -
  have nv: "\<not> has {op} DT_NOVIEWPATH" using assms(1) by (auto simp: queries_def DT_NOVIEWPATH_def)
  note q = query_spec [OF visible_increasing [OF assms(4)] assms(1,2)]
  show ?thesis
  proof (cases "op \<in> {DT_MATCH, DT_SEARCH}")
    case True
    obtain w h' where "view_first sf arg {op} ds h =
        (pick (query_side op) (filter (query_of op arg) (visible D (objects h ds))), w, h')" "unchanged h h'"
      using view_first_spec [OF True assms(2,4)] by blast
    then show ?thesis
      using nv q assms(3) True unchanged_trans [OF _ unchanged_walk] by (auto simp: dtvsearch_def)
  next
    case False
    then have b: "op \<in> queries - {DT_MATCH, DT_SEARCH}" using assms(1) by simp
    obtain bst h' where r: "view_best D sf arg {op} ds None h = (bst, h')" "unchanged h h'"
      "map_option fst bst = pick (query_side op) (filter (query_of op arg) (visible D (objects h ds)))"
      using view_best_spec [OF b assms(2,4), of None] by auto
    have o: "has {op} {DT_FIRST, DT_LAST, DT_NEXT, DT_PREV, DT_ATLEAST, DT_ATMOST}"
      using b by (auto simp: queries_def)
    show ?thesis
      using nv q assms(3) False r o unchanged_trans [OF r(2) unchanged_walk] by (auto simp: dtvsearch_def)
  qed
qed

lemma vsearch_spec:
  assumes "op \<in> queries" "fits_op op arg" "vpath h dt = Some ds" "\<forall>d \<in> set ds. ok (body (h d))"
  shows "\<exists>h'. vsearch D sf dt arg {op} h = Some (Ret (fst (oset_spec D op arg (visible D (objects h ds)))), h') \<and>
    unchanged h h'"
proof (cases "view (h dt)")
  case None
  then have ds: "ds = [dt]" using vpath_last [of h dt] assms(3) by simp
  with assms(4) have ok: "ok (body (h dt))" by simp
  obtain b' where b: "sf arg {op} (body (h dt)) = (Ret (fst (oset_spec D op arg (objs (body (h dt))))), b')"
    "objs b' = snd (oset_spec D op arg (objs (body (h dt))))" "ok b'"
    using sf_refines [OF ok assms(2)] by blast
  note q = query_spec [OF ok_increasing [OF ok] assms(1,2)]
  have "unchanged h (set_body dt b' h)" using b q by (simp add: unchanged_def set_body_def)
  then show ?thesis using None ds b(1) by (auto simp: vsearch_def)
next
  case (Some v)
  then show ?thesis using dtvsearch_spec [OF assms] by (simp add: vsearch_def)
qed

end

text \<open>The method \<open>Dtoset\<close> fulfils the contract for every discipline.\<close>

definition set_ok :: "('o, 'k) dtdisc \<Rightarrow> 'o dt \<Rightarrow> bool" where
  "set_ok D dt \<longleftrightarrow> dmeth dt = Dtoset \<and> increasing D (items dt)"

sublocale discipline \<subseteq> oset: ordered_method D "dttree D" items "set_ok D"
proof
  fix b :: "'o dt" and op :: dtop and arg :: "('o, 'k) dtarg"
  show "set_ok D b \<Longrightarrow> increasing D (items b)" by (simp add: set_ok_def)
  assume "set_ok D b" "fits_op op arg"
  moreover have "discipline D" by unfold_locales
  ultimately show "\<exists>b'. dttree D arg {op} b = (Ret (fst (oset_spec D op arg (items b))), b') \<and>
        items b' = snd (oset_spec D op arg (items b)) \<and> set_ok D b'"
    using dttree_set [of D b op arg] spec_increasing [of "items b" op arg]
    by (cases "dttree D arg {op} b") (auto simp: set_ok_def keeps_def)
qed

context discipline
begin

lemma view_answers:
  assumes "op \<in> queries" "fits_op op arg" "vpath h dt = Some ds" "\<forall>d \<in> set ds. set_ok D (body (h d))"
  shows "\<exists>h'. vsearch D (dttree D) dt arg {op} h =
      Some (Ret (fst (oset_spec D op arg (visible D (map (\<lambda>d. items (body (h d))) ds)))), h') \<and>
    (\<forall>e. view (h' e) = view (h e) \<and> items (body (h' e)) = items (body (h e)))"
  using oset.vsearch_spec [OF assms] by (auto simp: oset.unchanged_def)

end

text \<open>
  C6. A dictionary with a view path answers every query (first, last, next, previous, at least, at
  most, search, match) as one ordered set would that holds the objects of all dictionaries of the
  path, where of objects with the same key only the one of the nearest dictionary counts; no
  dictionary's objects and no view change.
\<close>

theorem view_is_overlay:
  assumes "discipline D" "op \<in> queries" "fits_op op arg" "vpath h dt = Some ds"
    and "\<forall>d \<in> set ds. set_ok D (body (h d))"
  shows "\<exists>h'. vsearch D (dttree D) dt arg {op} h =
      Some (Ret (fst (oset_spec D op arg (visible D (map (\<lambda>d. items (body (h d))) ds)))), h') \<and>
    (\<forall>e. view (h' e) = view (h e) \<and> items (body (h' e)) = items (body (h e)))"
  by (rule discipline.view_answers [OF assms])

end
