(* ===== verification/DtStat.thy ===== *)
theory DtStat
  imports DtSet
begin

text \<open>
  Flattening, extracting and restoring a dictionary, balancing its tree and counting its objects,
  and how the count \<open>data->size\<close> follows the objects.
\<close>

section \<open>Lists of links\<close>

lemma tflat_facts: "inorder (tflat t) = inorder t \<and> chain (tflat t) = inorder t"
proof (induction t rule: tflat.induct)
  case (1 t)
  show ?case
  proof (cases "rot_min t")
    case Leaf
    then show ?thesis by (subst (1 2) tflat.simps) simp
  next
    case (Node l x r)
    with 1 [of l x r] rot_min_Node [OF Node] show ?thesis by (subst (1 2) tflat.simps) simp
  qed
qed

lemmas tflat_simps [simp] = conjunct1 [OF tflat_facts] conjunct2 [OF tflat_facts]

lemma tlist_out_spec [simp]:
  "fst (tlist_out type dt) = items dt"
  "items (snd (tlist_out type dt)) = (if DT_FLATTEN \<in> type then items dt else [])"
  "keeps d (snd (tlist_out type dt)) = keeps d dt"
  "dsize (snd (tlist_out type dt)) = (if DT_FLATTEN \<in> type then dsize dt else 0)"
  by (simp_all add: tlist_out_def Let_def)

lemma right_chain_inorder [simp]: "inorder (right_chain xs t) = xs @ inorder t"
  by (induction xs) (simp_all add: right_chain_def)

lemma left_chain_inorder [simp]: "inorder (left_chain xs t) = inorder t @ rev xs"
  by (induction xs) (simp_all add: left_chain_def)

lemma right_chain_height: "height (right_chain xs Leaf) = length xs"
  by (induction xs) (simp_all add: right_chain_def)

section \<open>Balancing\<close>

lemma balance_inorder: "n = length xs \<Longrightarrow> inorder (tbalance xs n) = xs"
proof (induction xs n rule: tbalance.induct)
  case (1 xs n)
  show ?case
  proof (cases "n \<le> 2")
    case True
    then show ?thesis by (simp add: tbalance.simps [of xs n])
  next
    case False
    define m where "m = n div 2"
    have m: "m < length xs" using False 1 m_def by simp
    have "inorder (tbalance (take m xs) m) = take m xs"
      using 1(1) [OF False m_def] m by simp
    moreover have "inorder (tbalance (drop (m + 1) xs) (n - (m + 1))) = drop (m + 1) xs"
      using 1(2) [OF False m_def] 1(3) by simp
    ultimately show ?thesis
      using False m id_take_nth_drop [OF m] by (simp add: tbalance.simps [of xs n] m_def [symmetric] Let_def)
  qed
qed

text \<open>No tree with as many nodes is lower.\<close>

lemma balance_height: "n = length xs \<Longrightarrow> 0 < n \<Longrightarrow> 2 ^ (height (tbalance xs n) - 1) \<le> n"
proof (induction xs n rule: tbalance.induct)
  case (1 xs n)
  show ?case
  proof (cases "n \<le> 2")
    case True
    then have "n = 1 \<or> n = 2" using 1 by linarith
    moreover have "height (tbalance xs n) = length xs"
      using True by (simp add: tbalance.simps [of xs n] right_chain_height)
    ultimately show ?thesis using 1(3) by auto
  next
    case False
    define m where "m = n div 2"
    have m: "m < length xs" "0 < m" "0 < n - (m + 1)" "2 * m \<le> n" "2 * (n - (m + 1)) \<le> n"
      using False 1 m_def by simp_all
    let ?l = "height (tbalance (take m xs) m)" and ?r = "height (tbalance (drop (m + 1) xs) (n - (m + 1)))"
    have "2 ^ (?l - 1) \<le> m" using 1(1) [OF False m_def] m by simp
    moreover have "2 ^ (?r - 1) \<le> n - (m + 1)" using 1(2) [OF False m_def] 1(3) m by simp
    moreover have "0 < ?l" "0 < ?r"
      using m 1 balance_inorder [of m "take m xs"] balance_inorder [of "n - (m + 1)" "drop (m + 1) xs"]
      by (auto simp: neq0_conv [symmetric] eq_height_0 simp del: neq0_conv)
    ultimately have "2 ^ ?l \<le> n" "2 ^ ?r \<le> n"
      using m power_Suc [of "2::nat" "?l - 1"] power_Suc [of "2::nat" "?r - 1"] by simp_all
    then have "2 ^ max ?l ?r \<le> n" by (simp add: max_def)
    with False show ?thesis by (simp add: tbalance.simps [of xs n] m_def [symmetric] Let_def)
  qed
qed

lemma toptimize_spec [simp]:
  "items (toptimize dt) = items dt" "keeps d (toptimize dt) = keeps d dt" "dsize (toptimize dt) = dsize dt"
proof -
  obtain xs d' where "tlist_out {DT_FLATTEN} dt = (xs, d')" by fastforce
  moreover from this have "xs = items dt" "items d' = items dt" "\<And>d. keeps d d' = keeps d dt" "dsize d' = dsize dt"
    using tlist_out_spec(1,2) [of "{DT_FLATTEN}" dt] tlist_out_spec(3) [of _ "{DT_FLATTEN}" dt]
      tlist_out_spec(4) [of "{DT_FLATTEN}" dt] by simp_all
  ultimately show "items (toptimize dt) = items dt" "keeps d (toptimize dt) = keeps d dt" "dsize (toptimize dt) = dsize dt"
    by (simp_all add: toptimize_def balance_inorder)
qed

lemma toptimize_height: "items dt \<noteq> [] \<Longrightarrow> 2 ^ (height (droot (toptimize dt)) - 1) \<le> length (items dt)"
  using tlist_out_spec(1) [of "{DT_FLATTEN}" dt] balance_height [of "length (items dt)" "items dt"]
  by (cases "tlist_out {DT_FLATTEN} dt"; cases "droot dt") (simp_all add: toptimize_def)

section \<open>Counting\<close>

text \<open>The levels of a tree: what \<open>tsize\<close> reports when it does not give up.\<close>

lemma tsize_count:
  assumes "lev + height t \<le> DT_MAXRECURSE"
  shows "fst (tsize t lev st) = int (size t) \<and>
    smlev (snd (tsize t lev st)) = (if t = Leaf then smlev st else max (smlev st) (lev + height t - 1))"
  using assms
proof (induction t arbitrary: lev st)
  case Leaf
  then show ?case by simp
next
  case (Node l x r)
  have lv: "smlev (tlevel lev st) = max (smlev st) lev" by (simp add: tlevel_def Let_def)
  obtain y s1 where y: "tsize l (lev + 1) (tlevel lev st) = (y, s1)" by fastforce
  obtain z s2 where z: "tsize r (lev + 1) s1 = (z, s2)" by fastforce
  have "y = int (size l) \<and> smlev s1 = (if l = Leaf then max (smlev st) lev else max (max (smlev st) lev) (lev + height l))"
    using Node.IH(1) [of "lev + 1" "tlevel lev st"] Node.prems y lv by simp
  moreover have "z = int (size r) \<and> smlev s2 = (if r = Leaf then smlev s1 else max (smlev s1) (lev + height r))"
    using Node.IH(2) [of "lev + 1" s1] Node.prems z by simp
  ultimately show ?case
    using Node.prems y z by (auto simp: max_def)
qed

lemma log_bound: "2 ^ (h - 1) \<le> (n :: nat) \<Longrightarrow> n < 2 ^ 1024 \<Longrightarrow> h \<le> (1024 :: nat)"
proof (rule ccontr)
  assume a: "2 ^ (h - 1) \<le> n" "n < 2 ^ 1024" "\<not> h \<le> 1024"
  then have "(2::nat) ^ 1024 \<le> 2 ^ (h - 1)" by (intro power_increasing) auto
  with a show False by linarith
qed

text \<open>
  C25. Balancing makes \<open>dtstat\<close> exact: for every dictionary with fewer than \<open>2 ^ 1024\<close> objects it
  reports the number of the objects and keeps their sequence, never gives up at \<open>DT_MAXRECURSE\<close>,
  and the deepest level it reports is the least one a binary tree of that size can have.
\<close>

theorem dtstat_exact:
  assumes "DTTYPE dt {DT_STAT} = {DT_STAT}" "length (items dt) < 2 ^ 1024"
  shows "\<exists>st dt'. dttree D StatBuf {DT_STAT} dt = (RetSize (int (length (items dt))) (Some st), dt') \<and>
    items dt' = items dt \<and> ssize st = int (length (items dt)) \<and>
    (items dt \<noteq> [] \<longrightarrow> 2 ^ smlev st \<le> length (items dt))"
proof -
  let ?t = "droot (toptimize dt)"
  let ?s = "\<lparr>smeth = dmeth (toptimize dt), ssize = 0, sspace = 0, smlev = 0, smsize = 0,
    slsize = replicate DT_MAXSIZE 0\<rparr>"
  have i: "inorder ?t = items dt" by simp
  have h: "height ?t \<le> 1024 \<and> (items dt \<noteq> [] \<longrightarrow> 2 ^ (height ?t - 1) \<le> length (items dt))"
  proof (cases "items dt = []")
    case True
    with i have "?t = Leaf" using inorder_Leaf [of ?t] by metis
    with True show ?thesis by simp
  next
    case False
    from toptimize_height [OF this] show ?thesis using log_bound assms(2) by blast
  qed
  obtain n st where n: "tsize ?t 0 ?s = (n, st)" by fastforce
  have sz: "size ?t = length (items dt)" using i length_inorder [of ?t] by simp
  have "n = int (length (items dt)) \<and> smlev st = height ?t - 1"
    using tsize_count [of 0 ?t ?s] h n sz by (cases "?t = Leaf") auto
  then show ?thesis
    using n h assms(1) i by (simp add: dttree_def tstat_def Let_def)
qed

section \<open>The count of the objects\<close>

lemma items_size: "items a = items b \<Longrightarrow> size (droot a) = size (droot b)"
  using length_inorder [of "droot a"] length_inorder [of "droot b"] by simp

definition counted :: "'o dt \<Rightarrow> bool" where
  "counted dt \<longleftrightarrow> dsize dt = int (length (items dt))"

context discipline
begin

lemma enter_length:
  assumes "increasing D xs"
  shows "length (enter D k y xs) =
    length xs - (if lookup D k xs = None then 0 else 1) + (if y = None then 0 else 1)"
proof -
  have "length xs = length (lower D k xs) + length (upper D k xs) + (if lookup D k xs = None then 0 else 1)"
  proof (cases "lookup D k xs")
    case None
    then have "\<forall>x \<in> set xs. dcmp D k (dkey D x) \<noteq> 0" by (auto simp: lookup_def find_None_iff)
    then have "upper D k xs = filter (\<lambda>x. \<not> 0 < dcmp D k (dkey D x)) xs"
      unfolding upper_def by (intro filter_cong) auto
    then show ?thesis using None sum_length_filter_compl [of "\<lambda>x. 0 < dcmp D k (dkey D x)" xs]
      by (simp add: lower_def)
  next
    case (Some x)
    then obtain ls us where x: "xs = ls @ x # us" "dcmp D k (dkey D x) = 0"
      unfolding lookup_def find_Some_iff by (metis id_take_nth_drop)
    show ?thesis using parts_found [of ls x us k] assms x by simp
  qed
  then show ?thesis by (cases y) (auto simp: enter_def)
qed

text \<open>How an operation changes \<open>data->size\<close>.\<close>

lemma absent_count:
  assumes "dmeth dt = Dtoset" "op \<in> object_ops" "fits_op op arg" "arg_ok D op arg obj key me"
  shows "dsize (snd (snd (dt_absent D obj me L R {op} dt))) = dsize dt +
    (if op \<in> {DT_INSERT, DT_APPEND, DT_ATTACH, DT_INSTALL} \<and> (\<exists>x y. arg = Obj x \<and> made D op x = Some y) then 1 else 0)"
  using assms
  by (auto simp: fits_op_def arg_ok_def object_ops_def dt_absent_def)

lemma found_count:
  assumes "dmeth dt = Dtoset" "op \<in> object_ops" "fits_op op arg" "arg_ok D op arg obj key me"
  shows "dsize (snd (snd (dt_found D obj key me L x R {op} dt))) = dsize dt +
    (if op = DT_INSTALL \<and> (\<exists>x y. arg = Obj x \<and> made D op x = Some y) then 1
     else if op \<in> {DT_DELETE, DT_DETACH} \<or> (op = DT_REMOVE \<and> obj = Some x) then - 1 else 0)"
  using assms
  by (auto simp: fits_op_def arg_ok_def object_ops_def dt_found_def dt_relink_def)

lemma object_count:
  assumes "dmeth dt = Dtoset" "op \<in> object_ops" "fits_op op arg" "arg_ok D op arg obj key me"
    and "increasing D (items dt)" "op \<noteq> DT_RELINK"
  shows "dsize (snd (snd (dt_object D obj key me {op} dt))) - dsize dt =
    int (length (snd (oset_spec D op arg (items dt)))) - int (length (items dt)) +
    (if op = DT_INSTALL \<and> lookup D key (items dt) \<noteq> None then 1 else 0)"
proof -
  obtain m L R where st: "split_tree D obj key (droot dt) = (m, L, R)" by (metis prod_cases3)
  have "\<And>y. obj = Some y \<Longrightarrow> key = dkey D y" using assms(4) by (auto simp: arg_ok_def split: dtarg.splits)
  note p = split_set [OF st assms(5) this]
  have pos: "m \<noteq> None \<Longrightarrow> 0 < length (items dt)"
    using p(1) by (cases "droot dt") (auto simp: lookup_def)
  note e = enter_length [OF assms(5)]
  show ?thesis
  proof (cases m)
    case None
    then show ?thesis
      using absent_count [OF assms(1-4), of L R] st p(1) assms(2-4,6) e
      by (auto simp: dt_object_def fits_op_def object_ops_def arg_ok_def)
  next
    case (Some x)
    then show ?thesis
      using found_count [OF assms(1-4), of L x R] st p(1) assms(2-4,6) e pos
      by (auto simp: dt_object_def fits_op_def object_ops_def arg_ok_def)
  qed
qed

end

text \<open>
  C26. The number of objects a dictionary reports stays right: every operation on an ordered set but
  one keeps \<open>data->size\<close> equal to the number of the objects.  The exception is \<open>DT_INSTALL\<close> when an
  object with the key is there: it removes that object and counts one too many.
\<close>

theorem oset_size:
  assumes "discipline D" "dmeth dt = Dtoset" "increasing D (items dt)" "counted dt" "fits_op op arg"
    and "op \<noteq> DT_RELINK"
  shows "dsize (snd (dttree D arg {op} dt)) = int (length (items (snd (dttree D arg {op} dt)))) +
    (if op = DT_INSTALL \<and> (\<exists>x. arg = Obj x \<and> lookup D (dkey D x) (items dt) \<noteq> None) then 1 else 0)"
proof (cases "op \<in> object_ops")
  case True
  obtain obj key me where a: "arg_ok D op arg obj key me"
    "dttree D arg {op} dt = dt_return D (dt_object D obj key me {op} dt)"
    using dttree_object [OF assms(2) True assms(5)] .
  have "op = DT_INSTALL \<Longrightarrow> lookup D key (items dt) \<noteq> None \<longleftrightarrow>
      (\<exists>x. arg = Obj x \<and> lookup D (dkey D x) (items dt) \<noteq> None)"
    using a(1) assms(5) by (auto simp: arg_ok_def fits_op_def split: dtarg.splits)
  then show ?thesis
    using discipline.object_count [OF assms(1,2) True assms(5) a(1) assms(3,6)] assms(4) a(2)
      discipline.object_spec [OF assms(1,2) True assms(5) a(1) assms(3)]
    by (auto simp: counted_def result_is_def)
next
  case False
  then show ?thesis
    using fits_cases [OF assms(5) False] assms(2,4) tfirstlast_spec(5) [of "{op}" dt]
      items_size [OF tfirstlast_spec(3) [of "{op}" dt]]
    by (auto simp: dttree_def Let_def split_beta counted_def)
qed

section \<open>Extracting and restoring\<close>

context discipline
begin

lemma relink_step:
  assumes "dmeth dt = Dtoset" "increasing D (items dt @ [x])"
    and "dt_object D (Some x) (dkey D x) (Some x) {DT_RELINK} dt = (r, ty, dt')"
  shows "r = Some x \<and> items dt' = items dt @ [x] \<and> keeps dt dt' \<and> dsize dt' = dsize dt"
proof -
  have inc: "increasing D (items dt)"
    using assms(2) by (simp add: increasing_def sorted_wrt_append)
  have l: "\<forall>y \<in> set (items dt). 0 < dcmp D (dkey D x) (dkey D y)"
    using assms(2) cmp_flip by (auto simp: increasing_def sorted_wrt_append)
  have p: "lower D (dkey D x) (items dt) = items dt" "upper D (dkey D x) (items dt) = []"
    "lookup D (dkey D x) (items dt) = None"
    using parts_absent [OF l, of "[]"] by simp_all
  have o: "DT_RELINK \<in> object_ops" "fits_op DT_RELINK (Link x)"
    "arg_ok D DT_RELINK (Link x) (Some x) (dkey D x) (Some x)"
    by (simp_all add: object_ops_def fits_op_def arg_ok_def)
  have "dsize dt' = dsize dt"
  proof -
    obtain m L R where st: "split_tree D (Some x) (dkey D x) (droot dt) = (m, L, R)" by (metis prod_cases3)
    then have "m = None" using split_set [OF st inc] p(3) by simp
    then show ?thesis
      using assms(3) st absent_count [OF assms(1) o, of L R] by (auto simp: dt_object_def)
  qed
  then show ?thesis
    using object_spec [OF assms(1) o inc] assms(3) p by (simp add: result_is_def enter_def)
qed

lemma relink_all:
  "dmeth dt = Dtoset \<Longrightarrow> increasing D (items dt @ xs) \<Longrightarrow>
   items (trelink D xs dt) = items dt @ xs \<and> dsize (trelink D xs dt) = dsize dt + int (length xs) \<and>
   keeps dt (trelink D xs dt)"
proof (induction xs arbitrary: dt)
  case Nil
  then show ?case by simp
next
  case (Cons x xs)
  obtain r ty dt' where r: "dt_object D (Some x) (dkey D x) (Some x) {DT_RELINK} dt = (r, ty, dt')"
    by (metis prod_cases3)
  have "increasing D (items dt @ [x])" using Cons.prems(2) by (simp add: increasing_def sorted_wrt_append)
  note s = relink_step [OF Cons.prems(1) this r]
  have "increasing D (items (dt'\<lparr>dsize := dsize dt' + 1\<rparr>) @ xs)" using Cons.prems(2) s by simp
  moreover have "dmeth (dt'\<lparr>dsize := dsize dt' + 1\<rparr>) = Dtoset" using Cons.prems(1) s by (simp add: keeps_def)
  ultimately show ?case
    using Cons.IH [of "dt'\<lparr>dsize := dsize dt' + 1\<rparr>"] r s by (auto simp: keeps_def)
qed

end

text \<open>
  C24. Restoring an ordered set from the list that extracting it gave, as \<open>dtdisc\<close> and \<open>dtmethod\<close>
  do, brings back the same sequence of objects and counts them exactly; in between it is empty.
\<close>

theorem extract_restore:
  assumes "discipline D" "dmeth dt = Dtoset" "increasing D (items dt)"
  shows "\<exists>dt1 dt2. dttree D NoArg {DT_EXTRACT} dt = (RetLinks (items dt), dt1) \<and> items dt1 = [] \<and>
    dttree D (Links (items dt)) {DT_RESTORE} dt1 = (RetLinks (items dt), dt2) \<and>
    items dt2 = items dt \<and> counted dt2"
proof -
  obtain xs dt1 where o: "tlist_out {DT_EXTRACT} dt = (xs, dt1)" by fastforce
  then have xs: "xs = items dt" "items dt1 = []" "keeps dt dt1" "dmeth dt1 = Dtoset"
    using tlist_out_spec(1,2) [of "{DT_EXTRACT}" dt] tlist_out_spec(3) [of dt "{DT_EXTRACT}" dt] assms(2)
    by (simp_all add: keeps_def)
  have "items (tlist_in D xs dt1) = items dt \<and> dsize (tlist_in D xs dt1) = int (length xs)"
    using discipline.relink_all [OF assms(1), of "dt1\<lparr>dsize := 0\<rparr>" xs] assms(3) xs
    by (simp add: tlist_in_def)
  then show ?thesis
    using o xs assms(2) items_size [of "tlist_in D xs dt1" dt] by (simp add: dttree_def counted_def)
qed

end
