(* ===== verification/NvScope.thy ===== *)
theory NvScope
  imports DtOverlay DtStat
begin

text \<open>
  Names and scopes of the shell (\<open>src/src/cmd/ksh26/sh\<close>): the discipline of its dictionaries
  (\<open>defs.c\<close>, \<open>nv_compare\<close>), \<open>nv_search\<close> (\<open>nvdisc.c\<close>), \<open>nv_scan\<close> and the way \<open>sh_scope\<close> enters a
  scope (\<open>name.c\<close>), on the view paths of ordered sets.
\<close>

section \<open>The discipline of the shell's dictionaries\<close>

text \<open>A \<open>Namval_t*\<close>: its address and its name.\<close>

record namval =
  nvaddr :: nat
  nvname :: "byte list"

definition nv_compare :: "byte list \<Rightarrow> byte list \<Rightarrow> int" where
  "nv_compare sp dp = (if sp = dp then 0 else strcmp sp dp)"

definition Nvdisc :: "(namval, byte list) dtdisc" where
  "Nvdisc = \<lparr>dkey = nvname, dcmp = nv_compare, dmakef = None, dfreef = False, deventf = False,
     dembed = True, dmemory = (\<lambda>_. True)\<rparr>"

lemma Nvdisc_simps [simp]:
  "dkey Nvdisc = nvname" "dcmp Nvdisc = nv_compare" "dmakef Nvdisc = None" "dembed Nvdisc = True"
  by (simp_all add: Nvdisc_def)

lemma nv_compare_strcmp: "nv_compare a b = strcmp a b"
  by (simp add: nv_compare_def)

interpretation nvdisc: discipline Nvdisc
proof
  show "dcmp Nvdisc a a = 0" for a by (simp add: nv_compare_strcmp)
  show "dcmp Nvdisc a b < 0 \<longleftrightarrow> 0 < dcmp Nvdisc b a" for a b by (simp add: nv_compare_strcmp strcmp_flip)
  show "dcmp Nvdisc a b \<le> 0 \<Longrightarrow> dcmp Nvdisc b c \<le> 0 \<Longrightarrow> dcmp Nvdisc a c \<le> 0" for a b c
    using strcmp_trans by (simp add: nv_compare_strcmp)
qed simp

section \<open>Searching a name\<close>

text \<open>The store of dictionaries, the trees of the shell and the address of the next new node.\<close>

record scopes =
  dicts :: "namval dt dheap"
  var_tree :: nat
  var_base :: nat
  fun_tree :: nat
  bltin_tree :: nat
  namespace :: "nat option"
  fresh :: nat

text \<open>
  What \<open>nv_search\<close> reads besides: whether the state is \<open>SH_XARG\<close>, which nodes have attributes
  (\<open>nvflag\<close>), \<open>nv_name\<close>, and a node's bytes read as a string.
\<close>

record nvenv =
  xarg :: bool
  nvflag :: "namval \<Rightarrow> nat"
  nv_name :: "namval \<Rightarrow> byte list"
  nv_bytes :: "namval \<Rightarrow> byte list"

datatype nvmode = NV_ADD | NV_NOSCOPE | NV_REF

datatype nvarg = ByName "byte list" | ByNode namval

abbreviation nvview :: "nat \<Rightarrow> nat option \<Rightarrow> namval dt dheap \<Rightarrow> (nat option \<times> namval dt dheap) option" where
  "nvview \<equiv> dtview dmeth"

abbreviation nvsearch :: "nat \<Rightarrow> (namval, byte list) dtarg \<Rightarrow> dtop set \<Rightarrow> namval dt dheap \<Rightarrow>
    (namval dtret \<times> namval dt dheap) option" where
  "nvsearch \<equiv> vsearch Nvdisc (dttree Nvdisc)"

text \<open>A search that gives an object.\<close>

definition nvfind :: "nat \<Rightarrow> (namval, byte list) dtarg \<Rightarrow> dtop \<Rightarrow> namval dt dheap \<Rightarrow>
    (namval option \<times> namval dt dheap) option" where
  "nvfind root arg op h =
     (case nvsearch root arg {op} h of
        None \<Rightarrow> None
      | Some (r, h) \<Rightarrow> Some (case r of Ret x \<Rightarrow> x | _ \<Rightarrow> None, h))"

text \<open>Lines 999 to 1013: the node found, the root searched and the name.\<close>

definition nv_lookup :: "nvenv \<Rightarrow> nvarg \<Rightarrow> nat \<Rightarrow> nvmode set \<Rightarrow> nat option \<Rightarrow> scopes \<Rightarrow>
    (namval option \<times> nat \<times> byte list \<times> namval dt dheap) option" where
  "nv_lookup N name root mode dp S =
     Option.bind
       (case name of
          ByNode mp \<Rightarrow>
            Option.bind (nvfind root (Obj mp) DT_SEARCH (dicts S)) (\<lambda>(np, h).
              Some (np, root, if np = None \<and> NV_ADD \<in> mode then nv_name N mp else nv_bytes N mp, h))
        | ByName nm \<Rightarrow>
            (let root = (if nm \<noteq> [] \<and> hd nm = 46 \<and> root = var_tree S \<and> dp = None then var_base S else root)
             in Option.bind (nvfind root (Key nm) DT_MATCH (dicts S)) (\<lambda>(np, h). Some (np, root, nm, h))))
       (\<lambda>(np, root, nm, h).
          case np of
            Some x \<Rightarrow>
              if nvflag N x = 0 \<and> root = fun_tree S then
                (if NV_NOSCOPE \<in> mode then Some (None, root, nm, h)
                 else Option.bind (nvfind (bltin_tree S) (Key nm) DT_MATCH h) (\<lambda>(np, h). Some (np, root, nm, h)))
              else Some (np, root, nm, h)
          | None \<Rightarrow> Some (np, root, nm, h))"

definition newnode :: "byte list \<Rightarrow> scopes \<Rightarrow> namval \<times> scopes" where
  "newnode name S = (\<lparr>nvaddr = fresh S, nvname = name\<rparr>, S\<lparr>fresh := fresh S + 1\<rparr>)"

text \<open>Lines 1014 to 1025: the dictionary a new node goes to, and its insertion.\<close>

definition nv_add_root :: "nat \<Rightarrow> nvmode set \<Rightarrow> nat option \<Rightarrow> scopes \<Rightarrow> nat option" where
  "nv_add_root root mode dp S =
     (if namespace S \<noteq> None \<and> NV_NOSCOPE \<notin> mode \<and> root = var_tree S then namespace S
      else if dp = None \<and> NV_NOSCOPE \<notin> mode then map_option last (vpath (dicts S) root)
      else Some root)"

definition nv_add :: "byte list \<Rightarrow> nat \<Rightarrow> nvmode set \<Rightarrow> nat option \<Rightarrow> scopes \<Rightarrow>
    (namval option \<times> nat \<times> scopes) option" where
  "nv_add name root mode dp S =
     Option.bind (nv_add_root root mode dp S) (\<lambda>root.
       case newnode name S of (x, S) \<Rightarrow>
         Option.bind (nvfind root (Obj x) DT_INSERT (dicts S)) (\<lambda>(np, h). Some (np, root, S\<lparr>dicts := h\<rparr>)))"

definition nv_search :: "nvenv \<Rightarrow> nvarg \<Rightarrow> nat \<Rightarrow> nvmode set \<Rightarrow> scopes \<Rightarrow> (namval option \<times> scopes) option" where
  "nv_search N name root mode S =
     (if NV_ADD \<notin> mode \<and> xarg N \<and> (root = bltin_tree S \<or> root = fun_tree S) then Some (None, S)
      else
        Option.bind (if NV_NOSCOPE \<in> mode then nvview root None (dicts S) else Some (None, dicts S)) (\<lambda>(dp, h).
        Option.bind (nv_lookup N name root mode dp (S\<lparr>dicts := h\<rparr>)) (\<lambda>(np, root, nm, h).
        Option.bind
          (if np = None \<and> NV_ADD \<in> mode then nv_add nm root mode dp (S\<lparr>dicts := h\<rparr>)
           else Some (np, root, S\<lparr>dicts := h\<rparr>)) (\<lambda>(np, root, S).
        case dp of
          None \<Rightarrow> Some (np, S)
        | Some d \<Rightarrow> Option.bind (nvview root (Some d) (dicts S)) (\<lambda>(_, h). Some (np, S\<lparr>dicts := h\<rparr>))))))"

section \<open>Scanning and entering scopes\<close>



text \<open>
  \<open>sh_scope\<close> for a function without an environment list: a new dictionary, viewing the global one,
  the namespace's or the function's static scope, becomes \<open>var_tree\<close>.
\<close>

definition sh_scope :: "nat \<Rightarrow> nat option \<Rightarrow> scopes \<Rightarrow> scopes option" where
  "sh_scope new sdict S =
     (let base = (case namespace S of None \<Rightarrow> var_base S | Some d \<Rightarrow> d);
          h = (dicts S)(new := \<lparr>body = dtopen Dtoset False, view = None, walk = None, nview = 0\<rparr>)
      in Option.bind
           (case sdict of
              None \<Rightarrow> Some (base, h)
            | Some d \<Rightarrow> Option.bind (nvview d (Some base) h) (\<lambda>(_, h). Some (d, h)))
           (\<lambda>(base, h). Option.bind (nvview new (Some base) h) (\<lambda>(_, h).
              Some (S\<lparr>dicts := h, var_tree := new\<rparr>))))"

section \<open>Scopes\<close>

definition scopes_ok :: "namval dt dheap \<Rightarrow> bool" where
  "scopes_ok h \<longleftrightarrow> paths_end h \<and> (\<forall>d. set_ok Nvdisc (body (h d)))"

text \<open>Nothing a later search can notice has changed.\<close>

definition same_scopes :: "namval dt dheap \<Rightarrow> namval dt dheap \<Rightarrow> bool" where
  "same_scopes h h' \<longleftrightarrow> (\<forall>d. view (h' d) = view (h d) \<and> items (body (h' d)) = items (body (h d)))"

text \<open>The variables visible from a dictionary, in the order of their names.\<close>

definition in_scope :: "namval dt dheap \<Rightarrow> nat \<Rightarrow> namval list" where
  "in_scope h d = visible Nvdisc (map (\<lambda>e. items (body (h e))) (case vpath h d of None \<Rightarrow> [] | Some ds \<Rightarrow> ds))"

lemma same_scopes_vpath: "same_scopes h h' \<Longrightarrow> vpath h' d = vpath h d"
  by (rule vpath_same) (simp add: same_scopes_def)




text \<open>A query in a scope answers as one ordered set of the visible variables would.\<close>

lemma nvfind_query:
  assumes "scopes_ok h" "op \<in> queries" "fits_op op arg"
  obtains h' where "nvfind d arg op h = Some (fst (oset_spec Nvdisc op arg (in_scope h d)), h')"
    "scopes_ok h'" "same_scopes h h'"
proof -
  obtain ds where ds: "vpath h d = Some ds" using assms(1) by (auto simp: scopes_ok_def paths_end_def)
  have "\<forall>d \<in> set ds. set_ok Nvdisc (body (h d))" using assms(1) by (simp add: scopes_ok_def)
  from nvdisc.oset.vsearch_spec [OF assms(2,3) ds this] obtain h'
    where h': "nvsearch d arg {op} h = Some (Ret (fst (oset_spec Nvdisc op arg (in_scope h d))), h')"
      "nvdisc.oset.unchanged h h'"
    using ds by (auto simp: in_scope_def)
  have "same_scopes h h'" using h'(2) by (simp add: same_scopes_def nvdisc.oset.unchanged_def)
  moreover have "scopes_ok h'"
    using assms(1) h'(2) same_scopes_vpath [OF \<open>same_scopes h h'\<close>]
    by (simp add: scopes_ok_def paths_end_def nvdisc.oset.unchanged_def)
  ultimately show ?thesis using h'(1) by (intro that) (simp_all add: nvfind_def)
qed



section \<open>What a name means\<close>

text \<open>
  C3. A name that is looked up in the shell's variables means the visible variable of that name, the
  one of the innermost scope, and none when no scope has it; looking it up always ends and changes no
  scope.  (Names that start with a dot are looked up in the global scope.)
\<close>

theorem nv_search_visible:
  assumes "scopes_ok (dicts S)" "hd name \<noteq> 46 \<or> name = []" "var_tree S \<noteq> fun_tree S" "var_tree S \<noteq> bltin_tree S"
  shows "\<exists>S'. nv_search N (ByName name) (var_tree S) {} S =
      Some (lookup Nvdisc name (in_scope (dicts S) (var_tree S)), S') \<and>
    same_scopes (dicts S) (dicts S') \<and> scopes_ok (dicts S') \<and> S' = S\<lparr>dicts := dicts S'\<rparr>"
proof -
  have f: "fits_op DT_MATCH (Key name)" "DT_MATCH \<in> queries" by (simp_all add: fits_op_def queries_def)
  obtain h where h: "nvfind (var_tree S) (Key name) DT_MATCH (dicts S) =
      Some (lookup Nvdisc name (in_scope (dicts S) (var_tree S)), h)" "scopes_ok h" "same_scopes (dicts S) h"
    using nvfind_query [OF assms(1) f(2,1), of "var_tree S"] by auto
  show ?thesis
    using h assms(2-4)
    by (cases "lookup Nvdisc name (in_scope (dicts S) (var_tree S))")
      (auto simp: nv_search_def nv_lookup_def Let_def)
qed

text \<open>Restoring a view that was taken away.\<close>

lemma nvview_away:
  assumes "scopes_ok h"
  obtains h' where "nvview d None h = Some (view (h d), h')" "relinked d None h h'" "scopes_ok h'"
proof -
  obtain h' where h': "nvview d None h = Some (view (h d), h')" "relinked d None h h'"
    using dtview_None [of dmeth d h] .
  moreover have "scopes_ok h'"
    using assms relinked_end [OF _ h'(2)] h'(2) by (simp add: scopes_ok_def relinked_def)
  ultimately show ?thesis by (rule that)
qed

lemma nvview_back:
  assumes "scopes_ok h" "relinked d None h h1" "scopes_ok h2" "same_scopes h1 h2" "view (h d) = Some w"
  obtains h3 where "nvview d (Some w) h2 = Some (Some w, h3)" "scopes_ok h3" "same_scopes h h3"
proof -
  obtain ds where ds: "vpath h d = Some ds" using assms(1) by (auto simp: scopes_ok_def paths_end_def)
  then obtain ws where ws: "ds = d # ws" "vpath h w = Some ws"
    by (rule vpath_split) (use assms(5) in auto)
  have dw: "d \<notin> set ws" using vpath_distinct [OF ds] ws by simp
  have v: "view (h2 e) = view (h e)" if "e \<noteq> d" for e
    using assms(2,4) that by (simp add: relinked_def same_scopes_def)
  have p: "vpath h2 w = Some ws" by (rule vpath_upd [OF ws(2)]) (use v dw in metis)
  have m: "dmeth (body (h2 e)) = Dtoset" for e using assms(3) by (simp add: scopes_ok_def set_ok_def)
  have "\<not> refuses dmeth d w h2" using p dw m by (simp add: refuses_def)
  have "paths_end h2" using assms(3) by (simp add: scopes_ok_def)
  with \<open>\<not> refuses dmeth d w h2\<close> obtain h3 where h3: "nvview d (Some w) h2 = Some (Some w, h3)" "relinked d (Some w) h2 h3"
    using dtview_done by blast
  have "same_scopes h h3"
    unfolding same_scopes_def
  proof (intro allI conjI)
    fix e
    show "view (h3 e) = view (h e)" using h3(2) v assms(5) by (cases "e = d") (simp_all add: relinked_def)
    show "items (body (h3 e)) = items (body (h e))"
      using h3(2) assms(2,4) by (simp add: relinked_def same_scopes_def)
  qed
  moreover have "paths_end h3"
    by (rule relinked_end [OF \<open>paths_end h2\<close> h3(2)]) (use p dw in auto)
  then have "scopes_ok h3" using assms(3) h3(2) by (simp add: scopes_ok_def relinked_def)
  ultimately show ?thesis using h3(1) that by blast
qed

text \<open>
  C22. With \<open>NV_NOSCOPE\<close> a name is looked up in the given scope alone, and the view path is put back
  as it was, so that the lookup changes no scope.
\<close>

theorem nv_search_noscope:
  assumes "scopes_ok (dicts S)" "root \<noteq> fun_tree S" "root \<noteq> bltin_tree S" "hd name \<noteq> 46 \<or> name = []"
  shows "\<exists>S'. nv_search N (ByName name) root {NV_NOSCOPE} S =
      Some (lookup Nvdisc name (items (body (dicts S root))), S') \<and>
    same_scopes (dicts S) (dicts S') \<and> scopes_ok (dicts S')"
proof -
  obtain h1 where h1: "nvview root None (dicts S) = Some (view (dicts S root), h1)"
    "relinked root None (dicts S) h1" "scopes_ok h1"
    using nvview_away [OF assms(1)] .
  have "vpath h1 root = Some [root]" using h1(2) by (intro vpath_last) (simp add: relinked_def)
  then have "in_scope h1 root = items (body (dicts S root))" using h1(2) by (simp add: in_scope_def relinked_def)
  moreover have f: "fits_op DT_MATCH (Key name)" "DT_MATCH \<in> queries" by (simp_all add: fits_op_def queries_def)
  ultimately obtain h2 where h2: "nvfind root (Key name) DT_MATCH h1 =
      Some (lookup Nvdisc name (items (body (dicts S root))), h2)" "scopes_ok h2" "same_scopes h1 h2"
    using nvfind_query [OF h1(3) f(2,1), of root] by auto
  have l: "nv_lookup N (ByName name) root {NV_NOSCOPE} dp (S\<lparr>dicts := h1\<rparr>) =
      Some (lookup Nvdisc name (items (body (dicts S root))), root, name, h2)" for dp
    using h2(1) assms(2,4) by (cases "lookup Nvdisc name (items (body (dicts S root)))") (auto simp: nv_lookup_def Let_def)
  have d: "(NV_ADD \<notin> {NV_NOSCOPE} \<and> xarg N \<and> (root = bltin_tree S \<or> root = fun_tree S)) = False"
    using assms(2,3) by simp
  show ?thesis
  proof (cases "view (dicts S root)")
    case None
    have "same_scopes (dicts S) h2"
      unfolding same_scopes_def
    proof
      fix e
      show "view (h2 e) = view (dicts S e) \<and> items (body (h2 e)) = items (body (dicts S e))"
        using h1(2) h2(3) None by (cases "e = root") (simp_all add: same_scopes_def relinked_def)
    qed
    then show ?thesis using None h1(1) l h2(2) unfolding nv_search_def d by simp
  next
    case (Some w)
    obtain h3 where "nvview root (Some w) h2 = Some (Some w, h3)" "scopes_ok h3" "same_scopes (dicts S) h3"
      using nvview_back [OF assms(1) h1(2) h2(2,3) Some] .
    then show ?thesis using Some h1(1) l unfolding nv_search_def d by simp
  qed
qed




end
