(* ===== verification/DtWitness.thy ===== *)
theory DtWitness
  imports NvScope
begin

text \<open>
  The dictionary properties at concrete inputs: a function's scope with a variable \<open>a\<close> of its own,
  whose caller's scope has \<open>a\<close> and \<open>c\<close>.
\<close>

definition nv_a :: namval where "nv_a = \<lparr>nvaddr = 1, nvname = [97]\<rparr>"
definition nv_b :: namval where "nv_b = \<lparr>nvaddr = 2, nvname = [98]\<rparr>"
definition nv_c :: namval where "nv_c = \<lparr>nvaddr = 3, nvname = [99]\<rparr>"
definition nv_local :: namval where "nv_local = \<lparr>nvaddr = 4, nvname = [97]\<rparr>"

definition set_of :: "namval tree \<Rightarrow> namval dt" where
  "set_of t = \<lparr>droot = t, dsize = int (size t), dmeth = Dtoset, dannounce = False, dold = False, dlog = []\<rparr>"

definition global_set :: "namval dt" where
  "global_set = set_of \<langle>Leaf, nv_a, \<langle>Leaf, nv_c, Leaf\<rangle>\<rangle>"

definition local_set :: "namval dt" where
  "local_set = set_of \<langle>Leaf, nv_local, Leaf\<rangle>"

definition scope_store :: "namval dt dheap" where
  "scope_store = (\<lambda>d.
     if d = 0 then \<lparr>body = global_set, view = None, walk = None, nview = 1\<rparr>
     else if d = 1 then \<lparr>body = local_set, view = Some 0, walk = None, nview = 0\<rparr>
     else \<lparr>body = set_of Leaf, view = None, walk = None, nview = 0\<rparr>)"

definition scope_state :: scopes where
  "scope_state = \<lparr>dicts = scope_store, var_tree = 1, var_base = 0, fun_tree = 2, bltin_tree = 3,
     namespace = None, fresh = 5\<rparr>"

definition sample_env :: nvenv where
  "sample_env = \<lparr>xarg = False, nvflag = (\<lambda>_. 0), nv_name = nvname, nv_bytes = (\<lambda>_. [])\<rparr>"

lemmas nv_defs = nv_a_def nv_b_def nv_c_def nv_local_def

lemma sample_items:
  "items global_set = [nv_a, nv_c]" "items local_set = [nv_local]" "items (set_of Leaf) = []"
  "dmeth (set_of t) = Dtoset" "dmeth global_set = Dtoset" "dmeth local_set = Dtoset"
  by (simp_all add: global_set_def local_set_def set_of_def)

lemma sample_increasing: "increasing Nvdisc [nv_a, nv_c]" "increasing Nvdisc [nv_local]" "increasing Nvdisc []"
  by (simp_all add: increasing_def nv_defs nv_compare_def)

lemma oset_refines_witness:
  "\<exists>dt'. dttree Nvdisc (Obj nv_b) {DT_INSERT} global_set = (Ret (Some nv_b), dt') \<and>
    items dt' = [nv_a, nv_b, nv_c] \<and> increasing Nvdisc (items dt') \<and> dmeth dt' = Dtoset"
proof -
  have "oset_spec Nvdisc DT_INSERT (Obj nv_b) [nv_a, nv_c] = (Some nv_b, [nv_a, nv_b, nv_c])"
    by (simp add: lookup_def made_def enter_def lower_def upper_def nv_defs nv_compare_def)
  then show ?thesis
    using oset_refines [OF nvdisc.discipline_axioms, of global_set DT_INSERT "Obj nv_b"] sample_items sample_increasing
    by (simp add: fits_op_def)
qed

lemma dtstat_exact_witness:
  "\<exists>st dt'. dttree Nvdisc StatBuf {DT_STAT} global_set = (RetSize 2 (Some st), dt') \<and>
    items dt' = [nv_a, nv_c] \<and> ssize st = 2 \<and> 2 ^ smlev st \<le> (2 :: nat)"
  using dtstat_exact [of global_set Nvdisc] sample_items by (auto simp: DTTYPE_def global_set_def set_of_def)

lemma oset_size_witness:
  "dsize (snd (dttree Nvdisc (Obj nv_local) {DT_INSTALL} global_set)) =
    int (length (items (snd (dttree Nvdisc (Obj nv_local) {DT_INSTALL} global_set)))) + 1"
proof -
  have "lookup Nvdisc (nvname nv_local) [nv_a, nv_c] \<noteq> None" by (simp add: lookup_def nv_defs nv_compare_def)
  moreover have "counted global_set" by (simp add: counted_def global_set_def set_of_def)
  ultimately show ?thesis
    using oset_size [OF nvdisc.discipline_axioms, of global_set DT_INSTALL "Obj nv_local"] sample_items sample_increasing
    by (simp add: fits_op_def)
qed

lemma extract_restore_witness:
  "\<exists>dt1 dt2. dttree Nvdisc NoArg {DT_EXTRACT} global_set = (RetLinks [nv_a, nv_c], dt1) \<and> items dt1 = [] \<and>
    dttree Nvdisc (Links [nv_a, nv_c]) {DT_RESTORE} dt1 = (RetLinks [nv_a, nv_c], dt2) \<and>
    items dt2 = [nv_a, nv_c] \<and> counted dt2"
  using extract_restore [OF nvdisc.discipline_axioms, of global_set] sample_items sample_increasing by simp

section \<open>Scopes\<close>

lemma sample_paths: "vpath scope_store 0 = Some [0]" "vpath scope_store 1 = Some [1, 0]"
  "d \<noteq> 1 \<Longrightarrow> vpath scope_store d = Some [d]"
proof -
  show "d \<noteq> 1 \<Longrightarrow> vpath scope_store d = Some [d]" for d
    by (rule vpath_last) (simp add: scope_store_def)
  then show 0: "vpath scope_store 0 = Some [0]" by simp
  show "vpath scope_store 1 = Some [1, 0]"
    by (rule vpath_view [OF _ 0]) (simp add: scope_store_def)
qed

lemma sample_ok: "scopes_ok scope_store"
proof -
  have "vpath scope_store d \<noteq> None" for d using sample_paths by (cases "d = 1") auto
  then show ?thesis
    using sample_items sample_increasing
    by (simp add: scopes_ok_def paths_end_def set_ok_def scope_store_def)
qed

lemma sample_scope: "in_scope scope_store 1 = [nv_local, nv_c]"
proof -
  have "map (\<lambda>e. items (body (scope_store e))) [1, 0] = [[nv_local], [nv_a, nv_c]]"
    using sample_items by (simp add: scope_store_def)
  then show ?thesis
    using sample_paths by (simp add: in_scope_def) (simp add: nv_defs nv_compare_def)
qed

lemma dtview_acyclic_witness:
  "\<exists>h'. dtview dmeth 0 (Some 1) scope_store = Some (None, h') \<and> paths_end h' \<and> h' = scope_store"
proof -
  have "refuses dmeth 0 1 scope_store" using sample_paths by (simp add: refuses_def)
  then show ?thesis
    using dtview_acyclic [of scope_store dmeth 0 "Some 1"] sample_ok by (auto simp: scopes_ok_def)
qed

lemma view_is_overlay_witness:
  "\<exists>h'. vsearch Nvdisc (dttree Nvdisc) 1 (Obj nv_a) {DT_NEXT} scope_store = Some (Ret (Some nv_c), h') \<and>
    (\<forall>e. view (h' e) = view (scope_store e) \<and> items (body (h' e)) = items (body (scope_store e)))"
proof -
  have "fst (oset_spec Nvdisc DT_NEXT (Obj nv_a) [nv_local, nv_c]) = Some nv_c"
    by (simp add: upper_def first_of_def nv_defs nv_compare_def)
  moreover have "visible Nvdisc (map (\<lambda>e. items (body (scope_store e))) [1, 0]) = [nv_local, nv_c]"
    using sample_scope sample_paths by (simp add: in_scope_def)
  ultimately show ?thesis
    using view_is_overlay [OF nvdisc.discipline_axioms, of DT_NEXT "Obj nv_a" scope_store 1 "[1, 0]"] sample_paths sample_ok
    by (simp add: fits_op_def queries_def scopes_ok_def)
qed


lemma nv_search_visible_witness:
  "\<exists>S'. nv_search sample_env (ByName [97]) 1 {} scope_state = Some (Some nv_local, S') \<and>
    same_scopes scope_store (dicts S')"
proof -
  have "lookup Nvdisc [97] [nv_local, nv_c] = Some nv_local" by (simp add: lookup_def nv_defs nv_compare_def)
  then show ?thesis
    using nv_search_visible [of scope_state "[97]" sample_env] sample_ok sample_scope
    by (auto simp: scope_state_def)
qed

lemma nv_search_noscope_witness:
  "\<exists>S'. nv_search sample_env (ByName [99]) 1 {NV_NOSCOPE} scope_state = Some (None, S') \<and>
    same_scopes scope_store (dicts S')"
proof -
  have "lookup Nvdisc [99] (items (body (scope_store 1))) = None"
    using sample_items by (simp add: scope_store_def lookup_def nv_defs nv_compare_def)
  then show ?thesis
    using nv_search_noscope [of scope_state 1 "[99]" sample_env] sample_ok by (auto simp: scope_state_def)
qed


end
