(* ===== verification/TestOps.thy ===== *)
theory TestOps
  imports KshPrelude
begin

text \<open>
  What the \<open>test\<close> command and \<open>[[ ]]\<close> share (\<open>src/src/cmd/ksh26/bltins/test.c\<close>): the table of operators
  with its lookup (\<open>data/testops.c\<close>, \<open>sh_locate\<close> in \<open>sh/string.c\<close>), the errors, the operating system and
  the parts of the shell that the command asks, and computations that may fail and change the shell.
\<close>

section \<open>Operators\<close>

definition TEST_ARITH :: nat where "TEST_ARITH = 32"
definition TEST_STRCMP :: nat where "TEST_STRCMP = 64"
definition TEST_ANDOR :: nat where "TEST_ANDOR = 128"

definition TEST_NE :: nat where "TEST_NE = (TEST_ARITH OR 9)"
definition TEST_EQ :: nat where "TEST_EQ = (TEST_ARITH OR 4)"
definition TEST_GE :: nat where "TEST_GE = (TEST_ARITH OR 5)"
definition TEST_GT :: nat where "TEST_GT = (TEST_ARITH OR 6)"
definition TEST_LE :: nat where "TEST_LE = (TEST_ARITH OR 7)"
definition TEST_LT :: nat where "TEST_LT = (TEST_ARITH OR 8)"
definition TEST_OR :: nat where "TEST_OR = (TEST_ANDOR OR 1)"
definition TEST_AND :: nat where "TEST_AND = (TEST_ANDOR OR 2)"
definition TEST_PNE :: nat where "TEST_PNE = 1"
definition TEST_PEQ :: nat where "TEST_PEQ = 14"
definition TEST_SNE :: nat where "TEST_SNE = (TEST_STRCMP OR TEST_PNE)"
definition TEST_SEQ :: nat where "TEST_SEQ = (TEST_STRCMP OR TEST_PEQ)"
definition TEST_EF :: nat where "TEST_EF = 3"
definition TEST_NT :: nat where "TEST_NT = 10"
definition TEST_OT :: nat where "TEST_OT = 12"
definition TEST_SLT :: nat where "TEST_SLT = 16"
definition TEST_SGT :: nat where "TEST_SGT = 17"
definition TEST_REP :: nat where "TEST_REP = 20"

lemmas test_ops =
  TEST_ARITH_def TEST_STRCMP_def TEST_ANDOR_def TEST_NE_def TEST_EQ_def TEST_GE_def TEST_GT_def TEST_LE_def
  TEST_LT_def TEST_OR_def TEST_AND_def TEST_PNE_def TEST_PEQ_def TEST_SNE_def TEST_SEQ_def TEST_EF_def
  TEST_NT_def TEST_OT_def TEST_SLT_def TEST_SGT_def TEST_REP_def

definition shtab_testops :: "(byte list \<times> nat) list" where
  "shtab_testops =
    [(str ''!='', TEST_SNE), (str ''-a'', TEST_AND), (str ''-ef'', TEST_EF), (str ''-eq'', TEST_EQ),
     (str ''-ge'', TEST_GE), (str ''-gt'', TEST_GT), (str ''-le'', TEST_LE), (str ''-lt'', TEST_LT),
     (str ''-ne'', TEST_NE), (str ''-nt'', TEST_NT), (str ''-o'', TEST_OR), (str ''-ot'', TEST_OT),
     (str ''<'', TEST_SLT), (str ''='', TEST_SEQ), (str ''=='', TEST_SEQ), (str ''=~'', TEST_REP),
     (str ''>'', TEST_SGT), ([], 0)]"

text \<open>The unary operators; \<open>l\<close> is one of them when the shell is built with \<open>SHOPT_TEST_L\<close>.\<close>

definition test_opchars :: "bool \<Rightarrow> byte list" where
  "test_opchars shopt_test_l =
    str ''HLNRSVOGCaeohrwxdcbfugkv'' @ (if shopt_test_l then str ''l'' else []) @ str ''psnzt''"

text \<open>
  \<open>sh_locate\<close>: the entries of the table in order while their first character is not greater than that
  of the string; \<open>None\<close> is the null pointer, and 0 is the number of the empty entry.
\<close>

fun locate :: "byte list \<Rightarrow> int \<Rightarrow> (byte list \<times> nat) list \<Rightarrow> nat" where
  "locate sp first [] = 0"
| "locate sp first ((name, number) # tp) =
    (case name of
       [] \<Rightarrow> 0
     | c # _ \<Rightarrow>
         if sint c \<le> first then
           if first = sint c \<and> strcmp sp name = 0 then number else locate sp first tp
         else 0)"

definition sh_locate :: "byte list option \<Rightarrow> (byte list \<times> nat) list \<Rightarrow> nat" where
  "sh_locate sp table = (case sp of None \<Rightarrow> 0 | Some [] \<Rightarrow> 0 | Some (c # cs) \<Rightarrow> locate (c # cs) (sint c) table)"

abbreviation test_op :: "byte list \<Rightarrow> nat" where
  "test_op p \<equiv> sh_locate (Some p) shtab_testops"

text \<open>A table in the order that the lookup relies on: by the first character, the names distinct.\<close>

definition ascii_order :: "(byte list \<times> nat) list \<Rightarrow> bool" where
  "ascii_order table = (distinct (map fst table) \<and>
     (\<forall>e \<in> set table. fst e \<noteq> []) \<and> sorted (map (\<lambda>e. sint (hd (fst e))) table))"

lemma locate_ordered:
  assumes "ascii_order table"
  shows "locate (c # cs) (sint c) (table @ [([], 0)]) =
    (case map_of table (c # cs) of None \<Rightarrow> 0 | Some n \<Rightarrow> n)"
  using assms
proof (induction table)
  case (Cons e es)
  obtain name number where e: "e = (name, number)" by force
  obtain d ds where n: "name = d # ds" using Cons.prems e by (cases name) (auto simp: ascii_order_def)
  have es: "ascii_order es" using Cons.prems by (simp add: ascii_order_def)
  have greater: "map_of es (c # cs) = None" if "sint c < sint d"
  proof (rule ccontr)
    assume "map_of es (c # cs) \<noteq> None"
    then have "(c # cs) \<in> fst ` set es" by (simp add: map_of_eq_None_iff)
    then have "sint d \<le> sint c" using Cons.prems e n by (force simp: ascii_order_def)
    with that show False by simp
  qed
  have s: "(sint c = sint d) = (c = d)" by (metis signed_word_eqI)
  show ?case
    using Cons.IH [OF es] greater n e strcmp_eq [of "c # cs" name]
    by (simp add: s not_le del: strcmp.simps)
qed simp

lemma shtab_testops_order: "shtab_testops = butlast shtab_testops @ [([], 0)]" "ascii_order (butlast shtab_testops)"
  by (simp_all add: shtab_testops_def ascii_order_def str_def chr_def sint_uint)

lemma test_op_map: "test_op p = (case map_of (butlast shtab_testops) p of None \<Rightarrow> 0 | Some n \<Rightarrow> n)"
proof (cases p)
  case Nil
  have "map_of (butlast shtab_testops) [] = None" by (simp add: shtab_testops_def str_def)
  then show ?thesis using Nil by (simp add: sh_locate_def)
next
  case (Cons c cs)
  then show ?thesis
    using locate_ordered [OF shtab_testops_order(2), of c cs] shtab_testops_order(1) by (simp add: sh_locate_def)
qed

lemma test_op_entry: "(p, n) \<in> set (butlast shtab_testops) \<Longrightarrow> test_op p = n"
  using shtab_testops_order(2) by (simp add: test_op_map ascii_order_def)

lemma test_op_value: "test_op p \<noteq> 0 \<Longrightarrow> (p, test_op p) \<in> set (butlast shtab_testops)"
  by (auto simp: test_op_map split: option.splits dest: map_of_SomeD)

text \<open>Two of the operators are \<open>-a\<close> and \<open>-o\<close>.\<close>

lemma test_op_andor: "test_op p AND TEST_ANDOR \<noteq> 0 \<longleftrightarrow> p = str ''-a'' \<or> p = str ''-o''"
proof -
  have entry: "(p, n) \<in> set (butlast shtab_testops) \<Longrightarrow> n AND TEST_ANDOR \<noteq> 0 \<Longrightarrow> p = str ''-a'' \<or> p = str ''-o''" for n
    by (auto simp: shtab_testops_def test_ops)
  have "test_op (str ''-a'') = TEST_AND" "test_op (str ''-o'') = TEST_OR"
    by (rule test_op_entry, simp add: shtab_testops_def)+
  moreover have "test_op p \<noteq> 0" if "test_op p AND TEST_ANDOR \<noteq> 0"
    using that by (cases "test_op p = 0") simp_all
  moreover have "TEST_AND AND TEST_ANDOR \<noteq> 0" "TEST_OR AND TEST_ANDOR \<noteq> 0" by (simp_all add: test_ops)
  ultimately show ?thesis using entry [OF test_op_value] by auto
qed

section \<open>Errors\<close>

text \<open>
  The messages of \<open>errormsg(SH_DICT, ERROR_exit(2), ...)\<close>, all of which leave the command with status 2;
  an error of an arithmetic operand or of a variable name; reading an argument behind the terminating null pointer, which
  is undefined; and fuel that was too little.
\<close>

datatype terror =
    Missing "byte list"      \<comment> \<open>\<open>e_missing\<close>\<close>
  | BadOperator "byte list"  \<comment> \<open>\<open>e_badop\<close>\<close>
  | BadSyntax                \<comment> \<open>\<open>e_badsyntax\<close>\<close>
  | NoArgument               \<comment> \<open>\<open>e_argument\<close>\<close>
  | BadNumber "byte list"    \<comment> \<open>\<open>e_number\<close>\<close>
  | GetoptsDoc               \<comment> \<open>\<open>opt_info.arg\<close>\<close>
  | ShellError nat
  | WildRead
  | OutOfFuel

text \<open>Computations on the shell's state that may fail.\<close>

type_synonym ('s, 'a) act = "'s \<Rightarrow> (terror + 'a) \<times> 's"

definition ret :: "'a \<Rightarrow> ('s, 'a) act" where
  "ret x s = (Inr x, s)"

definition fail :: "terror \<Rightarrow> ('s, 'a) act" where
  "fail e s = (Inl e, s)"

definition seq :: "('s, 'a) act \<Rightarrow> ('a \<Rightarrow> ('s, 'b) act) \<Rightarrow> ('s, 'b) act" where
  "seq f g s = (case f s of (Inl e, s') \<Rightarrow> (Inl e, s') | (Inr x, s') \<Rightarrow> g x s')"

lemma act_simps [simp]:
  "ret x s = (Inr x, s)" "fail e s = (Inl e, s)" "f s = (Inr x, s') \<Longrightarrow> seq f g s = g x s'"
  "f s = (Inl e, s') \<Longrightarrow> seq f g s = (Inl e, s')"
  by (simp_all add: ret_def fail_def seq_def)

lemma seq_assoc: "seq (seq f g) h = seq f (\<lambda>x. seq (g x) h)"
  by (rule ext) (simp add: seq_def split: prod.splits sum.splits)

lemma seq_ret [simp]: "seq (ret x) g = g x"
  by (rule ext) (simp add: seq_def)

lemma seq_fail [simp]: "seq (fail e) g = fail e"
  by (rule ext) (simp add: seq_def)

section \<open>What the command asks\<close>

text \<open>The parts of a \<open>struct stat\<close> that are read; the times as \<open>tmxgetmtime\<close> and \<open>tmxgetatime\<close> give them.\<close>

record fstatus =
  st_mode :: cint
  st_dev :: nat
  st_ino :: nat
  st_uid :: nat
  st_gid :: nat
  st_size :: int
  st_mtime :: nat
  st_atime :: nat

text \<open>
  The operating system (\<open>stat\<close>, \<open>lstat\<close>, \<open>fstat\<close>, \<open>access\<close>, \<open>setregid\<close>, \<open>setreuid\<close>, \<open>getgroups\<close>), the C
  library (\<open>strtold\<close>, \<open>collate\<close>), the build's choice of what a pipe is, and the parts of the shell
  outside this file: \<open>sh_ioaccess\<close>, \<open>tty_check\<close>, \<open>sh_lookopt\<close>, \<open>sh_isoption\<close>, \<open>sh_arith\<close>, \<open>strgrpmatch\<close>,
  \<open>sh_setmatch\<close>, \<open>optget\<close> and the functions on variables.  \<open>past p\<close> is the byte of memory after the
  terminating zero of \<open>p\<close>.
\<close>

record ('s, 'n, 'v) tenv =
  posix :: bool
  shopt_test_l :: bool
  in_test :: bool
  past :: "byte list \<Rightarrow> byte"
  os_stat :: "byte list \<Rightarrow> 's \<Rightarrow> fstatus option"
  os_lstat :: "byte list \<Rightarrow> 's \<Rightarrow> fstatus option"
  os_fstat :: "cint \<Rightarrow> 's \<Rightarrow> fstatus option"
  os_access :: "byte list \<Rightarrow> nat \<Rightarrow> 's \<Rightarrow> int"
  os_setregid :: "nat \<Rightarrow> nat \<Rightarrow> 's \<Rightarrow> int \<times> 's"
  os_setreuid :: "nat \<Rightarrow> nat \<Rightarrow> 's \<Rightarrow> int \<times> 's"
  os_getgroups :: "'s \<Rightarrow> nat list"
  pipe_socketpair :: bool
  socketpair_shutdown_mode :: bool
  userid :: nat
  euserid :: nat
  groupid :: nat
  egroupid :: nat
  pwdfd :: cint
  sfsync_stdout :: "'s \<Rightarrow> 's"
  ioaccess :: "cint \<Rightarrow> nat \<Rightarrow> 's \<Rightarrow> int"
  tty_check :: "cint \<Rightarrow> 's \<Rightarrow> int"
  lookopt :: "byte list \<Rightarrow> bool \<Rightarrow> int \<times> bool"
  isoption :: "int \<Rightarrow> 's \<Rightarrow> bool"
  strtold :: "byte list \<Rightarrow> 'n \<times> byte list"
  sh_arith :: "byte list \<Rightarrow> 's \<Rightarrow> (nat + 'n) \<times> 's"
  ld_eq :: "'n \<Rightarrow> 'n \<Rightarrow> bool"
  ld_lt :: "'n \<Rightarrow> 'n \<Rightarrow> bool"
  ld_le :: "'n \<Rightarrow> 'n \<Rightarrow> bool"
  strgrpmatch :: "byte list \<Rightarrow> byte list \<Rightarrow> nat \<Rightarrow> int \<times> int list"
  setmatch :: "byte list \<Rightarrow> int \<Rightarrow> int list \<Rightarrow> 's \<Rightarrow> 's"
  collate :: "byte list \<Rightarrow> byte list \<Rightarrow> int"
  nv_open :: "byte list \<Rightarrow> 's \<Rightarrow> (nat + 'v option) \<times> 's"
  nv_isref :: "'v \<Rightarrow> 's \<Rightarrow> int"
  nv_hasvalue :: "'v \<Rightarrow> 's \<Rightarrow> bool"
  nv_refnode :: "'v \<Rightarrow> 's \<Rightarrow> 'v"
  nv_arrayisset :: "'v \<Rightarrow> 's \<Rightarrow> int option"
  nv_isnull :: "'v \<Rightarrow> 's \<Rightarrow> bool"
  optget :: "byte list \<Rightarrow> bool"
  optdoc :: "'s \<Rightarrow> 's"

text \<open>An error of another part of the shell.\<close>

definition shell_call :: "('s \<Rightarrow> (nat + 'a) \<times> 's) \<Rightarrow> ('s, 'a) act" where
  "shell_call f s = (case f s of (Inl e, s') \<Rightarrow> (Inl (ShellError e), s') | (Inr x, s') \<Rightarrow> (Inr x, s'))"

text \<open>The character \<open>p[2]\<close> of a string of at least one character.\<close>

definition at2 :: "('s, 'n, 'v) tenv \<Rightarrow> byte list \<Rightarrow> byte" where
  "at2 E p = (if length p = 2 then 0 else if length p < 2 then past E p else p ! 2)"

text \<open>The character \<open>p[1]\<close> of a string of at least one character.\<close>

definition at1 :: "byte list \<Rightarrow> byte" where
  "at1 p = (if length p \<le> 1 then 0 else p ! 1)"

text \<open>\<open>*p == '-' && p[2] == 0\<close>\<close>

definition dash2 :: "('s, 'n, 'v) tenv \<Rightarrow> byte list \<Rightarrow> bool" where
  "dash2 E p = (p \<noteq> [] \<and> hd p = chr CHR ''-'' \<and> at2 E p = 0)"

lemma dash2_pair [simp]: "dash2 E [chr CHR ''-'', c]" "at1 [a, b] = b"
  by (simp_all add: dash2_def at2_def at1_def)

section \<open>Library functions\<close>

definition isspace :: "byte \<Rightarrow> bool" where
  "isspace c = (c = 32 \<or> 9 \<le> c \<and> c \<le> 13)"

definition isdigit :: "byte \<Rightarrow> bool" where
  "isdigit c = (48 \<le> c \<and> c \<le> 57)"

definition digits_value :: "byte list \<Rightarrow> int" where
  "digits_value ds = foldl (\<lambda>v d. 10 * v + (uint d - 48)) 0 ds"

text \<open>\<open>strtol(s, &end, 10)\<close>: the value, limited to \<open>long\<close>, and what is left of the string.\<close>

definition strtol10 :: "byte list \<Rightarrow> int \<times> byte list" where
  "strtol10 s =
    (let t = dropWhile isspace s;
         (neg, t) = (case t of c # u \<Rightarrow> if c = chr CHR ''-'' then (True, u) else if c = chr CHR ''+'' then (False, u) else (False, t)
                     | [] \<Rightarrow> (False, t));
         ds = takeWhile isdigit t;
         v = (if neg then - digits_value ds else digits_value ds)
     in if ds = [] then (0, s) else (max (- (2 ^ 63)) (min (2 ^ 63 - 1) v), dropWhile isdigit t))"

end
