(* ===== verification/TestFile.thy ===== *)
theory TestFile
  imports TestOps
begin

text \<open>
  The primaries of \<open>test\<close> (\<open>src/src/cmd/ksh26/bltins/test.c\<close>): the status of files, \<open>sh_access\<close>, the unary
  and binary operators.
\<close>

section \<open>The status of a file\<close>

definition S_IFMT :: cint where "S_IFMT = 61440"

definition S_ISREG :: "cint \<Rightarrow> bool" where "S_ISREG m = (m AND S_IFMT = 32768)"
definition S_ISDIR :: "cint \<Rightarrow> bool" where "S_ISDIR m = (m AND S_IFMT = 16384)"
definition S_ISCHR :: "cint \<Rightarrow> bool" where "S_ISCHR m = (m AND S_IFMT = 8192)"
definition S_ISBLK :: "cint \<Rightarrow> bool" where "S_ISBLK m = (m AND S_IFMT = 24576)"
definition S_ISFIFO :: "cint \<Rightarrow> bool" where "S_ISFIFO m = (m AND S_IFMT = 4096)"
definition S_ISLNK :: "cint \<Rightarrow> bool" where "S_ISLNK m = (m AND S_IFMT = 40960)"
definition S_ISSOCK :: "cint \<Rightarrow> bool" where "S_ISSOCK m = (m AND S_IFMT = 49152)"

definition S_ISUID :: cint where "S_ISUID = 2048"
definition S_ISGID :: cint where "S_ISGID = 1024"
definition S_ISVTX :: cint where "S_ISVTX = 512"
definition S_IRUSR :: cint where "S_IRUSR = 256"
definition S_IWUSR :: cint where "S_IWUSR = 128"

definition sh_isdevfd :: "byte list \<Rightarrow> bool" where
  "sh_isdevfd fd =
    (take 8 fd = str ''/dev/fd/'' \<and> length fd > 8 \<and> (\<forall>c \<in> set (drop 8 fd). chr CHR ''0'' \<le> c \<and> c \<le> chr CHR ''9''))"

definition devfd :: "byte list \<Rightarrow> cint" where
  "devfd name = of_int (fst (strtol10 (drop 8 name)))"

definition test_stat :: "('s, 'n, 'v) tenv \<Rightarrow> byte list \<Rightarrow> 's \<Rightarrow> fstatus option" where
  "test_stat E name s =
    (if name = [] then None
     else if -1 <s pwdfd E \<and> strcmp name (str ''.'') = 0 then os_fstat E (pwdfd E) s
     else if sh_isdevfd name then os_fstat E (devfd name) s
     else os_stat E name s)"

definition test_mode :: "('s, 'n, 'v) tenv \<Rightarrow> byte list \<Rightarrow> 's \<Rightarrow> cint" where
  "test_mode E f s =
    (if f = [] then 0 else case test_stat E f s of None \<Rightarrow> 0 | Some st \<Rightarrow> st_mode st)"

definition stat_is :: "('s, 'n, 'v) tenv \<Rightarrow> byte list \<Rightarrow> 's \<Rightarrow> (fstatus \<Rightarrow> bool) \<Rightarrow> bool" where
  "stat_is E f s P = (case test_stat E f s of None \<Rightarrow> False | Some st \<Rightarrow> P st)"

definition isapipe :: "('s, 'n, 'v) tenv \<Rightarrow> byte list \<Rightarrow> 's \<Rightarrow> bool" where
  "isapipe E f s = stat_is E f s (\<lambda>st.
    S_ISFIFO (st_mode st) \<or>
    S_ISSOCK (st_mode st) \<and> st_ino st \<noteq> 0 \<and>
      (pipe_socketpair E \<and> socketpair_shutdown_mode E \<longrightarrow>
       st_mode st AND (S_IRUSR OR S_IWUSR) \<noteq> S_IRUSR OR S_IWUSR))"

definition isasock :: "('s, 'n, 'v) tenv \<Rightarrow> byte list \<Rightarrow> 's \<Rightarrow> bool" where
  "isasock E f s = stat_is E f s (\<lambda>st. S_ISSOCK (st_mode st))"

definition test_inode :: "('s, 'n, 'v) tenv \<Rightarrow> byte list \<Rightarrow> byte list \<Rightarrow> 's \<Rightarrow> int" where
  "test_inode E file1 file2 s =
    (case test_stat E file1 s of None \<Rightarrow> 0
     | Some st1 \<Rightarrow>
         (case test_stat E file2 s of None \<Rightarrow> 0
          | Some st2 \<Rightarrow> if st_dev st1 = st_dev st2 \<and> st_ino st1 = st_ino st2 then 1 else 0))"

definition test_time :: "('s, 'n, 'v) tenv \<Rightarrow> byte list \<Rightarrow> byte list \<Rightarrow> 's \<Rightarrow> int" where
  "test_time E file1 file2 s =
    (let r = test_stat E file2 s in
     case test_stat E file1 s of
       None \<Rightarrow> if r = None then 0 else -1
     | Some st1 \<Rightarrow>
         (case r of None \<Rightarrow> 1
          | Some st2 \<Rightarrow>
              if st_mtime st1 > st_mtime st2 then 1 else if st_mtime st1 < st_mtime st2 then -1 else 0))"

section \<open>Access\<close>

definition F_OK :: nat where "F_OK = 0"
definition X_OK :: nat where "X_OK = 1"
definition W_OK :: nat where "W_OK = 2"
definition R_OK :: nat where "R_OK = 4"

text \<open>From the label \<open>skip\<close> of \<open>sh_access\<close> on: what the mode of the file grants the effective ids.\<close>

definition access_bits :: "('s, 'n, 'v) tenv \<Rightarrow> nat \<Rightarrow> fstatus \<Rightarrow> 's \<Rightarrow> nat" where
  "access_bits E mode st s =
    (if euserid E = 0 then 73
     else if euserid E = st_uid st then push_bit 6 mode
     else if egroupid E = st_gid st then push_bit 3 mode
     else if list_ex (\<lambda>g. g = st_gid st) (os_getgroups E s) then push_bit 3 mode
     else mode)"

definition access_skip :: "('s, 'n, 'v) tenv \<Rightarrow> byte list \<Rightarrow> nat \<Rightarrow> 's \<Rightarrow> int" where
  "access_skip E name mode s =
    (case test_stat E name s of
       None \<Rightarrow> -1
     | Some st \<Rightarrow>
         if mode = F_OK then int mode
         else if euserid E = 0 \<and> (\<not> S_ISREG (st_mode st) \<or> mode \<noteq> X_OK) then 0
         else if st_mode st AND of_nat (access_bits E mode st s) \<noteq> 0 then 0
         else -1)"

definition sh_access :: "('s, 'n, 'v) tenv \<Rightarrow> byte list \<Rightarrow> nat \<Rightarrow> 's \<Rightarrow> int \<times> 's" where
  "sh_access E name mode s =
    (if name = [] then (-1, s)
     else if \<not> posix E \<and> sh_isdevfd name then (ioaccess E (devfd name) mode s, s)
     else if mode = X_OK \<and> euserid E = 0 then (access_skip E name mode s, s)
     else if userid E = euserid E \<and> groupid E = egroupid E then (os_access E name mode s, s)
     else
       let (g, s) = (if groupid E = euserid E then (0, s) else os_setregid E (egroupid E) (groupid E) s) in
       if g = 0 then
         let (u, s) = (if userid E = euserid E then (0, s) else os_setreuid E (euserid E) (userid E) s) in
         if u = 0 then
           let r = os_access E name mode s;
               s = (if userid E \<noteq> euserid E then snd (os_setreuid E (userid E) (euserid E) s) else s);
               s = (if groupid E \<noteq> egroupid E then snd (os_setregid E (groupid E) (egroupid E) s) else s)
           in (r, s)
         else
           let s = (if groupid E \<noteq> egroupid E then snd (os_setregid E (groupid E) (egroupid E) s) else s)
           in (access_skip E name mode s, s)
       else (access_skip E name mode s, s))"

definition permission :: "('s, 'n, 'v) tenv \<Rightarrow> byte list \<Rightarrow> nat \<Rightarrow> ('s, int) act" where
  "permission E name mode s = (let (r, s) = sh_access E name mode s in (Inr (cbool (r = 0)), s))"

section \<open>Unary operators\<close>

definition test_file :: "('s, 'n, 'v) tenv \<Rightarrow> byte list \<Rightarrow> (cint \<Rightarrow> bool) \<Rightarrow> ('s, int) act" where
  "test_file E arg P s = (Inr (cbool (stat_is E arg s (\<lambda>st. P (st_mode st)))), s)"

definition unop_link :: "('s, 'n, 'v) tenv \<Rightarrow> byte list \<Rightarrow> ('s, int) act" where
  "unop_link E arg s =
    (Inr (if arg = [] \<or> last arg = chr CHR ''/'' then 0
          else case os_lstat E arg s of None \<Rightarrow> 0 | Some st \<Rightarrow> cbool (S_ISLNK (st_mode st))), s)"

definition unop_owner :: "('s, 'n, 'v) tenv \<Rightarrow> byte \<Rightarrow> byte list \<Rightarrow> ('s, int) act" where
  "unop_owner E op arg s =
    (Inr (if arg = [] then 0
          else case test_stat E arg s of None \<Rightarrow> 0
          | Some st \<Rightarrow>
              if op = chr CHR ''s'' then cbool (st_size st > 0)
              else if op = chr CHR ''O'' then cbool (st_uid st = userid E)
              else cbool (st_gid st = groupid E)), s)"

definition unop_option :: "('s, 'n, 'v) tenv \<Rightarrow> byte list \<Rightarrow> ('s, int) act" where
  "unop_option E arg s =
    (Inr (case arg of
            c # cs \<Rightarrow>
              if c = chr CHR ''?'' then cbool (fst (lookopt E cs True) > 0)
              else let (op, f) = lookopt E arg True in cbool (op > 0 \<and> f = isoption E op s)
          | [] \<Rightarrow> let (op, f) = lookopt E arg True in cbool (op > 0 \<and> f = isoption E op s)), s)"

definition tty_arg :: "('s, 'n, 'v) tenv \<Rightarrow> byte list \<Rightarrow> ('s, int) act" where
  "tty_arg E arg s =
    (let (op, last) = strtol10 arg in (Inr (if last \<noteq> [] then 0 else tty_check E (of_int op) s), s))"

definition unop_variable :: "('s, 'n, 'v) tenv \<Rightarrow> byte \<Rightarrow> byte list \<Rightarrow> ('s, int) act" where
  "unop_variable E op arg = seq (shell_call (nv_open E arg)) (\<lambda>np s.
    (Inr (case np of
       None \<Rightarrow> 0
     | Some np \<Rightarrow>
         let isref = nv_isref E np s in
         if op = chr CHR ''R'' then isref
         else if isref \<noteq> 0 \<and> \<not> nv_hasvalue E np s then 0
         else
           let np = (if isref \<noteq> 0 then nv_refnode E np s else np) in
           case nv_arrayisset E np s of Some r \<Rightarrow> r | None \<Rightarrow> cbool (\<not> nv_isnull E np s)), s))"

definition test_unop :: "('s, 'n, 'v) tenv \<Rightarrow> byte \<Rightarrow> byte list \<Rightarrow> ('s, int) act" where
  "test_unop E op arg =
    (if op = chr CHR ''r'' then permission E arg R_OK
     else if op = chr CHR ''w'' then permission E arg W_OK
     else if op = chr CHR ''x'' then permission E arg X_OK
     else if op = chr CHR ''d'' then test_file E arg S_ISDIR
     else if op = chr CHR ''c'' then test_file E arg S_ISCHR
     else if op = chr CHR ''b'' then test_file E arg S_ISBLK
     else if op = chr CHR ''f'' then test_file E arg S_ISREG
     else if op = chr CHR ''u'' then (\<lambda>s. (Inr (uint (test_mode E arg s AND S_ISUID)), s))
     else if op = chr CHR ''g'' then (\<lambda>s. (Inr (uint (test_mode E arg s AND S_ISGID)), s))
     else if op = chr CHR ''k'' then (\<lambda>s. (Inr (uint (test_mode E arg s AND S_ISVTX)), s))
     else if op = chr CHR ''L'' \<or> op = chr CHR ''h'' \<or> shopt_test_l E \<and> op = chr CHR ''l'' then unop_link E arg
     else if op = chr CHR ''C'' \<or> op = chr CHR ''H'' then ret 0
     else if op = chr CHR ''S'' then (\<lambda>s. (Inr (cbool (isasock E arg s)), s))
     else if op = chr CHR ''N'' then
       (\<lambda>s. (Inr (cbool (stat_is E arg s (\<lambda>st. st_mtime st > st_atime st))), s))
     else if op = chr CHR ''p'' then (\<lambda>s. (Inr (cbool (isapipe E arg s)), s))
     else if op = chr CHR ''n'' then ret (cbool (arg \<noteq> []))
     else if op = chr CHR ''z'' then ret (cbool (arg = []))
     else if op = chr CHR ''s'' then (\<lambda>s. unop_owner E op arg (sfsync_stdout E s))
     else if op = chr CHR ''O'' \<or> op = chr CHR ''G'' then unop_owner E op arg
     else if op = chr CHR ''a'' \<or> op = chr CHR ''e'' then permission E arg F_OK
     else if op = chr CHR ''o'' then unop_option E arg
     else if op = chr CHR ''t'' then tty_arg E arg
     else if op = chr CHR ''v'' \<or> op = chr CHR ''R'' then unop_variable E op arg
     else fail (BadOperator [chr CHR ''-'', op]))"

section \<open>Binary operators\<close>

text \<open>The parentheses of a pattern that are not escaped.\<close>

fun count_parens :: "byte list \<Rightarrow> nat" where
  "count_parens [] = 0"
| "count_parens (c # cp) =
    (if c = chr CHR ''('' then Suc (count_parens cp)
     else if c = 0x5C then
       (case cp of [] \<Rightarrow> 0 | _ # cp \<Rightarrow> count_parens cp)
     else count_parens cp)"

definition MATCH_MAX :: nat where "MATCH_MAX = 64"

definition test_strmatch :: "('s, 'n, 'v) tenv \<Rightarrow> byte list \<Rightarrow> byte list \<Rightarrow> ('s, int) act" where
  "test_strmatch E st pat s =
    (let m = count_parens pat;
         m = (if m = 0 then 0 else min (Suc m) (MATCH_MAX + 1));
         (n, match) = strgrpmatch E st pat m;
         match = (if m = 0 then 0 # tl match else match);
         match = (if m = 0 \<and> n = 1 then match[1 := int (length st)] else match)
     in (Inr n, if n \<noteq> 0 then setmatch E st n match s else s))"

definition posix_number :: "('s, 'n, 'v) tenv \<Rightarrow> byte list \<Rightarrow> 'n \<times> byte list" where
  "posix_number E p = strtold E (dropWhile (\<lambda>c. c = chr CHR ''0'') p)"

definition arith_operands :: "('s, 'n, 'v) tenv \<Rightarrow> byte list \<Rightarrow> byte list \<Rightarrow> ('s, 'n \<times> 'n) act" where
  "arith_operands E left right =
    (if in_test E \<and> posix E then
       let (lnum, l) = posix_number E left; (rnum, r) = posix_number E right in
       if l \<noteq> [] \<or> r \<noteq> [] then fail (BadNumber (if l \<noteq> [] then left else right))
       else ret (lnum, rnum)
     else seq (shell_call (sh_arith E left)) (\<lambda>lnum. seq (shell_call (sh_arith E right)) (\<lambda>rnum. ret (lnum, rnum))))"

definition binop_arith :: "('s, 'n, 'v) tenv \<Rightarrow> nat \<Rightarrow> 'n \<Rightarrow> 'n \<Rightarrow> bool" where
  "binop_arith E op lnum rnum =
    (if op = TEST_EQ then ld_eq E lnum rnum
     else if op = TEST_NE then \<not> ld_eq E lnum rnum
     else if op = TEST_GT then ld_lt E rnum lnum
     else if op = TEST_LT then ld_lt E lnum rnum
     else if op = TEST_GE then ld_le E rnum lnum
     else ld_le E lnum rnum)"

definition test_binop :: "('s, 'n, 'v) tenv \<Rightarrow> nat \<Rightarrow> byte list \<Rightarrow> byte list \<Rightarrow> ('s, int) act" where
  "test_binop E op left right =
    (if op AND TEST_ARITH \<noteq> 0 then
       seq (arith_operands E left right) (\<lambda>(lnum, rnum). ret (cbool (binop_arith E op lnum rnum)))
     else if op = TEST_AND \<or> op = TEST_OR then ret (cbool (left \<noteq> []))
     else if op = TEST_PEQ then test_strmatch E left right
     else if op = TEST_PNE then seq (test_strmatch E left right) (\<lambda>n. ret (cbool (n = 0)))
     else if op = TEST_SGT then ret (cbool (collate E left right > 0))
     else if op = TEST_SLT then ret (cbool (collate E left right < 0))
     else if op = TEST_SEQ then ret (cbool (strcmp left right = 0))
     else if op = TEST_SNE then ret (cbool (strcmp left right \<noteq> 0))
     else if op = TEST_REP then
       seq (test_strmatch E left (str ''~(E)'' @ right)) (\<lambda>n. ret (cbool (n > 0)))
     else if op = TEST_EF then (\<lambda>s. (Inr (test_inode E left right s), s))
     else if op = TEST_NT then (\<lambda>s. (Inr (cbool (test_time E left right s > 0)), s))
     else (\<lambda>s. (Inr (cbool (test_time E left right s < 0)), s)))"

end
