(* ===== verification/TestExpr.thy ===== *)
theory TestExpr
  imports TestFile
begin

text \<open>
  The expressions of \<open>test\<close> and the command itself (\<open>src/src/cmd/ksh26/bltins/test.c\<close>: \<open>nxtarg\<close>, \<open>e3\<close>,
  \<open>expr\<close>, \<open>b_test\<close>).  The recursion of \<open>expr\<close> and \<open>e3\<close> has fuel; \<open>2 * ac + 2\<close> is enough, because
  every call of \<open>e3\<close> takes an argument.
\<close>

section \<open>The arguments\<close>

text \<open>
  \<open>struct test\<close> with the shell's state: the vector, whose elements are followed by a null pointer,
  the position in it and the number of arguments in use.
\<close>

record 's tst =
  av :: "byte list list"
  ap :: nat
  ac :: nat
  shell :: 's

definition av_at :: "nat \<Rightarrow> ('s tst, byte list option) act" where
  "av_at i tp =
    (if i < length (av tp) then (Inr (Some (av tp ! i)), tp)
     else if i = length (av tp) then (Inr None, tp)
     else (Inl WildRead, tp))"

definition step_back :: "('s tst, unit) act" where
  "step_back tp = (Inr (), tp\<lparr>ap := ap tp - 1\<rparr>)"

definition nxtarg :: "bool \<Rightarrow> ('s tst, byte list option) act" where
  "nxtarg mt tp =
    (if ap tp \<ge> ac tp then
       if mt then (Inr None, tp\<lparr>ap := Suc (ap tp)\<rparr>) else (Inl NoArgument, tp)
     else seq (av_at (ap tp)) (\<lambda>p tp. (Inr p, tp\<lparr>ap := Suc (ap tp)\<rparr>)) tp)"

text \<open>An argument that the code dereferences.\<close>

definition deref :: "byte list option \<Rightarrow> ('s, byte list) act" where
  "deref p = (case p of None \<Rightarrow> fail WildRead | Some p \<Rightarrow> ret p)"

definition argument :: "('s tst, byte list) act" where
  "argument = seq (nxtarg False) deref"

definition posix_andor :: "('s, 'n, 'v) tenv \<Rightarrow> byte list option \<Rightarrow> bool" where
  "posix_andor E arg = (posix E \<and> sh_locate arg shtab_testops AND TEST_ANDOR \<noteq> 0)"

text \<open>An operator applied to the shell's state.\<close>

definition on_shell :: "('s, 'a) act \<Rightarrow> ('s tst, 'a) act" where
  "on_shell f tp = (let (r, s) = f (shell tp) in (r, tp\<lparr>shell := s\<rparr>))"

section \<open>Expressions\<close>

definition in_opchars :: "('s, 'n, 'v) tenv \<Rightarrow> byte \<Rightarrow> bool" where
  "in_opchars E c = (c = 0 \<or> c \<in> set (test_opchars (shopt_test_l E)))"

text \<open>From the label \<open>skip\<close> on: the operator \<open>cp\<close> between \<open>arg\<close> and the next argument.\<close>

definition e3_skip :: "('s, 'n, 'v) tenv \<Rightarrow> bool \<Rightarrow> byte list \<Rightarrow> byte list \<Rightarrow> ('s tst, int) act" where
  "e3_skip E inparens arg cp =
    (let op = test_op cp in
     if op = 0 then
       if inparens \<and> cp = str '')'' then seq step_back (\<lambda>_. ret (cbool (arg \<noteq> [])))
       else fail (BadOperator cp)
     else if op AND TEST_ANDOR \<noteq> 0 then seq step_back (\<lambda>_. on_shell (test_binop E op arg cp))
     else seq argument (\<lambda>cp. on_shell (test_binop E op arg cp)))"

definition e3_primary :: "('s, 'n, 'v) tenv \<Rightarrow> bool \<Rightarrow> byte list \<Rightarrow> ('s tst, int) act" where
  "e3_primary E inparens arg = seq (nxtarg True) (\<lambda>cp.
     case cp of
       Some cp \<Rightarrow>
         if cp = str ''='' \<or> cp = str ''!='' then e3_skip E inparens arg cp
         else if \<not> posix E \<and> arg = str ''-t'' then on_shell (tty_arg E cp)
         else if dash2 E arg \<and> in_opchars E (at1 arg) then on_shell (test_unop E (at1 arg) cp)
         else e3_skip E inparens arg cp
     | None \<Rightarrow>
         if \<not> posix E \<and> arg = str ''-t'' then seq step_back (\<lambda>_. on_shell (\<lambda>s. (Inr (tty_check E 1 s), s)))
         else if dash2 E arg then ret 1
         else seq step_back (\<lambda>_. ret (cbool (arg \<noteq> []))))"

definition is_not :: "('s, 'n, 'v) tenv \<Rightarrow> bool \<Rightarrow> byte list \<Rightarrow> ('s tst, bool) act" where
  "is_not E inparens arg tp =
    (if arg = str ''!'' \<and> ap tp < ac tp \<and> \<not> (inparens \<and> ap tp = ac tp - 1) then
       seq (av_at (ap tp)) (\<lambda>p. ret (\<not> posix_andor E p)) tp
     else (Inr False, tp))"

definition is_open :: "('s, 'n, 'v) tenv \<Rightarrow> byte list \<Rightarrow> ('s tst, bool) act" where
  "is_open E arg tp =
    (if arg = str ''('' then seq (av_at (ap tp)) (\<lambda>p. ret (\<not> posix_andor E p)) tp else (Inr False, tp))"

fun test_expr :: "('s, 'n, 'v) tenv \<Rightarrow> nat \<Rightarrow> bool \<Rightarrow> bool \<Rightarrow> ('s tst, int) act"
  and test_expr_loop :: "('s, 'n, 'v) tenv \<Rightarrow> nat \<Rightarrow> bool \<Rightarrow> bool \<Rightarrow> int \<Rightarrow> ('s tst, int) act"
  and e3 :: "('s, 'n, 'v) tenv \<Rightarrow> nat \<Rightarrow> bool \<Rightarrow> ('s tst, int) act" where
  "test_expr E 0 parens inand = fail OutOfFuel"
| "test_expr E (Suc n) parens inand = seq (e3 E n parens) (\<lambda>r. test_expr_loop E n parens inand r)"
| "test_expr_loop E 0 parens inand r = fail OutOfFuel"
| "test_expr_loop E (Suc n) parens inand r = (\<lambda>tp.
     if ap tp < ac tp then
       seq argument (\<lambda>p.
         if (parens \<or> inand) \<and> p = str '')'' then seq step_back (\<lambda>_. ret r)
         else if dash2 E p \<and> at1 p = chr CHR ''o'' then
           if inand then seq step_back (\<lambda>_. ret r)
           else seq (test_expr E n parens False) (\<lambda>x. test_expr_loop E n parens inand (r OR x))
         else if dash2 E p \<and> at1 p = chr CHR ''a'' then
           seq (test_expr E n parens True) (\<lambda>x. test_expr_loop E n parens inand (r AND x))
         else fail BadSyntax) tp
     else (Inr r, tp))"
| "e3 E 0 inparens = fail OutOfFuel"
| "e3 E (Suc n) inparens = seq argument (\<lambda>arg.
     seq (is_not E inparens arg) (\<lambda>b.
       if b then seq (e3 E n inparens) (\<lambda>r. ret (cbool (r = 0)))
       else seq (is_open E arg) (\<lambda>b.
         if b then seq (test_expr E n True False) (\<lambda>op. seq argument (\<lambda>cp.
           if cp = str '')'' then ret op else fail (Missing (str '')''))))
         else e3_primary E inparens arg)))"

section \<open>The command\<close>

text \<open>\<open>expr\<close> on the first \<open>argc\<close> elements of a vector, from its second on.\<close>

definition run_expr :: "('s, 'n, 'v) tenv \<Rightarrow> byte list list \<Rightarrow> nat \<Rightarrow> ('s, int) act" where
  "run_expr E argv argc s =
    (let (r, tp) = test_expr E (2 * argc + 2) False False \<lparr>av = argv, ap = 1, ac = argc, shell = s\<rparr> in (r, shell tp))"

definition whole_expr :: "('s, 'n, 'v) tenv \<Rightarrow> byte list list \<Rightarrow> nat \<Rightarrow> ('s, int) act" where
  "whole_expr E argv argc = seq (run_expr E argv argc) (\<lambda>r. ret (cbool (r = 0)))"

text \<open>Three operands \<open>argv[1..3]\<close>; of five arguments the first is \<open>!\<close> and \<open>argv\<close> begins with it.\<close>

definition case4 :: "('s, 'n, 'v) tenv \<Rightarrow> bool \<Rightarrow> byte list list \<Rightarrow> nat \<Rightarrow> ('s, int) act \<Rightarrow> ('s, int) act" where
  "case4 E neg argv argc otherwise =
    (let cp = argv ! 2; op = test_op cp in
     if op AND TEST_ANDOR \<noteq> 0 then
       if posix E then
         ret (cbool (\<not> (if op = TEST_AND then argv ! 1 \<noteq> [] \<and> argv ! 3 \<noteq> [] else argv ! 1 \<noteq> [] \<or> argv ! 3 \<noteq> [])))
       else otherwise
     else if op = 0 then
       if argc = 5 then otherwise
       else if neg \<and> dash2 E cp then seq (test_unop E (at1 cp) (argv ! 3)) (\<lambda>r. ret (cbool (r \<noteq> 0)))
       else if dash2 E (argv ! 1) then seq (test_unop E (at1 (argv ! 1)) cp) (\<lambda>r. ret (cbool (r = 0)))
       else if neg \<and> argv ! 2 = str ''!'' then ret (cbool (argv ! 3 = []))
       else fail (BadOperator cp)
     else seq (test_binop E op (argv ! 1) (argv ! 3)) (\<lambda>r. ret (r XOR cbool (argc \<noteq> 5))))"

definition case3 :: "('s, 'n, 'v) tenv \<Rightarrow> bool \<Rightarrow> byte list list \<Rightarrow> ('s, int) act \<Rightarrow> ('s, int) act" where
  "case3 E neg argv otherwise =
    (let cp = argv ! 1 in
     if neg then ret (cbool (argv ! 2 \<noteq> []))
     else if \<not> dash2 E cp \<or> at1 cp = chr CHR ''?'' then
       if cp \<noteq> [] \<and> hd cp = chr CHR ''-'' \<and> (at1 cp = chr CHR ''-'' \<or> at1 cp = chr CHR ''?'') \<and>
         strcmp (argv ! 2) (str ''--'') = 0
       then if optget E cp then (\<lambda>s. (Inr 0, optdoc E s)) else fail GetoptsDoc
       else otherwise
     else seq (test_unop E (at1 cp) (argv ! 2)) (\<lambda>r. ret (cbool (r = 0))))"

definition by_count :: "('s, 'n, 'v) tenv \<Rightarrow> byte list list \<Rightarrow> nat \<Rightarrow> ('s, int) act" where
  "by_count E argv argc =
    (let cp = argv ! 1; neg = (cp = str ''!''); otherwise = whole_expr E argv argc in
     if argc = 5 then
       if \<not> neg then otherwise
       else if posix_andor E (Some (argv ! 3)) then run_expr E (tl argv) (argc - 1)
       else case4 E neg (tl argv) argc otherwise
     else if argc = 4 then case4 E neg argv argc otherwise
     else if argc = 3 then case3 E neg argv otherwise
     else if argc = 2 then ret (cbool (cp = []))
     else otherwise)"

definition b_test :: "('s, 'n, 'v) tenv \<Rightarrow> byte list list \<Rightarrow> ('s, int) act" where
  "b_test E argv =
    (let bracket = (argv ! 0 = str ''[''); argc = (if bracket then length argv - 1 else length argv) in
     if bracket \<and> argv ! argc \<noteq> str '']'' then fail (Missing (str '']''))
     else if argc \<le> 1 then ret 1
     else if argv ! 1 = str ''('' \<and> argc \<le> 6 \<and> argv ! (argc - 1) = str '')'' \<and>
       \<not> (argc = 4 \<and> test_op (argv ! 2) \<noteq> 0)
     then by_count E (tl argv) (argc - 2)
     else by_count E argv argc)"

end
