(* ===== verification/TestSafe.thy ===== *)
theory TestSafe
  imports TestExpr
begin

text \<open>
  The command \<open>test\<close> always returns: \<open>expr\<close> never runs out of fuel, no argument behind the terminating
  null pointer is read, the null pointer is not dereferenced, and without an error message the exit
  status is 0 or 1.
\<close>

section \<open>Operators\<close>

definition sound :: "terror + 'a \<Rightarrow> bool" where
  "sound r = (case r of Inl e \<Rightarrow> e \<noteq> WildRead \<and> e \<noteq> OutOfFuel | Inr _ \<Rightarrow> True)"

lemma sound_simps [simp]: "sound (Inr x)" "sound (Inl e) = (e \<noteq> WildRead \<and> e \<noteq> OutOfFuel)"
  by (simp_all add: sound_def)

definition nofault :: "('s, 'a) act \<Rightarrow> bool" where
  "nofault f = (\<forall>s. sound (fst (f s)))"

lemma nofault_basic [simp, intro]:
  "nofault (ret x)" "nofault (fail e) = (e \<noteq> WildRead \<and> e \<noteq> OutOfFuel)" "nofault (\<lambda>s. (Inr (f s), g s))"
  "nofault (shell_call h)"
  by (auto simp: nofault_def shell_call_def split: prod.splits sum.splits)

lemma nofault_seq [intro]: "nofault f \<Longrightarrow> (\<And>x. nofault (g x)) \<Longrightarrow> nofault (seq f g)"
  unfolding nofault_def seq_def
  by (auto split: prod.splits sum.splits) (metis fst_conv sound_simps(2))+

lemma nofault_if [intro]: "(b \<Longrightarrow> nofault f) \<Longrightarrow> (\<not> b \<Longrightarrow> nofault g) \<Longrightarrow> nofault (if b then f else g)"
  by simp

lemma nofault_tty_arg: "nofault (tty_arg E arg)"
  by (simp add: nofault_def tty_arg_def split: prod.splits)

lemma nofault_unop: "nofault (test_unop E op arg)"
  unfolding test_unop_def
  by (intro nofault_if)
    (auto simp: permission_def test_file_def unop_link_def unop_owner_def unop_option_def tty_arg_def
      unop_variable_def nofault_def [of "permission _ _ _"] nofault_def [of "test_file _ _ _"] nofault_def [of "unop_link _ _"]
      nofault_def [of "unop_owner _ _ _"] nofault_def [of "\<lambda>s. unop_owner _ _ _ (_ s)"] nofault_def [of "unop_option _ _"]
      nofault_def [of "tty_arg _ _"] split: prod.splits)

lemma nofault_strmatch: "nofault (test_strmatch E st pat)"
  by (simp add: nofault_def test_strmatch_def Let_def split: prod.splits)

lemma nofault_operands: "nofault (arith_operands E left right)"
  unfolding arith_operands_def by (auto simp: Let_def split: prod.splits)

lemma nofault_binop: "nofault (test_binop E op left right)"
  unfolding test_binop_def
  by (intro nofault_if nofault_seq nofault_strmatch nofault_operands) (auto split: prod.splits)

section \<open>Expressions\<close>

text \<open>
  A step that keeps the vector, that stops only with an error of the command, and after which the
  position is at least \<open>k\<close>.
\<close>

definition runs :: "'s tst \<Rightarrow> nat \<Rightarrow> (terror + 'a) \<times> 's tst \<Rightarrow> bool" where
  "runs tp k q = (sound (fst q) \<and> av (snd q) = av tp \<and> ac (snd q) = ac tp \<and> (isl (fst q) \<or> k \<le> ap (snd q)))"

lemma runs_Inr [simp]: "runs tp k (Inr x, tp') = (av tp' = av tp \<and> ac tp' = ac tp \<and> k \<le> ap tp')"
  and runs_Inl [simp]: "runs tp k (Inl e, tp') = (e \<noteq> WildRead \<and> e \<noteq> OutOfFuel \<and> av tp' = av tp \<and> ac tp' = ac tp)"
  by (simp_all add: runs_def)

lemma runs_seq:
  assumes "runs tp j (f tp)"
    and "\<And>x tp'. f tp = (Inr x, tp') \<Longrightarrow> av tp' = av tp \<Longrightarrow> ac tp' = ac tp \<Longrightarrow> j \<le> ap tp' \<Longrightarrow> runs tp' k (g x tp')"
  shows "runs tp k (seq f g tp)"
proof (cases "f tp")
  case (Pair r tp')
  show ?thesis
  proof (cases r)
    case (Inl e)
    then show ?thesis using assms(1) Pair by simp
  next
    case (Inr x)
    then have "av tp' = av tp" "ac tp' = ac tp" "j \<le> ap tp'" using assms(1) Pair by simp_all
    then show ?thesis using assms(2) [of x tp'] Pair Inr by (simp add: runs_def)
  qed
qed

lemma runs_weak: "runs tp k q \<Longrightarrow> j \<le> k \<Longrightarrow> runs tp j q"
  by (auto simp: runs_def)

lemma runs_on_shell: "nofault f \<Longrightarrow> runs tp (ap tp) (on_shell f tp)"
  by (auto simp: on_shell_def nofault_def runs_def split: prod.splits) (metis fst_conv)

lemma argument_eq:
  assumes "ac tp \<le> length (av tp)"
  shows "argument tp = (if ap tp < ac tp then (Inr (av tp ! ap tp), tp\<lparr>ap := Suc (ap tp)\<rparr>) else (Inl NoArgument, tp))"
  using assms by (simp add: argument_def nxtarg_def deref_def av_at_def seq_def ret_def)

lemma nxtarg_eq:
  assumes "ac tp \<le> length (av tp)"
  shows "nxtarg True tp =
    (Inr (if ap tp < ac tp then Some (av tp ! ap tp) else None), tp\<lparr>ap := Suc (ap tp)\<rparr>)"
  using assms by (simp add: nxtarg_def av_at_def seq_def)

lemma runs_back [simp]: "runs tp (ap tp - 1) (step_back tp)"
  by (simp add: step_back_def)

lemma runs_skip:
  assumes "ac tp \<le> length (av tp)" "k < ap tp"
  shows "runs tp k (e3_skip E inparens arg cp tp)"
proof -
  have bk: "runs tp k (seq step_back (\<lambda>_. f) tp)" if "\<And>tp. runs tp (ap tp) (f tp)" for f :: "('a tst, int) act"
    by (rule runs_seq [OF runs_back]) (rule runs_weak [OF that], use assms(2) in linarith)
  have arg: "runs tp k (seq argument (\<lambda>cp. on_shell (test_binop E op arg cp)) tp)" for op
    using assms by (simp add: seq_def argument_eq) (auto intro!: runs_weak [OF runs_on_shell [OF nofault_binop]] simp: runs_def
      on_shell_def split: prod.splits, (metis fst_conv nofault_binop nofault_def)+)
  have bin: "runs tp k (seq step_back (\<lambda>_. on_shell (test_binop E op arg cp)) tp)" for op
    by (rule bk) (rule runs_on_shell [OF nofault_binop])
  have "runs tp k (seq step_back (\<lambda>_. ret (cbool (arg \<noteq> []))) tp)" by (rule bk) simp
  then show ?thesis
    unfolding e3_skip_def Let_def using bin arg by simp
qed

lemma runs_primary:
  assumes "ac tp \<le> length (av tp)" "0 < ap tp"
  shows "runs tp (ap tp) (e3_primary E inparens arg tp)"
proof -
  let ?tp = "tp\<lparr>ap := Suc (ap tp)\<rparr>"
  have shell: "runs ?tp (ap tp) (on_shell f ?tp)" if "nofault f" for f :: "('a, int) act"
    by (rule runs_weak [OF runs_on_shell [OF that]]) simp
  have skip: "runs ?tp (ap tp) (e3_skip E inparens arg cp ?tp)" for cp
    by (rule runs_skip) (use assms in simp_all)
  have bk: "runs ?tp (ap tp) (seq step_back (\<lambda>_. f) ?tp)" if "\<And>tp. runs tp (ap tp) (f tp)" for f :: "('a tst, int) act"
    by (rule runs_seq [OF runs_back]) (rule runs_weak [OF that], simp)
  have tty: "runs ?tp (ap tp) (seq step_back (\<lambda>_. on_shell (\<lambda>s. (Inr (tty_check E 1 s), s))) ?tp)"
    by (rule bk) (simp add: runs_on_shell)
  have str: "runs ?tp (ap tp) (seq step_back (\<lambda>_. ret (cbool (arg \<noteq> []))) ?tp)" by (rule bk) simp
  show ?thesis
    unfolding e3_primary_def
  proof (rule runs_seq [where j = "ap tp"])
    show "runs tp (ap tp) (nxtarg True tp)" using assms by (simp add: nxtarg_eq)
    fix cp tp' assume "nxtarg True tp = (Inr cp, tp')"
    then have t: "tp' = ?tp" using assms by (simp add: nxtarg_eq split: if_splits)
    show "runs tp' (ap tp) ((case cp of
       Some cp \<Rightarrow>
         if cp = str ''='' \<or> cp = str ''!='' then e3_skip E inparens arg cp
         else if \<not> posix E \<and> arg = str ''-t'' then on_shell (tty_arg E cp)
         else if dash2 E arg \<and> in_opchars E (at1 arg) then on_shell (test_unop E (at1 arg) cp)
         else e3_skip E inparens arg cp
     | None \<Rightarrow>
         if \<not> posix E \<and> arg = str ''-t'' then seq step_back (\<lambda>_. on_shell (\<lambda>s. (Inr (tty_check E 1 s), s)))
         else if dash2 E arg then ret 1
         else seq step_back (\<lambda>_. ret (cbool (arg \<noteq> [])))) tp')"
      unfolding t using shell [OF nofault_tty_arg [of E]] shell [OF nofault_unop [of E]] skip tty str by (cases cp) simp_all
  qed
qed

lemma runs_if: "(b \<Longrightarrow> runs tp k (f tp)) \<Longrightarrow> (\<not> b \<Longrightarrow> runs tp k (g tp)) \<Longrightarrow> runs tp k ((if b then f else g) tp)"
  by simp

lemma runs_is_not: "ac tp \<le> length (av tp) \<Longrightarrow> runs tp (ap tp) (is_not E inparens arg tp)"
  and runs_is_open: "ap tp \<le> length (av tp) \<Longrightarrow> runs tp (ap tp) (is_open E arg tp)"
  by (simp_all add: is_not_def is_open_def seq_def av_at_def)

lemma is_not_same: "is_not E inparens arg tp = (Inr b, tp') \<Longrightarrow> tp' = tp"
  and is_open_same: "is_open E arg tp = (Inr b, tp') \<Longrightarrow> tp' = tp"
  by (auto simp: is_not_def is_open_def seq_def av_at_def split: if_splits)

text \<open>Every argument that \<open>expr\<close> and \<open>e3\<close> take costs at most two units of fuel.\<close>

lemma runs_expr_e3:
  fixes tp :: "'s tst"
  shows "ac tp \<le> length (av tp) \<Longrightarrow> 2 * (ac tp - ap tp) + 2 \<le> n \<Longrightarrow> runs tp (Suc (ap tp)) (test_expr E n parens inand tp)"
    and "ac tp \<le> length (av tp) \<Longrightarrow> 2 * (ac tp - ap tp) + 1 \<le> n \<Longrightarrow> runs tp (ap tp) (test_expr_loop E n parens inand r tp)"
    and "ac tp \<le> length (av tp) \<Longrightarrow> 2 * (ac tp - ap tp) + 1 \<le> n \<Longrightarrow> runs tp (Suc (ap tp)) (e3 E n parens tp)"
proof (induction n arbitrary: tp parens inand r)
  case (Suc n)
  note ex = Suc.IH(1) and lp = Suc.IH(2) and e3 = Suc.IH(3)
  { case 1
    show ?case
      unfolding test_expr.simps
    proof (rule runs_seq)
      show e: "runs tp (Suc (ap tp)) (e3 E n parens tp)" by (rule e3) (use 1 in simp_all)
      fix r and tp' :: "'s tst"
      assume a: "e3 E n parens tp = (Inr r, tp')" and v: "av tp' = av tp" "ac tp' = ac tp" "Suc (ap tp) \<le> ap tp'"
      have "ap tp < ac tp"
      proof (rule ccontr)
        assume "\<not> ap tp < ac tp"
        then show False using a 1 by (cases n) (auto simp: seq_def argument_eq)
      qed
      then show "runs tp' (Suc (ap tp)) (test_expr_loop E n parens inand r tp')"
        by (intro runs_weak [OF lp v(3)]) (use v 1 in simp_all)
    qed
  next
    case 2
    show ?case
    proof (cases "ap tp < ac tp")
      case True
      let ?tp = "tp\<lparr>ap := Suc (ap tp)\<rparr>" and ?p = "av tp ! ap tp"
      have bk: "runs ?tp (ap tp) (seq step_back (\<lambda>_. ret r) ?tp)" by (simp add: seq_def step_back_def)
      have rec: "runs ?tp (ap tp) (seq (test_expr E n parens c) (\<lambda>x. test_expr_loop E n parens inand (f x)) ?tp)" for c f
      proof (rule runs_seq)
        show "runs ?tp (Suc (ap ?tp)) (test_expr E n parens c ?tp)" by (rule ex) (use 2 True in simp_all)
        fix x and tp' :: "'s tst" assume v: "av tp' = av ?tp" "ac tp' = ac ?tp" "Suc (ap ?tp) \<le> ap tp'"
        show "runs tp' (ap tp) (test_expr_loop E n parens inand (f x) tp')"
          by (rule runs_weak [OF lp]) (use v 2 True in simp_all)
      qed
      have "runs ?tp (ap tp)
          ((if (parens \<or> inand) \<and> p = str '')'' then seq step_back (\<lambda>_. ret r)
           else if dash2 E p \<and> at1 p = chr CHR ''o'' then
             if inand then seq step_back (\<lambda>_. ret r)
             else seq (test_expr E n parens False) (\<lambda>x. test_expr_loop E n parens inand (r OR x))
           else if dash2 E p \<and> at1 p = chr CHR ''a'' then
             seq (test_expr E n parens True) (\<lambda>x. test_expr_loop E n parens inand (r AND x))
           else fail BadSyntax) ?tp)" for p
        by (intro runs_if bk rec) simp
      from this [of ?p] show ?thesis using True 2 by (simp add: seq_def argument_eq runs_def)
    next
      case False
      then show ?thesis by simp
    qed
  next
    case 3
    show ?case
    proof (cases "ap tp < ac tp")
      case True
      let ?tp = "tp\<lparr>ap := Suc (ap tp)\<rparr>" and ?p = "av tp ! ap tp"
      have neg: "runs ?tp (Suc (ap tp)) (seq (e3 E n parens) (\<lambda>r. ret (cbool (r = 0))) ?tp)"
        by (rule runs_seq [OF e3]) (use True 3 in simp_all)
      have par: "runs ?tp (Suc (ap tp)) (seq (test_expr E n True False) (\<lambda>op. seq argument (\<lambda>cp.
          if cp = str '')'' then ret op else fail (Missing (str '')'')))) ?tp)"
      proof (rule runs_seq [OF ex])
        fix x and tp' :: "'s tst" assume v: "av tp' = av ?tp" "ac tp' = ac ?tp" "Suc (ap ?tp) \<le> ap tp'"
        show "runs tp' (Suc (ap tp)) (seq argument (\<lambda>cp. if cp = str '')'' then ret x else fail (Missing (str '')''))) tp')"
          using v 3 by (simp add: seq_def argument_eq)
      qed (use True 3 in simp_all)
      have prim: "runs ?tp (Suc (ap tp)) (e3_primary E parens ?p ?tp)"
        using runs_primary [of ?tp E parens ?p] 3 by simp
      have open': "runs ?tp (Suc (ap tp)) (seq (is_open E ?p) (\<lambda>b.
          if b then seq (test_expr E n True False) (\<lambda>op. seq argument (\<lambda>cp.
            if cp = str '')'' then ret op else fail (Missing (str '')''))))
          else e3_primary E parens ?p) ?tp)"
      proof (rule runs_seq [OF runs_is_open])
        fix b and tp' :: "'s tst" assume "is_open E ?p ?tp = (Inr b, tp')"
        then have "tp' = ?tp" by (rule is_open_same)
        then show "runs tp' (Suc (ap tp)) ((if b then seq (test_expr E n True False) (\<lambda>op. seq argument (\<lambda>cp.
            if cp = str '')'' then ret op else fail (Missing (str '')''))))
          else e3_primary E parens ?p) tp')" using par prim by simp
      qed (use True 3 in simp)
      have "runs ?tp (Suc (ap tp)) (seq (is_not E parens ?p) (\<lambda>b.
          if b then seq (e3 E n parens) (\<lambda>r. ret (cbool (r = 0)))
          else seq (is_open E ?p) (\<lambda>b.
            if b then seq (test_expr E n True False) (\<lambda>op. seq argument (\<lambda>cp.
              if cp = str '')'' then ret op else fail (Missing (str '')''))))
            else e3_primary E parens ?p)) ?tp)"
      proof (rule runs_seq [OF runs_is_not])
        fix b and tp' :: "'s tst" assume "is_not E parens ?p ?tp = (Inr b, tp')"
        then have "tp' = ?tp" by (rule is_not_same)
        then show "runs tp' (Suc (ap tp)) ((if b then seq (e3 E n parens) (\<lambda>r. ret (cbool (r = 0)))
          else seq (is_open E ?p) (\<lambda>b.
            if b then seq (test_expr E n True False) (\<lambda>op. seq argument (\<lambda>cp.
              if cp = str '')'' then ret op else fail (Missing (str '')''))))
            else e3_primary E parens ?p)) tp')" using neg open' by simp
      qed (use 3 in simp)
      then show ?thesis using True 3 by (simp add: seq_def argument_eq runs_def)
    next
      case False
      then show ?thesis using 3 by (simp add: seq_def argument_eq)
    qed
  }
qed simp_all

declare test_expr.simps(2) [simp del] test_expr_loop.simps(2) [simp del] e3.simps(2) [simp del]

section \<open>The command\<close>

lemma nofault_run_expr:
  assumes "argc \<le> length argv"
  shows "nofault (run_expr E argv argc)"
  unfolding nofault_def
proof
  fix s
  have "runs \<lparr>av = argv, ap = 1, ac = argc, shell = s\<rparr> 2 (test_expr E (2 * argc + 2) False False \<lparr>av = argv, ap = 1, ac = argc, shell = s\<rparr>)"
    by (rule runs_weak [OF runs_expr_e3(1)]) (use assms in simp_all)
  then show "sound (fst (run_expr E argv argc s))"
    by (cases "test_expr E (2 * argc + 2) False False \<lparr>av = argv, ap = 1, ac = argc, shell = s\<rparr>") (simp add: run_expr_def runs_def)
qed

text \<open>An exit status, or an error of the command.\<close>

definition yields_status :: "terror + int \<Rightarrow> bool" where
  "yields_status r = (case r of Inl e \<Rightarrow> e \<noteq> WildRead \<and> e \<noteq> OutOfFuel | Inr v \<Rightarrow> v = 0 \<or> v = 1)"

definition status_act :: "('s, int) act \<Rightarrow> bool" where
  "status_act f = (\<forall>s. yields_status (fst (f s)))"

lemma status_seq:
  assumes "nofault f"
  shows "status_act (seq f (\<lambda>r. ret (cbool (P r))))"
  using assms unfolding nofault_def status_act_def
  by (auto simp: seq_def yields_status_def cbool_def split: prod.splits sum.splits) (metis fst_conv sound_simps(2))+

lemma status_basic [simp]: "status_act (ret (cbool b))" "status_act (fail e) = (e \<noteq> WildRead \<and> e \<noteq> OutOfFuel)"
  by (simp_all add: status_act_def yields_status_def cbool_def)

lemma status_if [intro]: "(b \<Longrightarrow> status_act f) \<Longrightarrow> (\<not> b \<Longrightarrow> status_act g) \<Longrightarrow> status_act (if b then f else g)"
  by simp

lemma locate_number: "locate sp first table \<in> insert 0 (snd ` set table)"
  by (induction sp first table rule: locate.induct) (auto split: list.splits)

lemma test_op_cases: "test_op p \<in> insert 0 (snd ` set shtab_testops)"
  using locate_number [of _ _ shtab_testops] by (auto simp: sh_locate_def split: list.splits)

lemma status_binop:
  assumes "op \<in> insert 0 (snd ` set shtab_testops)"
  shows "status_act (test_binop E op left right)"
proof -
  have p: "op \<noteq> TEST_PEQ" using assms by (auto simp: shtab_testops_def test_ops)
  have pure: "status_act (\<lambda>s. (Inr (f s), s))" if "\<And>s. f s = 0 \<or> f s = 1" for f :: "'a \<Rightarrow> int"
    using that by (simp add: status_act_def yields_status_def)
  have inode: "test_inode E left right s = 0 \<or> test_inode E left right s = 1" for s
    by (simp add: test_inode_def split: option.splits)
  have arith: "status_act (seq (arith_operands E left right) (\<lambda>(l, r). ret (cbool (binop_arith E op l r))))"
    using status_seq [OF nofault_operands, of E left right "\<lambda>(l, r). binop_arith E op l r"] by (simp only: case_prod_unfold)
  have cb: "cbool b = 0 \<or> cbool b = 1" for b by (simp add: cbool_def)
  show ?thesis
    unfolding test_binop_def
    by (intro status_if arith status_seq nofault_strmatch pure [OF inode] pure [OF cb] status_basic(1)) (use p in simp)
qed

text \<open>Without arguments left there is an error, and one argument alone is a string.\<close>

lemma e3_empty: "ac tp \<le> ap tp \<Longrightarrow> ac tp \<le> length (av tp) \<Longrightarrow> isl (fst (e3 E n parens tp))"
  by (cases n) (simp_all add: e3.simps(2) seq_def argument_eq)

lemma seq_isl: "isl (fst (f tp)) \<Longrightarrow> isl (fst (seq f g tp))"
  by (cases "f tp") (auto simp: isl_def)

lemma expr_empty: "ac tp \<le> ap tp \<Longrightarrow> ac tp \<le> length (av tp) \<Longrightarrow> isl (fst (test_expr E n parens inand tp))"
  by (cases n) (simp_all add: test_expr.simps(2) seq_isl e3_empty)

text \<open>The error or the value 0 or 1 of an expression after which no argument is left.\<close>

definition bit_end :: "(terror + int) \<times> 's tst \<Rightarrow> bool" where
  "bit_end q = (case q of (Inl e, tp) \<Rightarrow> True | (Inr v, tp) \<Rightarrow> (v = 0 \<or> v = 1) \<and> ac tp \<le> ap tp)"

lemma bit_end_isl: "isl (fst q) \<Longrightarrow> bit_end q"
  by (cases q) (auto simp: bit_end_def isl_def)

lemma bit_end_seq: "isl (fst (f tp)) \<Longrightarrow> bit_end (seq f g tp)"
  by (cases "f tp") (auto simp: isl_def bit_end_def)

lemma e3_single:
  assumes "ac tp = Suc (ap tp)" "ac tp \<le> length (av tp)" "posix E"
  shows "bit_end (e3 E n parens tp)"
proof (cases n)
  case (Suc m)
  let ?p = "av tp ! ap tp" and ?tp = "tp\<lparr>ap := Suc (ap tp)\<rparr>"
  have neg: "is_not E parens ?p ?tp = (Inr False, ?tp)" using assms by (simp add: is_not_def)
  have prim: "bit_end (e3_primary E parens ?p ?tp)"
    using assms by (simp add: e3_primary_def nxtarg_eq seq_def step_back_def bit_end_def cbool_def)
  have par: "bit_end (seq (test_expr E m True False) g ?tp)" for g
    by (rule bit_end_seq) (rule expr_empty, use assms in simp_all)
  show ?thesis
    using neg prim par assms Suc by (cases "is_open E ?p ?tp")
      (auto simp: e3.simps(2) seq_def argument_eq is_open_def av_at_def split: if_splits)
qed (simp add: bit_end_def fail_def)

lemma expr_single:
  assumes "ac tp = Suc (ap tp)" "ac tp \<le> length (av tp)" "posix E"
  shows "bit_end (test_expr E n parens inand tp)"
proof (cases n)
  case (Suc m)
  have loop: "bit_end (test_expr_loop E m parens inand r tp')" if "ac tp' \<le> ap tp'" "r = 0 \<or> r = 1" for r and tp' :: "'a tst"
    using that by (cases m) (auto simp: test_expr_loop.simps(2) bit_end_def fail_def)
  show ?thesis
  proof (cases "e3 E m parens tp")
    case (Pair r tp')
    have "bit_end (r, tp')" using e3_single [OF assms, of m parens] Pair by simp
    then show ?thesis
      using loop Pair Suc by (cases r) (auto simp: test_expr.simps(2) bit_end_def [of "(_, _)"] intro: bit_end_isl)
  qed
qed (simp add: bit_end_def fail_def)

lemma bit_end_seqI:
  assumes "\<And>x tp'. f tp = (Inr x, tp') \<Longrightarrow> bit_end (g x tp')"
  shows "bit_end (seq f g tp)"
proof (cases "f tp")
  case (Pair r tp')
  then show ?thesis using assms by (cases r) (auto intro: bit_end_isl)
qed

lemma loop_end: "ac tp \<le> ap tp \<Longrightarrow> r = 0 \<or> r = 1 \<Longrightarrow> bit_end (test_expr_loop E n parens inand r tp)"
  by (cases n) (auto simp: test_expr_loop.simps(2) bit_end_def fail_def)

text \<open>
  Two strings with \<open>-a\<close> or \<open>-o\<close> between them in POSIX mode: even where the first looks like a unary
  operator, whose value may be any bit of a mode, the result is an error or 0 or 1.
\<close>

lemma loop_last:
  assumes "ac tp = Suc (ap tp)" "ac tp \<le> length (av tp)"
  shows "bit_end (test_expr_loop E n False False r tp)"
proof (cases n)
  case (Suc m)
  let ?tp = "tp\<lparr>ap := Suc (ap tp)\<rparr>"
  have x: "bit_end (seq (test_expr E m False c) g ?tp)" for c g
    by (rule bit_end_seq) (rule expr_empty, use assms in simp_all)
  have f: "bit_end (fail BadSyntax ?tp)" by (simp add: bit_end_def)
  show ?thesis using x f assms Suc by (simp add: test_expr_loop.simps(2) seq_def argument_eq)
qed (simp add: bit_end_def fail_def)

lemma loop_andor:
  assumes "Suc (Suc (ap tp)) = ac tp" "ac tp \<le> length (av tp)" "posix E"
    and "av tp ! ap tp = str ''-a'' \<or> av tp ! ap tp = str ''-o''" "r = 0 \<or> r = 1"
  shows "bit_end (test_expr_loop E n False False r tp)"
proof (cases n)
  case (Suc m)
  let ?tp = "tp\<lparr>ap := Suc (ap tp)\<rparr>"
  have x: "bit_end (seq (test_expr E m False c) (\<lambda>x. test_expr_loop E m False False (f x)) ?tp)"
    if "\<And>x. x = 0 \<or> x = 1 \<Longrightarrow> f x = 0 \<or> f x = 1" for c and f :: "int \<Rightarrow> int"
  proof (rule bit_end_seqI)
    fix x tp' assume e: "test_expr E m False c ?tp = (Inr x, tp')"
    have "bit_end (test_expr E m False c ?tp)" by (rule expr_single) (use assms in simp_all)
    then have "(x = 0 \<or> x = 1) \<and> ac tp' \<le> ap tp'" using e by (simp add: bit_end_def)
    then show "bit_end (test_expr_loop E m False False (f x) tp')" using that by (intro loop_end) simp_all
  qed
  have d: "dash2 E (str ''-a'')" "dash2 E (str ''-o'')" "at1 (str ''-a'') = chr CHR ''a''" "at1 (str ''-o'') = chr CHR ''o''"
    "chr CHR ''a'' \<noteq> chr CHR ''o''"
    by (simp_all add: str_def) (simp add: chr_def)
  have "bit_end (seq (test_expr E m False False) (\<lambda>x. test_expr_loop E m False False (r OR x)) ?tp)"
    "bit_end (seq (test_expr E m False True) (\<lambda>x. test_expr_loop E m False False (r AND x)) ?tp)"
    by (rule x, use assms(5) in auto)+
  then show ?thesis using d assms Suc by (auto simp: test_expr_loop.simps(2) seq_def argument_eq)
qed (simp add: bit_end_def fail_def)

lemma expr_andor:
  assumes "ac tp = ap tp + 3" "ac tp \<le> length (av tp)" "posix E" "posix_andor E (Some (av tp ! Suc (ap tp)))"
  shows "bit_end (test_expr E n False False tp)"
proof (cases n)
  case (Suc m)
  let ?p = "av tp ! ap tp" and ?q = "av tp ! Suc (ap tp)"
  let ?tp1 = "tp\<lparr>ap := Suc (ap tp)\<rparr>" and ?tp2 = "tp\<lparr>ap := Suc (Suc (ap tp))\<rparr>"
  have q: "?q = str ''-a'' \<or> ?q = str ''-o''" using assms(4) test_op_andor [of ?q] by (simp add: posix_andor_def)
  have ops: "test_op ?q AND TEST_ANDOR \<noteq> 0" using test_op_andor [of ?q] q by blast
  then have nz: "test_op ?q \<noteq> 0" by (cases "test_op ?q = 0") simp_all
  have ne: "?q \<noteq> str ''=''" "?q \<noteq> str ''!=''" using q by (auto simp: str_def chr_def)
  have arg: "argument tp = (Inr ?p, ?tp1)" using assms by (simp add: argument_eq)
  have neg: "is_not E False ?p ?tp1 = (Inr False, ?tp1)" using assms by (simp add: is_not_def av_at_def seq_def)
  have opn: "is_open E ?p ?tp1 = (Inr False, ?tp1)" using assms by (simp add: is_open_def av_at_def seq_def)
  have nxt: "nxtarg True ?tp1 = (Inr (Some ?q), ?tp2)" using assms by (simp add: nxtarg_eq)
  have e3: "e3 E (Suc k) False tp = e3_primary E False ?p ?tp1" for k
    by (simp add: e3.simps(2) seq_def arg neg opn)
  have loop2: "bit_end (test_expr_loop E m False False r \<lparr>av = av tp, ap = Suc (Suc (ap tp)), ac = ac tp, shell = s\<rparr>)" for r s
    by (rule loop_last) (use assms in simp_all)
  have loop1: "bit_end (test_expr_loop E m False False r \<lparr>av = av tp, ap = Suc (ap tp), ac = ac tp, shell = s\<rparr>)"
    if "r = 0 \<or> r = 1" for r s
    by (rule loop_andor) (use assms q that in simp_all)
  have un: "bit_end (seq (on_shell f) (\<lambda>r. test_expr_loop E m False False r) ?tp2)" for f :: "('a, int) act"
  proof (rule bit_end_seqI)
    fix x tp' assume "on_shell f ?tp2 = (Inr x, tp')"
    then have "tp' = \<lparr>av = av tp, ap = Suc (Suc (ap tp)), ac = ac tp, shell = shell tp'\<rparr>"
      by (auto simp: on_shell_def split: prod.splits)
    then show "bit_end (test_expr_loop E m False False x tp')" using loop2 by metis
  qed
  have bin: "bit_end (seq (e3_skip E False ?p ?q) (\<lambda>r. test_expr_loop E m False False r) ?tp2)"
  proof (rule bit_end_seqI)
    fix x tp' assume e: "e3_skip E False ?p ?q ?tp2 = (Inr x, tp')"
    have v: "x = 0 \<or> x = 1"
      using e ops nz status_binop [OF test_op_cases, of E ?q ?p ?q]
      by (cases "test_binop E (test_op ?q) ?p ?q (shell tp)")
        (auto simp: e3_skip_def step_back_def seq_def on_shell_def status_act_def yields_status_def Let_def dest: spec [of _ "shell tp"])
    have "tp' = \<lparr>av = av tp, ap = Suc (ap tp), ac = ac tp, shell = shell tp'\<rparr>"
      using e ops nz by (auto simp: e3_skip_def step_back_def seq_def on_shell_def Let_def split: prod.splits)
    then show "bit_end (test_expr_loop E m False False x tp')" using loop1 [OF v] by metis
  qed
  have "bit_end (seq (e3_primary E False ?p) (\<lambda>r. test_expr_loop E m False False r) ?tp1)"
    using un [of "test_unop E (at1 ?p) ?q"] bin assms(3) ne nxt by (simp add: e3_primary_def seq_def)
  then show ?thesis using Suc e3 by (cases m) (simp_all add: test_expr.simps(2) seq_def bit_end_def)
qed (simp add: bit_end_def fail_def)

section \<open>The command\<close>

lemma status_triple:
  fixes E :: "('s, 'n, 'v) tenv"
  assumes "posix E" "4 \<le> length argv" "posix_andor E (Some (argv ! 2))"
  shows "status_act (run_expr E argv 4)"
  unfolding status_act_def
proof
  fix s :: 's
  let ?tp = "\<lparr>av = argv, ap = 1, ac = 4, shell = s\<rparr>"
  have "bit_end (test_expr E (2 * 4 + 2) False False ?tp)"
    by (rule expr_andor) (use assms in \<open>simp_all add: numeral_2_eq_2\<close>)
  moreover have "sound (fst (run_expr E argv 4 s))" using nofault_run_expr [of 4 argv E] assms(2) by (simp add: nofault_def)
  ultimately show "yields_status (fst (run_expr E argv 4 s))"
    by (cases "test_expr E (2 * 4 + 2) False False ?tp")
      (auto simp: run_expr_def bit_end_def yields_status_def sound_def split: sum.splits)
qed

lemma status_xor:
  assumes "status_act f"
  shows "status_act (seq f (\<lambda>r. ret (r XOR cbool b)))"
  unfolding status_act_def
proof
  fix s
  have "yields_status (fst (f s))" using assms by (simp add: status_act_def)
  then show "yields_status (fst (seq f (\<lambda>r. ret (r XOR cbool b)) s))"
    by (cases "f s") (auto simp: seq_def yields_status_def cbool_def split: sum.splits)
qed

lemma status_whole: "argc \<le> length argv \<Longrightarrow> status_act (whole_expr E argv argc)"
  unfolding whole_expr_def by (rule status_seq) (rule nofault_run_expr)

lemma status_case4: "status_act f \<Longrightarrow> status_act (case4 E neg argv argc f)"
  unfolding case4_def Let_def
  by (intro status_if status_basic(1) status_seq nofault_unop status_xor status_binop test_op_cases) simp_all

lemma status_case3: "status_act f \<Longrightarrow> status_act (case3 E neg argv f)"
  unfolding case3_def Let_def
  by (intro status_if status_basic(1) status_seq nofault_unop) (simp_all add: status_act_def yields_status_def)

lemma status_by_count:
  assumes "argc \<le> length argv"
  shows "status_act (by_count E argv argc)"
proof -
  have p: "status_act (run_expr E (tl argv) (argc - 1))" if "argc = 5" "posix_andor E (Some (argv ! 3))"
  proof -
    have "tl argv ! 2 = argv ! 3" using assms that(1) by (simp add: nth_tl)
    then show ?thesis
      using status_triple [of E "tl argv"] that assms by (simp add: posix_andor_def)
  qed
  show ?thesis
    unfolding by_count_def Let_def
    by (intro status_if p status_case4 status_case3 status_whole assms status_basic(1))
qed

text \<open>
  C13. The command \<open>test\<close> returns for every vector of arguments: \<open>expr\<close> never needs more fuel than it is
  given, and no argument behind the terminating null pointer is read.  What it returns is the exit
  status 0 or 1, or one of its error messages.
\<close>

theorem b_test_status:
  assumes "argv \<noteq> []"
  shows "\<exists>s'. b_test E argv s = (Inr 0, s') \<or> b_test E argv s = (Inr 1, s') \<or>
    (\<exists>e. b_test E argv s = (Inl e, s') \<and> e \<noteq> WildRead \<and> e \<noteq> OutOfFuel)"
proof -
  have "status_act (b_test E argv)"
    unfolding b_test_def Let_def
    by (intro status_if status_by_count) (use assms status_basic in \<open>auto simp: status_act_def yields_status_def\<close>)
  then have "yields_status (fst (b_test E argv s))" by (simp add: status_act_def)
  then show ?thesis by (cases "b_test E argv s") (auto simp: yields_status_def split: sum.splits)
qed

end
