(* ===== verification/TestGrammar.thy ===== *)
theory TestGrammar
  imports TestSafe
begin

text \<open>
  The language of the expressions of \<open>test\<close>: a tree is printed with \<open>!\<close>, \<open>-a\<close>, \<open>-o\<close> and the
  parentheses it needs, and \<open>expr\<close> gives on the printed arguments what the tree means.
\<close>

section \<open>Trees and their arguments\<close>

datatype texp =
    Unary byte "byte list"
  | Binary "byte list" "byte list" "byte list"
  | Neg texp
  | And texp texp
  | Or texp texp

text \<open>The value of a tree; every operand is evaluated, from left to right.\<close>

primrec eval :: "('s, 'n, 'v) tenv \<Rightarrow> texp \<Rightarrow> ('s, int) act" where
  "eval E (Unary op arg) = test_unop E op arg"
| "eval E (Binary l op r) = test_binop E (test_op op) l r"
| "eval E (Neg e) = seq (eval E e) (\<lambda>r. ret (cbool (r = 0)))"
| "eval E (And a b) = seq (eval E a) (\<lambda>x. seq (eval E b) (\<lambda>y. ret (x AND y)))"
| "eval E (Or a b) = seq (eval E a) (\<lambda>x. seq (eval E b) (\<lambda>y. ret (x OR y)))"

text \<open>\<open>-o\<close> binds weaker than \<open>-a\<close>, and that weaker than \<open>!\<close>.\<close>

primrec level :: "texp \<Rightarrow> nat" where
  "level (Unary op arg) = 2"
| "level (Binary l op r) = 2"
| "level (Neg e) = 2"
| "level (And a b) = 1"
| "level (Or a b) = 0"

definition wrap :: "bool \<Rightarrow> byte list list \<Rightarrow> byte list list" where
  "wrap b ts = (if b then str ''('' # ts @ [str '')''] else ts)"

primrec args :: "texp \<Rightarrow> byte list list" where
  "args (Unary op arg) = [[chr CHR ''-'', op], arg]"
| "args (Binary l op r) = [l, op, r]"
| "args (Neg e) = str ''!'' # wrap (level e < 2) (args e)"
| "args (And a b) = wrap (level a < 2) (args a) @ str ''-a'' # wrap (level b < 1) (args b)"
| "args (Or a b) = wrap (level a < 1) (args a) @ str ''-o'' # args b"

text \<open>
  The trees whose printed form is unambiguous: \<open>=\<close> and \<open>!=\<close> are not operands of unary operators, the
  left operand of a binary operator does not look like another operator, and POSIX mode has no unary
  \<open>-a\<close> and \<open>-o\<close>.
\<close>

primrec plain :: "('s, 'n, 'v) tenv \<Rightarrow> texp \<Rightarrow> bool" where
  "plain E (Unary op arg) =
    (op \<in> set (test_opchars (shopt_test_l E)) \<and> op \<noteq> 0 \<and> arg \<noteq> str ''='' \<and> arg \<noteq> str ''!='' \<and>
     (posix E \<longrightarrow> op \<noteq> chr CHR ''a'' \<and> op \<noteq> chr CHR ''o''))"
| "plain E (Binary l op r) =
    (l \<noteq> str ''!'' \<and> l \<noteq> str ''('' \<and> l \<noteq> str ''-a'' \<and> l \<noteq> str ''-o'' \<and>
     \<not> (dash2 E l \<and> in_opchars E (at1 l)) \<and>
     test_op op \<noteq> 0 \<and> test_op op AND TEST_ANDOR = 0)"
| "plain E (Neg e) = plain E e"
| "plain E (And a b) = (plain E a \<and> plain E b)"
| "plain E (Or a b) = (plain E a \<and> plain E b)"

section \<open>The arguments that are left\<close>

definition left :: "'s tst \<Rightarrow> byte list list" where
  "left tp = take (ac tp - ap tp) (drop (ap tp) (av tp))"

definition within :: "'s tst \<Rightarrow> bool" where
  "within tp = (ac tp \<le> length (av tp))"

lemma left_Cons:
  assumes "left tp = t # ts" "within tp"
  shows "ap tp < ac tp" "av tp ! ap tp = t" "left (tp\<lparr>ap := Suc (ap tp)\<rparr>) = ts"
proof -
  show a: "ap tp < ac tp" by (rule ccontr) (use assms(1) in \<open>simp add: left_def\<close>)
  then have "drop (ap tp) (av tp) = av tp ! ap tp # drop (Suc (ap tp)) (av tp)"
    using assms(2) by (simp add: within_def Cons_nth_drop_Suc)
  moreover have "ac tp - ap tp = Suc (ac tp - Suc (ap tp))" using a by simp
  ultimately show "av tp ! ap tp = t" "left (tp\<lparr>ap := Suc (ap tp)\<rparr>) = ts" using assms(1) by (simp_all add: left_def)
qed

lemma left_argument: "left tp = t # ts \<Longrightarrow> within tp \<Longrightarrow> argument tp = (Inr t, tp\<lparr>ap := Suc (ap tp)\<rparr>)"
  using left_Cons [of tp t ts] by (simp add: within_def argument_eq)

lemma left_nxtarg: "left tp = t # ts \<Longrightarrow> within tp \<Longrightarrow> nxtarg True tp = (Inr (Some t), tp\<lparr>ap := Suc (ap tp)\<rparr>)"
  using left_Cons [of tp t ts] by (simp add: within_def nxtarg_eq)

lemma left_shell [simp]: "left (tp\<lparr>shell := s\<rparr>) = left tp" "within (tp\<lparr>shell := s\<rparr>) = within tp" "within (tp\<lparr>ap := k\<rparr>) = within tp"
  by (simp_all add: left_def within_def)

lemma left_drop: "left tp = ts @ us \<Longrightarrow> left (tp\<lparr>ap := ap tp + length ts\<rparr>) = us"
proof -
  assume a: "left tp = ts @ us"
  have "left (tp\<lparr>ap := ap tp + length ts\<rparr>) = drop (length ts) (left tp)"
    by (simp add: left_def drop_take add.commute)
  then show ?thesis using a by simp
qed

text \<open>
  A step that takes \<open>k\<close> arguments and otherwise does what \<open>q\<close> says; after an error the position does
  not matter.
\<close>

definition does :: "'s tst \<Rightarrow> nat \<Rightarrow> (terror + 'a) \<times> 's \<Rightarrow> (terror + 'a) \<times> 's tst \<Rightarrow> bool" where
  "does tp k q p = ((fst p, shell (snd p)) = q \<and>
     (isl (fst p) \<or> snd p = tp\<lparr>ap := ap tp + k, shell := shell (snd p)\<rparr>))"

lemma does_shift: "does (tp\<lparr>ap := ap tp + k, shell := s\<rparr>) j q p \<Longrightarrow> does tp (k + j) q p"
  by (simp add: does_def add.assoc)

lemma does_seq:
  assumes "does tp k (f (shell tp)) (F tp)"
    and "\<And>x s. f (shell tp) = (Inr x, s) \<Longrightarrow> does (tp\<lparr>ap := ap tp + k, shell := s\<rparr>) j (g x s) (G x (tp\<lparr>ap := ap tp + k, shell := s\<rparr>))"
  shows "does tp (k + j) (seq f g (shell tp)) (seq F G tp)"
proof (cases "F tp")
  case (Pair r tp')
  show ?thesis
  proof (cases r)
    case (Inl e)
    then have "f (shell tp) = (Inl e, shell tp')" using assms(1) Pair by (simp add: does_def)
    then show ?thesis using Pair Inl by (simp add: does_def)
  next
    case (Inr x)
    then have f: "f (shell tp) = (Inr x, shell tp')" "tp' = tp\<lparr>ap := ap tp + k, shell := shell tp'\<rparr>"
      using assms(1) Pair by (simp_all add: does_def)
    have "does tp (k + j) (g x (shell tp')) (G x tp')"
      using does_shift [OF assms(2) [OF f(1)]] by (simp only: f(2) [symmetric])
    then show ?thesis using f(1) Pair Inr by simp
  qed
qed

lemma does_weak: "does tp k q p \<Longrightarrow> q = q' \<Longrightarrow> k = k' \<Longrightarrow> does tp k' q' p"
  by simp

lemma does_on_shell: "does tp 0 (f (shell tp)) (on_shell f tp)"
  by (auto simp: does_def on_shell_def split: prod.splits)

lemma does_ret [simp]: "does tp 0 (ret x (shell tp)) (ret x tp)"
  by (simp add: does_def)

text \<open>Taking an argument first.\<close>

lemma does_argument:
  assumes "left tp = t # ts" "within tp" "does (tp\<lparr>ap := Suc (ap tp)\<rparr>) k q (G t (tp\<lparr>ap := Suc (ap tp)\<rparr>))"
  shows "does tp (Suc k) q (seq argument G tp)"
  using assms(3) by (simp add: left_argument [OF assms(1,2)] does_def)

section \<open>Operators\<close>

lemma operator_tokens:
  "dash2 E (str ''-a'')" "dash2 E (str ''-o'')" "at1 (str ''-a'') = chr CHR ''a''" "at1 (str ''-o'') = chr CHR ''o''"
  "chr CHR ''a'' \<noteq> chr CHR ''o''" "str ''-o'' \<noteq> str '')''" "str ''-a'' \<noteq> str '')''" "str '')'' \<noteq> str ''-a''"
  "str ''!'' \<noteq> str ''(''" "[chr CHR ''-'', op] \<noteq> str ''!''" "[chr CHR ''-'', op] \<noteq> str ''(''"
  "str ''('' \<noteq> str ''!''" "str ''!'' \<noteq> str ''-a''" "str ''!'' \<noteq> str ''-o''" "str ''('' \<noteq> str ''-a''" "str ''('' \<noteq> str ''-o''"
  "[chr CHR ''-'', op] = str ''-a'' \<longleftrightarrow> op = chr CHR ''a''" "[chr CHR ''-'', op] = str ''-o'' \<longleftrightarrow> op = chr CHR ''o''"
  by (simp_all add: str_def) (simp_all add: chr_def)

text \<open>Where a loop for \<open>-a\<close> or for an expression in parentheses stops.\<close>

definition stops :: "bool \<Rightarrow> bool \<Rightarrow> byte list list \<Rightarrow> bool" where
  "stops parens inand rest =
    (rest = [] \<or> (parens \<or> inand) \<and> hd rest = str '')'' \<or> inand \<and> hd rest = str ''-o'')"

lemma loop_stops:
  assumes "left tp = rest" "within tp" "stops parens inand rest"
  shows "test_expr_loop E (Suc n) parens inand r tp = (Inr r, tp)"
proof (cases rest)
  case Nil
  then have "\<not> ap tp < ac tp" using assms(1,2) by (auto simp: left_def within_def)
  then show ?thesis by (simp add: test_expr_loop.simps(2))
next
  case (Cons t ts)
  then have "argument tp = (Inr t, tp\<lparr>ap := Suc (ap tp)\<rparr>)" "ap tp < ac tp"
    using left_argument left_Cons(1) assms(1,2) by blast+
  then show ?thesis
    using assms(3) Cons operator_tokens
    by (auto simp: test_expr_loop.simps(2) seq_def stops_def step_back_def)
qed

text \<open>The first argument of an expression is not an operator of POSIX mode.\<close>

lemma wrap_hd: "ts \<noteq> [] \<Longrightarrow> hd (wrap b ts) = (if b then str ''('' else hd ts)" "wrap b ts \<noteq> [] \<longleftrightarrow> b \<or> ts \<noteq> []"
  by (simp_all add: wrap_def)

lemma args_first: "args e \<noteq> [] \<and> (plain E e \<longrightarrow> \<not> posix_andor E (Some (hd (args e))))"
proof (induction e)
  case (Unary op arg)
  then show ?case
    using test_op_andor [of "[chr CHR ''-'', op]"] operator_tokens(17,18) [of op] by (auto simp: posix_andor_def)
next
  case (Binary l op r)
  then show ?case using test_op_andor [of l] by (auto simp: posix_andor_def)
next
  case (Neg e)
  then show ?case using test_op_andor [of "str ''!''"] operator_tokens(13,14) by (auto simp: posix_andor_def)
next
  case (And a b)
  then show ?case
    using test_op_andor [of "str ''(''"] operator_tokens(15,16) by (auto simp: posix_andor_def wrap_def)
next
  case (Or a b)
  then show ?case
    using test_op_andor [of "str ''(''"] operator_tokens(15,16) by (auto simp: posix_andor_def wrap_def)
qed

section \<open>What the functions do on a tree\<close>

text \<open>\<open>e3\<close> on a factor, \<open>expr\<close> on a conjunction followed by more, and \<open>expr\<close> on a whole expression.\<close>

definition factor_ok :: "('s, 'n, 'v) tenv \<Rightarrow> texp \<Rightarrow> bool" where
  "factor_ok E e = (\<forall>n parens tp rest.
     left tp = wrap (level e < 2) (args e) @ rest \<longrightarrow> within tp \<longrightarrow>
     2 * length (wrap (level e < 2) (args e)) + 1 \<le> n \<longrightarrow>
     does tp (length (wrap (level e < 2) (args e))) (eval E e (shell tp)) (e3 E n parens tp))"

definition conj_ok :: "('s, 'n, 'v) tenv \<Rightarrow> texp \<Rightarrow> bool" where
  "conj_ok E e = (\<forall>n c k K parens inand tp rest.
     left tp = wrap (level e < 1) (args e) @ rest \<longrightarrow> within tp \<longrightarrow> stops True True rest \<longrightarrow>
     2 * length (wrap (level e < 1) (args e)) + c + 1 \<le> n \<longrightarrow> 1 \<le> c \<longrightarrow>
     (\<forall>r m tp. left tp = rest \<longrightarrow> within tp \<longrightarrow> c \<le> m \<longrightarrow> does tp k (K r (shell tp)) (test_expr_loop E m parens inand r tp)) \<longrightarrow>
     does tp (length (wrap (level e < 1) (args e)) + k) (seq (eval E e) K (shell tp)) (test_expr E n parens inand tp))"

definition whole_ok :: "('s, 'n, 'v) tenv \<Rightarrow> texp \<Rightarrow> bool" where
  "whole_ok E e = (\<forall>n parens tp rest.
     left tp = args e @ rest \<longrightarrow> within tp \<longrightarrow> stops parens False rest \<longrightarrow>
     2 * length (args e) + 2 \<le> n \<longrightarrow>
     does tp (length (args e)) (eval E e (shell tp)) (test_expr E n parens False tp))"

lemma whole_of_conj:
  assumes "conj_ok E e" "level e \<noteq> 0"
  shows "whole_ok E e"
  unfolding whole_ok_def
proof (intro allI impI)
  fix n parens rest and tp :: "'a tst"
  assume a: "left tp = args e @ rest" "within tp" "stops parens False rest" "2 * length (args e) + 2 \<le> n"
  have w: "wrap (level e < 1) (args e) = args e" using assms(2) by (simp add: wrap_def)
  have loop: "does tp 0 (ret r (shell tp)) (test_expr_loop E m parens False r tp)"
    if l: "left tp = rest" "within tp" "1 \<le> m" for r m and tp :: "'a tst"
  proof -
    obtain m' where "m = Suc m'" using l(3) by (cases m) auto
    then show ?thesis by (simp add: loop_stops [OF l(1,2) a(3)] does_def)
  qed
  have "stops True True rest" using a(3) by (auto simp: stops_def)
  then have "does tp (length (args e) + 0) (seq (eval E e) ret (shell tp)) (test_expr E n parens False tp)"
    using assms(1) [unfolded conj_ok_def, rule_format, of tp rest 1 n 0 ret parens False] a loop w by simp
  moreover have "seq (eval E e) ret = eval E e"
    by (rule ext) (simp add: seq_def ret_def split: prod.splits sum.splits)
  ultimately show "does tp (length (args e)) (eval E e (shell tp)) (test_expr E n parens False tp)" by simp
qed

lemma e3_operand:
  assumes "left tp = t # ts" "within tp" "t \<noteq> str ''!''" "t \<noteq> str ''(''"
  shows "e3 E (Suc n) parens tp = e3_primary E parens t (tp\<lparr>ap := Suc (ap tp)\<rparr>)"
  by (simp add: e3.simps(2) seq_def left_argument [OF assms(1,2)] is_not_def is_open_def assms(3,4))

lemma unop_terminal: "test_unop E (chr CHR ''t'') arg = tty_arg E arg"
  by (simp add: test_unop_def chr_def)

lemma factor_okD:
  "factor_ok E e \<Longrightarrow> left tp = wrap (level e < 2) (args e) @ rest \<Longrightarrow> within tp \<Longrightarrow>
    2 * length (wrap (level e < 2) (args e)) + 1 \<le> n \<Longrightarrow>
    does tp (length (wrap (level e < 2) (args e))) (eval E e (shell tp)) (e3 E n parens tp)"
  unfolding factor_ok_def by blast

lemma factor_Unary:
  assumes "plain E (Unary op arg)"
  shows "factor_ok E (Unary op arg)"
  unfolding factor_ok_def
proof (intro allI impI)
  fix n parens rest and tp :: "'a tst"
  assume a: "left tp = wrap (level (Unary op arg) < 2) (args (Unary op arg)) @ rest" "within tp"
    "2 * length (wrap (level (Unary op arg) < 2) (args (Unary op arg))) + 1 \<le> n"
  let ?p = "[chr CHR ''-'', op]" and ?tp1 = "tp\<lparr>ap := Suc (ap tp)\<rparr>" and ?tp2 = "tp\<lparr>ap := Suc (Suc (ap tp))\<rparr>"
  have l: "left tp = ?p # arg # rest" using a(1) by (simp add: wrap_def)
  have nxt: "nxtarg True ?tp1 = (Inr (Some arg), ?tp2)" using left_nxtarg [OF left_Cons(3) [OF l a(2)]] a(2) by simp
  have "?p = str ''-t'' \<Longrightarrow> tty_arg E arg = test_unop E op arg"
    using unop_terminal [of E] by (simp add: str_def)
  then have "e3_primary E parens ?p ?tp1 = on_shell (test_unop E op arg) ?tp2"
    using assms by (auto simp: e3_primary_def seq_def nxt in_opchars_def)
  moreover obtain m where "n = Suc m" using a(3) by (cases n) auto
  moreover have "does tp 2 (test_unop E op arg (shell tp)) (on_shell (test_unop E op arg) ?tp2)"
    using does_on_shell [where f = "test_unop E op arg" and tp = ?tp2] by (auto simp: does_def)
  ultimately show "does tp (length (wrap (level (Unary op arg) < 2) (args (Unary op arg))))
      (eval E (Unary op arg) (shell tp)) (e3 E n parens tp)"
    by (simp add: wrap_def numeral_2_eq_2 e3_operand [OF l a(2) operator_tokens(10,11)])
qed

lemma factor_Binary:
  assumes "plain E (Binary l op r)"
  shows "factor_ok E (Binary l op r)"
  unfolding factor_ok_def
proof (intro allI impI)
  fix n parens rest and tp :: "'a tst"
  assume a: "left tp = wrap (level (Binary l op r) < 2) (args (Binary l op r)) @ rest" "within tp"
    "2 * length (wrap (level (Binary l op r) < 2) (args (Binary l op r))) + 1 \<le> n"
  let ?tp1 = "tp\<lparr>ap := Suc (ap tp)\<rparr>" and ?tp2 = "tp\<lparr>ap := Suc (Suc (ap tp))\<rparr>"
    and ?tp3 = "tp\<lparr>ap := Suc (Suc (Suc (ap tp)))\<rparr>"
  have l: "left tp = l # op # r # rest" using a(1) by (simp add: wrap_def)
  have l1: "left ?tp1 = op # r # rest" by (rule left_Cons(3) [OF l a(2)])
  have l2: "left ?tp2 = r # rest" using left_Cons(3) [OF l1] a(2) by simp
  have nxt: "nxtarg True ?tp1 = (Inr (Some op), ?tp2)" using left_nxtarg [OF l1] a(2) by simp
  have arg: "argument ?tp2 = (Inr r, ?tp3)" using left_argument [OF l2] a(2) by simp
  have t: "l \<noteq> str ''-t''" using assms by (auto simp: dash2_def at2_def at1_def str_def in_opchars_def test_opchars_def)
  have "e3_primary E parens l ?tp1 = on_shell (test_binop E (test_op op) l r) ?tp3"
    using assms t by (auto simp: e3_primary_def e3_skip_def Let_def seq_def nxt arg)
  moreover obtain m where "n = Suc m" using a(3) by (cases n) auto
  moreover have "does tp 3 (test_binop E (test_op op) l r (shell tp)) (on_shell (test_binop E (test_op op) l r) ?tp3)"
    using does_on_shell [where f = "test_binop E (test_op op) l r" and tp = ?tp3] by (auto simp: does_def eval_nat_numeral)
  ultimately show "does tp (length (wrap (level (Binary l op r) < 2) (args (Binary l op r))))
      (eval E (Binary l op r) (shell tp)) (e3 E n parens tp)"
    using assms by (simp add: wrap_def eval_nat_numeral e3_operand [OF l a(2)])
qed

lemma args_length: "2 \<le> length (args e)"
  by (induction e) (simp_all add: wrap_def)

lemma factor_Neg:
  assumes "factor_ok E e" "plain E e"
  shows "factor_ok E (Neg e)"
  unfolding factor_ok_def
proof (intro allI impI)
  fix n parens rest and tp :: "'a tst"
  assume a: "left tp = wrap (level (Neg e) < 2) (args (Neg e)) @ rest" "within tp"
    "2 * length (wrap (level (Neg e) < 2) (args (Neg e))) + 1 \<le> n"
  let ?ts = "wrap (level e < 2) (args e)" and ?tp1 = "tp\<lparr>ap := Suc (ap tp)\<rparr>"
  have l: "left tp = str ''!'' # ?ts @ rest" using a(1) by (simp add: wrap_def)
  have l1: "left ?tp1 = ?ts @ rest" by (rule left_Cons(3) [OF l a(2)])
  obtain m where n: "n = Suc m" using a(3) by (cases n) auto
  obtain t u us where ts: "?ts @ rest = t # u # us" and t: "t = hd ?ts"
    using args_length [of e] by (cases "?ts"; cases "tl ?ts") (auto simp: wrap_def split: if_splits)
  have l1': "left ?tp1 = t # u # us" using l1 ts by simp
  have v: "ap ?tp1 < ac ?tp1" "av ?tp1 ! ap ?tp1 = t" using left_Cons(1,2) [OF l1'] a(2) by simp_all
  have "ap (?tp1\<lparr>ap := Suc (ap ?tp1)\<rparr>) < ac (?tp1\<lparr>ap := Suc (ap ?tp1)\<rparr>)"
    by (rule left_Cons(1) [OF left_Cons(3) [OF l1']]) (use a(2) in simp_all)
  then have two: "ap ?tp1 \<noteq> ac ?tp1 - 1" by simp
  have "\<not> posix_andor E (Some t)"
    using t args_first [of e E] assms(2) test_op_andor [of "str ''(''"] operator_tokens(15,16)
    by (auto simp: wrap_hd posix_andor_def)
  then have neg: "is_not E parens (str ''!'') ?tp1 = (Inr True, ?tp1)"
    using v two a(2) by (simp add: is_not_def seq_def av_at_def within_def)
  have "does ?tp1 (length ?ts) (eval E e (shell ?tp1)) (e3 E m parens ?tp1)"
    by (rule factor_okD [OF assms(1) l1]) (use a(2,3) n in \<open>simp_all add: wrap_def\<close>)
  then have "does ?tp1 (length ?ts + 0) (seq (eval E e) (\<lambda>r. ret (cbool (r = 0))) (shell ?tp1))
      (seq (e3 E m parens) (\<lambda>r. ret (cbool (r = 0))) ?tp1)"
    by (rule does_seq) (rule does_weak [OF does_ret], simp_all)
  then have "does tp (Suc (length ?ts)) (eval E (Neg e) (shell tp)) (seq (e3 E m parens) (\<lambda>r. ret (cbool (r = 0))) ?tp1)"
    using does_shift [where tp = tp and k = 1 and s = "shell tp" and j = "length ?ts"] by simp
  then show "does tp (length (wrap (level (Neg e) < 2) (args (Neg e)))) (eval E (Neg e) (shell tp)) (e3 E n parens tp)"
    using n by (simp add: wrap_def e3.simps(2) seq_def left_argument [OF l a(2)] neg)
qed

lemma whole_okD:
  "whole_ok E e \<Longrightarrow> left tp = args e @ rest \<Longrightarrow> within tp \<Longrightarrow> stops parens False rest \<Longrightarrow>
    2 * length (args e) + 2 \<le> n \<Longrightarrow> does tp (length (args e)) (eval E e (shell tp)) (test_expr E n parens False tp)"
  unfolding whole_ok_def by blast

lemma factor_of_whole:
  assumes "whole_ok E e" "plain E e" "level e < 2"
  shows "factor_ok E e"
  unfolding factor_ok_def
proof (intro allI impI)
  fix n parens rest and tp :: "'a tst"
  assume a: "left tp = wrap (level e < 2) (args e) @ rest" "within tp" "2 * length (wrap (level e < 2) (args e)) + 1 \<le> n"
  let ?tp1 = "tp\<lparr>ap := Suc (ap tp)\<rparr>" and ?L = "length (args e)"
  have l: "left tp = str ''('' # args e @ str '')'' # rest" using a(1) assms(3) by (simp add: wrap_def)
  have l1: "left ?tp1 = args e @ str '')'' # rest" by (rule left_Cons(3) [OF l a(2)])
  obtain m where n: "n = Suc m" using a(3) by (cases n) auto
  obtain t ts where ts: "args e = t # ts" "\<not> posix_andor E (Some t)"
    using args_first [of e E] assms(2) by (cases "args e") auto
  have "ap ?tp1 < ac ?tp1" "av ?tp1 ! ap ?tp1 = t"
    using left_Cons(1,2) [of ?tp1 t "ts @ str '')'' # rest"] l1 ts(1) a(2) by simp_all
  then have opn: "is_open E (str ''('') ?tp1 = (Inr True, ?tp1)"
    using ts(2) a(2) by (simp add: is_open_def seq_def av_at_def within_def)
  have neg: "is_not E parens (str ''('') ?tp1 = (Inr False, ?tp1)" using operator_tokens(12) by (simp add: is_not_def)
  have close: "does tp2 1 (ret x (shell tp2)) (seq argument (\<lambda>cp. if cp = str '')'' then ret x else fail (Missing (str '')''))) tp2)"
    if "left tp2 = str '')'' # rest" "within tp2" for x :: int and tp2 :: "'a tst"
    by (simp add: left_argument [OF that] does_def)
  have "does ?tp1 ?L (eval E e (shell ?tp1)) (test_expr E m True False ?tp1)"
    by (rule whole_okD [OF assms(1) l1]) (use a(2,3) n assms(3) in \<open>simp_all add: stops_def wrap_def\<close>)
  then have "does ?tp1 (?L + 1) (seq (eval E e) ret (shell ?tp1))
      (seq (test_expr E m True False) (\<lambda>op. seq argument (\<lambda>cp. if cp = str '')'' then ret op else fail (Missing (str '')'')))) ?tp1)"
  proof (rule does_seq)
    fix x :: int and s
    let ?tp2 = "?tp1\<lparr>ap := ap ?tp1 + ?L, shell := s\<rparr>"
    have "left (?tp1\<lparr>ap := ap ?tp1 + ?L\<rparr>) = str '')'' # rest" by (rule left_drop [OF l1])
    then have "left ?tp2 = str '')'' # rest" by (simp add: left_def)
    then show "does ?tp2 1 (ret x s)
        (seq argument (\<lambda>cp. if cp = str '')'' then ret x else fail (Missing (str '')''))) ?tp2)"
      using close [of ?tp2 x] a(2) by simp
  qed
  moreover have "seq (eval E e) ret = eval E e"
    by (rule ext) (simp add: seq_def ret_def split: prod.splits sum.splits)
  ultimately have "does tp (Suc (?L + 1)) (eval E e (shell tp))
      (seq (test_expr E m True False) (\<lambda>op. seq argument (\<lambda>cp. if cp = str '')'' then ret op else fail (Missing (str '')'')))) ?tp1)"
    using does_shift [where tp = tp and k = 1 and s = "shell tp" and j = "?L + 1"] by simp
  then show "does tp (length (wrap (level e < 2) (args e))) (eval E e (shell tp)) (e3 E n parens tp)"
    using n assms(3) by (simp add: wrap_def e3.simps(2) seq_def left_argument [OF l a(2)] neg opn)
qed

lemma conj_okD:
  "conj_ok E e \<Longrightarrow> left tp = wrap (level e < 1) (args e) @ rest \<Longrightarrow> within tp \<Longrightarrow> stops True True rest \<Longrightarrow>
     2 * length (wrap (level e < 1) (args e)) + c + 1 \<le> n \<Longrightarrow> 1 \<le> c \<Longrightarrow>
     (\<And>r m tp. left tp = rest \<Longrightarrow> within tp \<Longrightarrow> c \<le> m \<Longrightarrow> does tp k (K r (shell tp)) (test_expr_loop E m parens inand r tp)) \<Longrightarrow>
     does tp (length (wrap (level e < 1) (args e)) + k) (seq (eval E e) K (shell tp)) (test_expr E n parens inand tp)"
  unfolding conj_ok_def by blast

text \<open>A factor and then the loop.\<close>

lemma factor_then:
  assumes "factor_ok E e" "left tp = wrap (level e < 2) (args e) @ rest" "within tp"
    and "2 * length (wrap (level e < 2) (args e)) + 1 \<le> n"
    and "\<And>r tp. left tp = rest \<Longrightarrow> within tp \<Longrightarrow> does tp k (K r (shell tp)) (test_expr_loop E n parens inand r tp)"
  shows "does tp (length (wrap (level e < 2) (args e)) + k) (seq (eval E e) K (shell tp)) (test_expr E (Suc n) parens inand tp)"
  unfolding test_expr.simps(2)
proof (rule does_seq)
  let ?L = "length (wrap (level e < 2) (args e))"
  show "does tp ?L (eval E e (shell tp)) (e3 E n parens tp)" by (rule factor_okD [OF assms(1-4)])
  fix x s
  let ?tp = "tp\<lparr>ap := ap tp + ?L, shell := s\<rparr>"
  have "left (tp\<lparr>ap := ap tp + ?L\<rparr>) = rest" by (rule left_drop [OF assms(2)])
  then have "left ?tp = rest" by (simp add: left_def)
  then show "does ?tp k (K x s) (test_expr_loop E n parens inand x ?tp)" using assms(5) [of ?tp x] assms(3) by simp
qed

lemma conj_of_factor:
  assumes "factor_ok E e" "level e \<noteq> 1"
  shows "conj_ok E e"
  unfolding conj_ok_def
proof (intro allI impI)
  fix n c k K parens inand rest and tp :: "'a tst"
  assume a: "left tp = wrap (level e < 1) (args e) @ rest" "within tp" "stops True True rest"
    "2 * length (wrap (level e < 1) (args e)) + c + 1 \<le> n" "1 \<le> c"
    "\<forall>r m tp. left tp = rest \<longrightarrow> within tp \<longrightarrow> c \<le> m \<longrightarrow> does tp k (K r (shell tp)) (test_expr_loop E m parens inand r tp)"
  have w: "(level e < 1) = (level e < 2)" using assms(2) by auto
  obtain m where n: "n = Suc m" using a(4) by (cases n) auto
  show "does tp (length (wrap (level e < 1) (args e)) + k) (seq (eval E e) K (shell tp)) (test_expr E n parens inand tp)"
    unfolding w n
  proof (rule factor_then [OF assms(1)])
    show "left tp = wrap (level e < 2) (args e) @ rest" using a(1) w by simp
    show "within tp" by (rule a(2))
    show "2 * length (wrap (level e < 2) (args e)) + 1 \<le> m" using a(4,5) n w by simp
    show "does tp k (K r (shell tp)) (test_expr_loop E m parens inand r tp)" if "left tp = rest" "within tp" for r and tp :: "'a tst"
      using a(6) [rule_format, OF that, of m r] a(4) n by simp
  qed
qed

lemma loop_operator:
  assumes "left tp = t # ts" "within tp" "t = str ''-a'' \<or> t = str ''-o'' \<and> \<not> inand"
  shows "test_expr_loop E (Suc n) parens inand r tp =
    (if t = str ''-o'' then seq (test_expr E n parens False) (\<lambda>x. test_expr_loop E n parens inand (r OR x)) (tp\<lparr>ap := Suc (ap tp)\<rparr>)
     else seq (test_expr E n parens True) (\<lambda>x. test_expr_loop E n parens inand (r AND x)) (tp\<lparr>ap := Suc (ap tp)\<rparr>))"
proof -
  have "ap tp < ac tp" by (rule left_Cons(1) [OF assms(1,2)])
  moreover have "str ''-a'' \<noteq> str ''-o''" using operator_tokens(17) by (simp add: str_def) (simp add: chr_def)
  ultimately show ?thesis
    using assms(3) operator_tokens
    by (cases inand) (auto simp: test_expr_loop.simps(2) seq_def left_argument [OF assms(1,2)])
qed

lemma seq_eval_ret: "seq (eval E e) ret = eval E e"
  by (rule ext) (simp add: seq_def ret_def split: prod.splits sum.splits)

lemma conj_And:
  assumes "factor_ok E a" "conj_ok E b"
  shows "conj_ok E (And a b)"
  unfolding conj_ok_def
proof (intro allI impI)
  fix n c k K parens inand rest and tp :: "'a tst"
  let ?A = "wrap (level a < 2) (args a)" and ?B = "wrap (level b < 1) (args b)"
  let ?rest = "str ''-a'' # ?B @ rest"
  assume h: "left tp = wrap (level (And a b) < 1) (args (And a b)) @ rest" "within tp" "stops True True rest"
    "2 * length (wrap (level (And a b) < 1) (args (And a b))) + c + 1 \<le> n" "1 \<le> c"
    "\<forall>r m tp. left tp = rest \<longrightarrow> within tp \<longrightarrow> c \<le> m \<longrightarrow> does tp k (K r (shell tp)) (test_expr_loop E m parens inand r tp)"
  have l: "left tp = ?A @ ?rest" using h(1) by (simp add: wrap_def)
  obtain m where n: "n = Suc (Suc m)" using h(4) by (cases n; cases "n - 1") (auto simp: wrap_def)
  have loop: "does tp (Suc (length ?B + k)) (seq (eval E b) (\<lambda>y. K (x AND y)) (shell tp)) (test_expr_loop E (Suc m) parens inand x tp)"
    if g: "left tp = ?rest" "within tp" for x and tp :: "'a tst"
  proof -
    let ?tp = "tp\<lparr>ap := Suc (ap tp)\<rparr>"
    have l1: "left ?tp = ?B @ rest" by (rule left_Cons(3) [OF g])
    have "does ?tp (length ?B + 0) (seq (eval E b) ret (shell ?tp)) (test_expr E m parens True ?tp)"
    proof (rule conj_okD [OF assms(2) l1])
      fix r and m' :: nat and tp :: "'a tst" assume t: "left tp = rest" "within tp" "1 \<le> m'"
      then obtain m2 where "m' = Suc m2" by (cases m') auto
      moreover have "stops parens True rest" using h(3) by (auto simp: stops_def)
      ultimately show "does tp 0 (ret r (shell tp)) (test_expr_loop E m' parens True r tp)"
        using t by (simp add: loop_stops does_def)
    qed (use g h(3,4,5) n in \<open>auto simp: wrap_def\<close>)
    then have "does ?tp (length ?B + k) (seq (eval E b) (\<lambda>y. K (x AND y)) (shell ?tp))
        (seq (test_expr E m parens True) (\<lambda>y. test_expr_loop E m parens inand (x AND y)) ?tp)"
      unfolding seq_eval_ret add_0_right
    proof (rule does_seq)
      fix y s
      let ?tp2 = "?tp\<lparr>ap := ap ?tp + length ?B, shell := s\<rparr>"
      have "left (?tp\<lparr>ap := ap ?tp + length ?B\<rparr>) = rest" by (rule left_drop [OF l1])
      then have "left ?tp2 = rest" by (simp add: left_def)
      then show "does ?tp2 k (K (x AND y) s) (test_expr_loop E m parens inand (x AND y) ?tp2)"
        using h(6) [rule_format, of ?tp2 m "x AND y"] g(2) h(4) n by (simp add: wrap_def)
    qed
    then show ?thesis
      using does_shift [where tp = tp and k = 1 and s = "shell tp" and j = "length ?B + k"] operator_tokens(5)
      by (simp add: loop_operator [OF g]) (simp add: str_def)
  qed
  have "does tp (length ?A + Suc (length ?B + k)) (seq (eval E a) (\<lambda>x. seq (eval E b) (\<lambda>y. K (x AND y))) (shell tp))
      (test_expr E (Suc (Suc m)) parens inand tp)"
    by (rule factor_then [OF assms(1) l]) (use h n loop in \<open>simp_all add: wrap_def\<close>)
  moreover have "seq (eval E a) (\<lambda>x. seq (eval E b) (\<lambda>y. K (x AND y))) = seq (eval E (And a b)) K"
    by (simp add: seq_assoc)
  ultimately show "does tp (length (wrap (level (And a b) < 1) (args (And a b))) + k) (seq (eval E (And a b)) K (shell tp))
      (test_expr E n parens inand tp)"
    using n by (simp add: wrap_def ac_simps)
qed

lemma whole_Or:
  assumes "conj_ok E a" "whole_ok E b"
  shows "whole_ok E (Or a b)"
  unfolding whole_ok_def
proof (intro allI impI)
  fix n parens rest and tp :: "'a tst"
  let ?A = "wrap (level a < 1) (args a)" and ?B = "args b"
  let ?rest = "str ''-o'' # ?B @ rest"
  assume h: "left tp = args (Or a b) @ rest" "within tp" "stops parens False rest" "2 * length (args (Or a b)) + 2 \<le> n"
  have l: "left tp = ?A @ ?rest" using h(1) by simp
  have loop: "does tp (Suc (length ?B)) (seq (eval E b) (\<lambda>y. ret (x OR y)) (shell tp)) (test_expr_loop E m parens False x tp)"
    if g: "left tp = ?rest" "within tp" "2 * length ?B + 3 \<le> m" for x m and tp :: "'a tst"
  proof -
    let ?tp = "tp\<lparr>ap := Suc (ap tp)\<rparr>"
    obtain j where m: "m = Suc (Suc j)" using g(3) by (cases m; cases "m - 1") auto
    have l1: "left ?tp = ?B @ rest" by (rule left_Cons(3) [OF g(1,2)])
    have "does ?tp (length ?B) (eval E b (shell ?tp)) (test_expr E (Suc j) parens False ?tp)"
      by (rule whole_okD [OF assms(2) l1]) (use g h(3) m in simp_all)
    then have "does ?tp (length ?B + 0) (seq (eval E b) (\<lambda>y. ret (x OR y)) (shell ?tp))
        (seq (test_expr E (Suc j) parens False) (\<lambda>y. test_expr_loop E (Suc j) parens False (x OR y)) ?tp)"
    proof (rule does_seq)
      fix y s
      let ?tp2 = "?tp\<lparr>ap := ap ?tp + length ?B, shell := s\<rparr>"
      have "left (?tp\<lparr>ap := ap ?tp + length ?B\<rparr>) = rest" by (rule left_drop [OF l1])
      then have "left ?tp2 = rest" by (simp add: left_def)
      then show "does ?tp2 0 (ret (x OR y) s) (test_expr_loop E (Suc j) parens False (x OR y) ?tp2)"
        using g(2) h(3) by (simp add: loop_stops does_def)
    qed
    then show ?thesis
      using does_shift [where tp = tp and k = 1 and s = "shell tp" and j = "length ?B"] m
      by (simp add: loop_operator [OF g(1,2)])
  qed
  have "does tp (length ?A + Suc (length ?B)) (seq (eval E a) (\<lambda>x. seq (eval E b) (\<lambda>y. ret (x OR y))) (shell tp))
      (test_expr E n parens False tp)"
  proof (rule conj_okD [OF assms(1) l h(2), where c = "2 * length ?B + 3"])
    show "stops True True ?rest" by (simp add: stops_def)
  qed (use h(4) loop in simp_all)
  then show "does tp (length (args (Or a b))) (eval E (Or a b) (shell tp)) (test_expr E n parens False tp)" by simp
qed

text \<open>All trees.\<close>

lemma operator_ok: "factor_ok E e \<Longrightarrow> level e = 2 \<Longrightarrow> factor_ok E e \<and> conj_ok E e \<and> whole_ok E e"
  using conj_of_factor [of E e] whole_of_conj [of E e] by simp

lemma tree_ok: "plain E e \<Longrightarrow> factor_ok E e \<and> conj_ok E e \<and> whole_ok E e"
proof (induction e)
  case (Unary op arg)
  show ?case by (rule operator_ok [OF factor_Unary [OF Unary]]) simp
next
  case (Binary l op r)
  show ?case by (rule operator_ok [OF factor_Binary [OF Binary]]) simp
next
  case (Neg e)
  then have "factor_ok E (Neg e)" by (intro factor_Neg) simp_all
  then show ?case by (rule operator_ok) simp
next
  case (And a b)
  then have c: "conj_ok E (And a b)" by (intro conj_And) simp_all
  moreover have w: "whole_ok E (And a b)" by (rule whole_of_conj [OF c]) simp
  moreover have "factor_ok E (And a b)" by (rule factor_of_whole [OF w And.prems]) simp
  ultimately show ?case by simp
next
  case (Or a b)
  then have w: "whole_ok E (Or a b)" by (intro whole_Or) simp_all
  moreover have f: "factor_ok E (Or a b)" by (rule factor_of_whole [OF w Or.prems]) simp
  moreover have "conj_ok E (Or a b)" by (rule conj_of_factor [OF f]) simp
  ultimately show ?case by simp
qed

lemma run_expr_tree:
  assumes "plain E e"
  shows "run_expr E (name # args e) (Suc (length (args e))) s = eval E e s"
proof -
  let ?tp = "\<lparr>av = name # args e, ap = 1, ac = Suc (length (args e)), shell = s\<rparr>"
  have "does ?tp (length (args e)) (eval E e (shell ?tp)) (test_expr E (2 * Suc (length (args e)) + 2) False False ?tp)"
    by (rule whole_okD [where rest = "[]"]) (use tree_ok [OF assms] in \<open>simp_all add: left_def within_def stops_def\<close>)
  then show ?thesis by (simp add: run_expr_def does_def case_prod_beta)
qed

text \<open>
  C2. The language of \<open>test\<close>: on the arguments of a tree with more than five of them the command
  evaluates the operands from left to right, all of them, combines their values with the bitwise
  \<open>AND\<close> for \<open>-a\<close>, which binds tighter, and the bitwise \<open>OR\<close> for \<open>-o\<close>, and returns 0 exactly when the
  combined value is not 0; its errors are those of the operands.
\<close>

theorem b_test_tree:
  assumes "plain E e" "5 < length (args e)" "name \<noteq> str ''[''"
  shows "b_test E (name # args e) s = seq (eval E e) (\<lambda>r. ret (cbool (r = 0))) s"
proof -
  have "b_test E (name # args e) s = whole_expr E (name # args e) (Suc (length (args e))) s"
    using assms(2,3) by (auto simp: b_test_def by_count_def)
  then show ?thesis using run_expr_tree [OF assms(1)] by (simp add: whole_expr_def seq_def)
qed

end
