(* ===== verification/TestRules.thy ===== *)
theory TestRules
  imports TestGrammar
begin

text \<open>
  The rules of POSIX for \<open>test\<close> with up to four arguments, and what \<open>sh_access\<close> does with the ids of
  the process.
\<close>

section \<open>Rules by the number of arguments\<close>

text \<open>The truth value of an operator, and the exit status of a truth value.\<close>

definition truth :: "('s, int) act \<Rightarrow> ('s, bool) act" where
  "truth f = seq f (\<lambda>r. ret (r \<noteq> 0))"

definition status :: "('s, bool) act \<Rightarrow> ('s, int) act" where
  "status f = seq f (\<lambda>b. ret (cbool (\<not> b)))"

definition negate :: "('s, bool) act \<Rightarrow> ('s, bool) act" where
  "negate f = seq f (\<lambda>b. ret (\<not> b))"

definition unary :: "('s, 'n, 'v) tenv \<Rightarrow> byte list \<Rightarrow> bool" where
  "unary E p = (length p = 2 \<and> hd p = chr CHR ''-'' \<and> p ! 1 \<in> set (test_opchars (shopt_test_l E)))"

definition binary :: "byte list \<Rightarrow> bool" where
  "binary p = (test_op p \<noteq> 0 \<and> test_op p AND TEST_ANDOR = 0)"

text \<open>
  The rules; \<open>None\<close> is what POSIX leaves open or treats otherwise.  \<open>-a\<close> and \<open>-o\<close> between two strings
  are operators of three arguments in POSIX mode only.
\<close>

definition rule2 :: "('s, 'n, 'v) tenv \<Rightarrow> byte list \<Rightarrow> byte list \<Rightarrow> ('s, bool) act option" where
  "rule2 E a b =
    (if a = str ''!'' then Some (ret (b = []))
     else if unary E a then Some (truth (test_unop E (a ! 1) b))
     else None)"




text \<open>The vector of a call of \<open>test\<close> or of \<open>[\<close> with its closing bracket.\<close>

definition command :: "bool \<Rightarrow> byte list list \<Rightarrow> byte list list" where
  "command bracket as = (if bracket then str ''['' # as @ [str '']''] else str ''test'' # as)"

lemma b_test_command:
  "b_test E (command bracket as) =
    (if as = [] then ret 1
     else if hd as = str ''('' \<and> length as \<le> 5 \<and> last as = str '')'' \<and> \<not> (length as = 3 \<and> test_op (as ! 1) \<noteq> 0)
     then by_count E (tl (command bracket as)) (length as - 1)
     else by_count E (command bracket as) (Suc (length as)))"
proof -
  have t: "str ''test'' \<noteq> str ''[''" by (simp add: str_def)
  obtain nm ys where c: "command bracket as = nm # as @ ys" "bracket \<longleftrightarrow> nm = str ''[''"
    "ys = (if bracket then [str '']''] else [])"
    using t that [of "if bracket then str ''['' else str ''test''" "if bracket then [str '']''] else []"]
    by (cases bracket) (simp_all add: command_def)
  let ?v = "nm # as @ ys"
  have argc: "(if nm = str ''['' then length ?v - 1 else length ?v) = Suc (length as)" using c by simp
  have close: "\<not> (nm = str ''['' \<and> ?v ! Suc (length as) \<noteq> str '']'')" using c by (simp add: nth_append)
  show ?thesis
  proof (cases "as = []")
    case True
    then show ?thesis using t by (cases bracket) (simp_all add: b_test_def command_def Let_def)
  next
    case False
    have "?v ! 1 = hd as" "?v ! (Suc (length as) - 1) = last as"
      using False by (simp_all add: nth_append hd_conv_nth last_conv_nth nth_Cons')
    moreover have "length as = 3 \<Longrightarrow> ?v ! 2 = as ! 1" by (simp add: nth_append)
    moreover have "Suc (length as) = 4 \<longleftrightarrow> length as = 3" "Suc (length as) \<le> 6 \<longleftrightarrow> length as \<le> 5"
      "\<not> Suc (length as) \<le> 1 \<longleftrightarrow> as \<noteq> []" "Suc (length as) - 2 = length as - 1" "?v ! 0 = nm"
      by auto
    ultimately show ?thesis
      unfolding b_test_def c(1) Let_def using argc close False by (simp only: if_False if_True simp_thms) metis
  qed
qed

lemma unary_tokens:
  assumes "unary E a"
  shows "dash2 E a" "at1 a = a ! 1" "at1 a \<noteq> chr CHR ''?''" "a \<noteq> str ''!''" "a \<noteq> str ''(''" "a \<noteq> []"
proof -
  obtain x where a: "a = [chr CHR ''-'', x]" using assms by (auto simp: unary_def length_Suc_conv numeral_2_eq_2)
  have x: "x \<in> set (test_opchars (shopt_test_l E))" using assms a by (simp add: unary_def)
  show "dash2 E a" "at1 a = a ! 1" "a \<noteq> []" using a by simp_all
  show "a \<noteq> str ''!''" "a \<noteq> str ''(''" using a operator_tokens(10,11) by auto
  have "chr CHR ''?'' \<notin> set (test_opchars (shopt_test_l E))" by (simp add: test_opchars_def str_def chr_def)
  then show "at1 a \<noteq> chr CHR ''?''" using a x by auto
qed

lemma status_ret: "status (ret b) = ret (cbool (\<not> b))" "status (negate f) = seq f (\<lambda>b. ret (cbool b))"
  "status (truth g) = seq g (\<lambda>r. ret (cbool (r = 0)))" "negate (ret b) = ret (\<not> b)"
  "seq (truth g) (\<lambda>b. ret (cbool b)) = seq g (\<lambda>r. ret (cbool (r \<noteq> 0)))"
  by (simp_all add: status_def negate_def truth_def seq_assoc del: act_simps(1))


lemma binary_not_andor: "binary p \<Longrightarrow> p \<noteq> str ''-a'' \<and> p \<noteq> str ''-o''"
  using test_op_andor [of p] by (auto simp: binary_def)

lemma rule2_count:
  assumes "rule2 E a b = Some f"
  shows "by_count E (nm # a # b # ys) 3 = status f"
proof (cases "a = str ''!''")
  case True
  then show ?thesis using assms by (auto simp: rule2_def by_count_def case3_def Let_def status_ret)
next
  case False
  then have u: "unary E a" "f = truth (test_unop E (a ! 1) b)" using assms by (auto simp: rule2_def split: if_splits)
  show ?thesis
    using unary_tokens(1-4) [OF u(1)] u(2) by (simp add: by_count_def case3_def Let_def status_ret)
qed



section \<open>Access with the effective ids\<close>

text \<open>
  The real and effective group and user of the process, and what \<open>setregid\<close> and \<open>setreuid\<close> do: a call
  that returns 0 sets the ids, one that fails changes nothing, and exchanging the real and the
  effective id never fails.
\<close>

definition sets_ids :: "('s, 'n, 'v) tenv \<Rightarrow> ('s \<Rightarrow> nat \<times> nat) \<Rightarrow> ('s \<Rightarrow> nat \<times> nat) \<Rightarrow> bool" where
  "sets_ids E gids uids = (\<forall>r e s.
     (let (x, s') = os_setregid E r e s in
        (if x = 0 then gids s' = (r, e) \<and> uids s' = uids s else s' = s) \<and> (gids s = (e, r) \<longrightarrow> x = 0)) \<and>
     (let (x, s') = os_setreuid E r e s in
        (if x = 0 then uids s' = (r, e) \<and> gids s' = gids s else s' = s) \<and> (uids s = (e, r) \<longrightarrow> x = 0)))"

lemma sets_idsD:
  assumes "sets_ids E gids uids"
  shows "os_setregid E r e s = (x, s') \<Longrightarrow> x = 0 \<Longrightarrow> gids s' = (r, e) \<and> uids s' = uids s"
    and "os_setregid E r e s = (x, s') \<Longrightarrow> x \<noteq> 0 \<Longrightarrow> s' = s"
    and "os_setregid E r e s = (x, s') \<Longrightarrow> gids s = (e, r) \<Longrightarrow> x = 0"
    and "os_setreuid E r e s = (y, t') \<Longrightarrow> y = 0 \<Longrightarrow> uids t' = (r, e) \<and> gids t' = gids s"
    and "os_setreuid E r e s = (y, t') \<Longrightarrow> y \<noteq> 0 \<Longrightarrow> t' = s"
    and "os_setreuid E r e s = (y, t') \<Longrightarrow> uids s = (e, r) \<Longrightarrow> y = 0"
  using assms [unfolded sets_ids_def, rule_format, of r e s] by (auto simp: Let_def split: if_splits)

text \<open>Putting an id back.\<close>

lemma put_back:
  assumes "sets_ids E gids uids"
  shows "gids s = (e, r) \<or> gids s = (r, e) \<Longrightarrow> gids (snd (os_setregid E r e s)) = (r, e) \<and> uids (snd (os_setregid E r e s)) = uids s"
    and "uids s = (e, r) \<Longrightarrow> uids (snd (os_setreuid E r e s)) = (r, e) \<and> gids (snd (os_setreuid E r e s)) = gids s"
proof -
  obtain x s' where x: "os_setregid E r e s = (x, s')" by force
  obtain y t' where y: "os_setreuid E r e s = (y, t')" by force
  show "gids s = (e, r) \<or> gids s = (r, e) \<Longrightarrow> gids (snd (os_setregid E r e s)) = (r, e) \<and> uids (snd (os_setregid E r e s)) = uids s"
    using sets_idsD(1-3) [OF assms x] x by (cases "x = 0") auto
  show "uids s = (e, r) \<Longrightarrow> uids (snd (os_setreuid E r e s)) = (r, e) \<and> gids (snd (os_setreuid E r e s)) = gids s"
    using sets_idsD(4,6) [OF assms y] y by auto
qed

definition asks_access :: "('s, 'n, 'v) tenv \<Rightarrow> byte list \<Rightarrow> nat \<Rightarrow> bool" where
  "asks_access E name mode =
    (name \<noteq> [] \<and> (posix E \<or> \<not> sh_isdevfd name) \<and> \<not> (mode = X_OK \<and> euserid E = 0) \<and>
     (userid E \<noteq> euserid E \<or> groupid E \<noteq> egroupid E))"

lemma sh_access_swaps:
  assumes "sets_ids E gids uids" "gids s = (groupid E, egroupid E)" "uids s = (userid E, euserid E)"
    and "asks_access E name mode"
  obtains s1 s2 where "sh_access E name mode s = (os_access E name mode s1, s2)"
    "gids s1 = (if groupid E = euserid E then (groupid E, egroupid E) else (egroupid E, groupid E))"
    "uids s1 = (euserid E, userid E)" "gids s2 = gids s" "uids s2 = uids s"
proof -
  obtain g sg where g: "(if groupid E = euserid E then (0, s) else os_setregid E (egroupid E) (groupid E) s) = (g, sg)" by force
  have sg: "g = 0" "uids sg = uids s"
    "gids sg = (if groupid E = euserid E then (groupid E, egroupid E) else (egroupid E, groupid E))"
    using g sets_idsD(1,3) [OF assms(1), of "egroupid E" "groupid E" s g sg] assms(2) by (auto split: if_splits)
  obtain u su where u: "(if userid E = euserid E then (0, sg) else os_setreuid E (euserid E) (userid E) sg) = (u, su)" by force
  have su: "u = 0" "gids su = gids sg" "uids su = (euserid E, userid E)"
    using u sets_idsD(4,6) [OF assms(1), of "euserid E" "userid E" sg u su] assms(3) sg(2) by (auto split: if_splits)
  define s3 where "s3 = (if userid E \<noteq> euserid E then snd (os_setreuid E (userid E) (euserid E) su) else su)"
  have s3: "uids s3 = (userid E, euserid E)" "gids s3 = gids su"
    using put_back(2) [OF assms(1), of su "euserid E" "userid E"] su(3) by (auto simp: s3_def)
  define s4 where "s4 = (if groupid E \<noteq> egroupid E then snd (os_setregid E (groupid E) (egroupid E) s3) else s3)"
  have s4: "gids s4 = (groupid E, egroupid E)" "uids s4 = uids s3"
    using put_back(1) [OF assms(1), of s3 "egroupid E" "groupid E"] s3(2) su(2) sg(3)
    by (auto simp: s4_def split: if_splits)
  have "sh_access E name mode s = (os_access E name mode su, s4)"
    unfolding sh_access_def g using assms(4) u sg(1) su(1)
    by (auto simp: asks_access_def Let_def s3_def s4_def)
  then show ?thesis
    using that [of su s4] su sg s4 s3 assms(2,3) by simp
qed


text \<open>
  C28. When the real and effective ids differ, \<open>sh_access\<close> asks \<open>access\<close> with the effective user as
  the real one, and with the effective group as the real one, except that it leaves the groups as
  they are when the number of the group is that of the effective user.
\<close>

theorem sh_access_effective:
  assumes "sets_ids E gids uids" "gids s = (groupid E, egroupid E)" "uids s = (userid E, euserid E)"
    and "asks_access E name mode"
  shows "\<exists>s1. fst (sh_access E name mode s) = os_access E name mode s1 \<and> fst (uids s1) = euserid E \<and>
    fst (gids s1) = (if groupid E = euserid E then groupid E else egroupid E)"
  by (rule sh_access_swaps [OF assms]) auto

section \<open>Looking a name up\<close>

text \<open>
  C29. In a table whose entries are in the order of their first characters \<open>sh_locate\<close>, which stops at
  the first greater one, finds the number of every name that the table has, and 0 for all others.
\<close>

theorem sh_locate_map:
  assumes "ascii_order table"
  shows "sh_locate (Some p) (table @ [([], 0)]) = (case map_of table p of None \<Rightarrow> 0 | Some n \<Rightarrow> n)"
proof (cases p)
  case Nil
  have "map_of table [] = None" using assms by (auto simp: ascii_order_def map_of_eq_None_iff)
  then show ?thesis using Nil by (simp add: sh_locate_def)
next
  case (Cons c cs)
  then show ?thesis using locate_ordered [OF assms, of c cs] by (simp add: sh_locate_def)
qed

section \<open>Values that are not 0 or 1\<close>

text \<open>
  C30. The value of \<open>-u\<close>, \<open>-g\<close> and \<open>-k\<close> is a bit of the mode, and \<open>-a\<close> is a bitwise \<open>AND\<close>: for a file
  with the set-user-id bit, \<open>test -u file -a -n x\<close> fails although both of its operands hold.
\<close>

theorem setuid_and_fails:
  assumes "test_mode E file s AND S_ISUID = S_ISUID" "x \<noteq> []"
    and "file \<noteq> str ''=''" "file \<noteq> str ''!=''" "x \<noteq> str ''=''" "x \<noteq> str ''!=''"
  shows "b_test E [str ''test'', str ''-u'', file, str ''-a'', str ''-n'', x] s = (Inr 1, s) \<and>
    b_test E [str ''test'', str ''-u'', file] s = (Inr 0, s) \<and>
    b_test E [str ''test'', str ''-n'', x] s = (Inr 0, s)"
proof -
  let ?e = "And (Unary (chr CHR ''u'') file) (Unary (chr CHR ''n'') x)"
  have ops: "unary E (str ''-u'')" "unary E (str ''-n'')" "str ''-u'' \<noteq> str ''!''" "str ''-n'' \<noteq> str ''!''"
    "str ''-u'' \<noteq> str ''(''" "str ''-n'' \<noteq> str ''(''" "str ''test'' \<noteq> str ''[''"
    by (simp_all add: unary_def test_opchars_def str_def chr_def)
  have u: "test_unop E (chr CHR ''u'') file s = (Inr 2048, s)"
    using assms(1) by (simp add: test_unop_def chr_def S_ISUID_def)
  have n: "test_unop E (chr CHR ''n'') x s = (Inr 1, s)"
    using assms(2) by (simp add: test_unop_def chr_def)
  have e: "args ?e = [str ''-u'', file, str ''-a'', str ''-n'', x]" by (simp add: wrap_def str_def)
  have pl: "plain E ?e"
    using assms(3-6) by (simp add: test_opchars_def str_def chr_def)
  have "run_expr E [str ''test'', str ''-u'', file, str ''-a'', str ''-n'', x] 6 s = eval E ?e s"
    using run_expr_tree [OF pl, of "str ''test''" s] unfolding e by (simp add: eval_nat_numeral)
  then have "run_expr E [str ''test'', str ''-u'', file, str ''-a'', str ''-n'', x] 6 s = (Inr 0, s)"
    by (simp add: u n seq_def)
  then have 1: "b_test E [str ''test'', str ''-u'', file, str ''-a'', str ''-n'', x] s = (Inr 1, s)"
    using ops by (simp add: b_test_def by_count_def whole_expr_def seq_def eval_nat_numeral)
  have two: "b_test E [str ''test'', a, b] s = status (truth (test_unop E (a ! 1) b)) s"
    if "unary E a" "a \<noteq> str ''!''" "a \<noteq> str ''(''" for a b
    using rule2_count [of E a b "truth (test_unop E (a ! 1) b)" "str ''test''" "[]"] that b_test_command [of E False "[a, b]"]
    by (simp add: rule2_def command_def eval_nat_numeral)
  show ?thesis
    using 1 two [OF ops(1,3,5), where b = "file"] two [OF ops(2,4,6), where b = x] u n
    by (simp add: status_ret seq_def str_def)
qed

end
