(* ===== verification/TestWitness.thy ===== *)
theory TestWitness
  imports TestRules
begin

text \<open>
  The properties of \<open>test\<close> at concrete inputs: a system whose state is the ids of the process, with one
  file, which has the set-user-id bit.
\<close>

record proc =
  pgids :: "nat \<times> nat"
  puids :: "nat \<times> nat"

definition su_file :: fstatus where
  "su_file = \<lparr>st_mode = 35309, st_dev = 1, st_ino = 2, st_uid = 0, st_gid = 0, st_size = 10, st_mtime = 5, st_atime = 6\<rparr>"

definition test_env :: "bool \<Rightarrow> (proc, int, unit) tenv" where
  "test_env px = \<lparr>
    posix = px, shopt_test_l = False, in_test = True, past = (\<lambda>_. 0),
    os_stat = (\<lambda>f s. if f = str ''su'' then Some su_file else None), os_lstat = (\<lambda>f s. None), os_fstat = (\<lambda>n s. None),
    os_access = (\<lambda>f m s. if fst (pgids s) = 20 then 0 else -1),
    os_setregid = (\<lambda>r e s. (0, s\<lparr>pgids := (r, e)\<rparr>)), os_setreuid = (\<lambda>r e s. (0, s\<lparr>puids := (r, e)\<rparr>)),
    os_getgroups = (\<lambda>s. []), pipe_socketpair = False, socketpair_shutdown_mode = False,
    userid = 7, euserid = 8, groupid = 10, egroupid = 20, pwdfd = -1, sfsync_stdout = (\<lambda>s. s),
    ioaccess = (\<lambda>n m s. -1), tty_check = (\<lambda>n s. 0), lookopt = (\<lambda>p b. (0, b)), isoption = (\<lambda>n s. False),
    strtold = (\<lambda>p. strtol10 p), sh_arith = (\<lambda>p s. (Inr (fst (strtol10 p)), s)),
    ld_eq = (=), ld_lt = (<), ld_le = (\<le>), strgrpmatch = (\<lambda>s p n. (0, [])), setmatch = (\<lambda>p n ms s. s),
    collate = strcmp, nv_open = (\<lambda>p s. (Inr None, s)), nv_isref = (\<lambda>v s. 0), nv_hasvalue = (\<lambda>v s. False),
    nv_refnode = (\<lambda>v s. v), nv_arrayisset = (\<lambda>v s. None), nv_isnull = (\<lambda>v s. True),
    optget = (\<lambda>p. False), optdoc = (\<lambda>s. s)\<rparr>"

definition test_proc :: proc where
  "test_proc = \<lparr>pgids = (10, 20), puids = (7, 8)\<rparr>"

lemma test_sets_ids: "sets_ids (test_env px) pgids puids"
  by (simp add: sets_ids_def test_env_def)

lemma b_test_status_witness:
  "\<exists>s'. b_test (test_env False) [str ''test'', str ''a'', str ''=''] test_proc = (Inr 0, s') \<or>
    b_test (test_env False) [str ''test'', str ''a'', str ''=''] test_proc = (Inr 1, s') \<or>
    (\<exists>e. b_test (test_env False) [str ''test'', str ''a'', str ''=''] test_proc = (Inl e, s') \<and> e \<noteq> WildRead \<and> e \<noteq> OutOfFuel)"
  by (rule b_test_status) simp

text \<open>\<open>! -n x -o -z y -a 1 -eq 2\<close>\<close>

definition test_tree :: texp where
  "test_tree = Or (Neg (Unary (chr CHR ''n'') (str ''x'')))
     (And (Unary (chr CHR ''z'') (str ''y'')) (Binary (str ''1'') (str ''-eq'') (str ''2'')))"

lemma test_tree_plain: "plain (test_env False) test_tree"
proof -
  have "test_op (str ''-eq'') = TEST_EQ" by (rule test_op_entry) (simp add: shtab_testops_def)
  then show ?thesis
    by (simp add: test_tree_def test_env_def test_opchars_def test_ops dash2_def str_def chr_def)
qed

lemma b_test_tree_witness:
  "b_test (test_env False)
     (map str [''test'', ''!'', ''-n'', ''x'', ''-o'', ''-z'', ''y'', ''-a'', ''1'', ''-eq'', ''2'']) test_proc =
   seq (eval (test_env False) test_tree) (\<lambda>r. ret (cbool (r = 0))) test_proc"
proof -
  have "args test_tree = map str [''!'', ''-n'', ''x'', ''-o'', ''-z'', ''y'', ''-a'', ''1'', ''-eq'', ''2'']"
    by (simp add: test_tree_def wrap_def str_def)
  then show ?thesis
    using b_test_tree [OF test_tree_plain, of "str ''test''" test_proc] by (simp add: str_def)
qed



lemma sh_access_effective_witness:
  "\<exists>s1. fst (sh_access (test_env True) (str ''f'') R_OK test_proc) = os_access (test_env True) (str ''f'') R_OK s1 \<and>
    fst (puids s1) = 8 \<and> fst (pgids s1) = 20"
  using sh_access_effective [OF test_sets_ids, of test_proc True "str ''f''" R_OK]
  by (simp add: test_proc_def test_env_def asks_access_def str_def)

lemma setuid_and_fails_witness:
  "b_test (test_env False) (map str [''test'', ''-u'', ''su'', ''-a'', ''-n'', ''x'']) test_proc = (Inr 1, test_proc) \<and>
    b_test (test_env False) (map str [''test'', ''-u'', ''su'']) test_proc = (Inr 0, test_proc) \<and>
    b_test (test_env False) (map str [''test'', ''-n'', ''x'']) test_proc = (Inr 0, test_proc)"
proof -
  have "test_mode (test_env False) (str ''su'') test_proc = 35309"
    by (simp add: test_mode_def test_stat_def test_env_def su_file_def sh_isdevfd_def str_def)
  then show ?thesis
    using setuid_and_fails [of "test_env False" "str ''su''" test_proc "str ''x''"]
    by (simp add: S_ISUID_def) (simp add: str_def chr_def)
qed

lemma sh_locate_map_witness:
  "sh_locate (Some (str ''-eq'')) (butlast shtab_testops @ [([], 0)]) = TEST_EQ"
proof -
  have "map_of (butlast shtab_testops) (str ''-eq'') = Some TEST_EQ"
    using shtab_testops_order(2) by (simp add: ascii_order_def) (simp add: shtab_testops_def)
  then show ?thesis using sh_locate_map [OF shtab_testops_order(2), of "str ''-eq''"] by simp
qed

end
