(* ===== verification/LexStates.thy ===== *)
theory LexStates
  imports KshPrelude
begin

text \<open>
  The character classes of the lexer (\<open>src/src/cmd/ksh26/data/lexstates.c\<close>, \<open>include/lexstates.h\<close>) that quoting
  and unquoting consult, row by row as the source has them; \<open>crnl\<close> says whether the shell is built with
  \<open>SHOPT_CRNL\<close>.
\<close>

section \<open>States\<close>

abbreviation S_BREAK :: nat where "S_BREAK \<equiv> 1"
abbreviation S_EOF :: nat where "S_EOF \<equiv> 2"
abbreviation S_NL :: nat where "S_NL \<equiv> 3"
abbreviation S_REG :: nat where "S_REG \<equiv> 6"
abbreviation S_TILDE :: nat where "S_TILDE \<equiv> 7"
abbreviation S_PUSH :: nat where "S_PUSH \<equiv> 8"
abbreviation S_POP :: nat where "S_POP \<equiv> 9"
abbreviation S_BRACT :: nat where "S_BRACT \<equiv> 10"
abbreviation S_LIT :: nat where "S_LIT \<equiv> 11"
abbreviation S_PAT :: nat where "S_PAT \<equiv> 14"
abbreviation S_EPAT :: nat where "S_EPAT \<equiv> 15"
abbreviation S_EQ :: nat where "S_EQ \<equiv> 16"
abbreviation S_ERR :: nat where "S_ERR \<equiv> 20"
abbreviation S_SPC1 :: nat where "S_SPC1 \<equiv> 21"
abbreviation S_SPC2 :: nat where "S_SPC2 \<equiv> 22"
abbreviation S_DIG :: nat where "S_DIG \<equiv> 23"
abbreviation S_ALP :: nat where "S_ALP \<equiv> 24"
abbreviation S_LBRA :: nat where "S_LBRA \<equiv> 25"
abbreviation S_RBRA :: nat where "S_RBRA \<equiv> 26"
abbreviation S_PAR :: nat where "S_PAR \<equiv> 27"
abbreviation S_COLON :: nat where "S_COLON \<equiv> 30"
abbreviation S_BRACE :: nat where "S_BRACE \<equiv> 33"
abbreviation S_DOT :: nat where "S_DOT \<equiv> 34"
abbreviation S_BLNK :: nat where "S_BLNK \<equiv> 36"
abbreviation S_QUOTE :: nat where "S_QUOTE \<equiv> 37"
abbreviation S_GRAVE :: nat where "S_GRAVE \<equiv> 38"
abbreviation S_ESC :: nat where "S_ESC \<equiv> 39"
abbreviation S_DOL :: nat where "S_DOL \<equiv> 40"

section \<open>Tables\<close>

definition ST_NAME :: "bool \<Rightarrow> nat list" where
  "ST_NAME crnl = [
    S_EOF, S_REG, S_REG, S_REG, S_REG, S_REG, S_REG, S_REG,
    S_REG, S_BREAK, S_BREAK, S_REG, S_REG, (if crnl then S_BREAK else S_REG), S_REG, S_REG,
    S_REG, S_REG, S_REG, S_REG, S_REG, S_REG, S_REG, S_REG,
    S_REG, S_REG, S_REG, S_REG, S_REG, S_REG, S_REG, S_REG,
    S_BREAK, S_EPAT, S_QUOTE, S_REG, S_DOL, S_EPAT, S_BREAK, S_LIT,
    S_BREAK, S_BREAK, S_PAT, S_EPAT, S_REG, S_EPAT, S_DOT, S_REG,
    0, 0, 0, 0, 0, 0, 0, 0,
    0, 0, S_REG, S_BREAK, S_BREAK, S_EQ, S_BREAK, S_PAT,
    S_EPAT, 0, 0, 0, 0, 0, 0, 0,
    0, 0, 0, 0, 0, 0, 0, 0,
    0, 0, 0, 0, 0, 0, 0, 0,
    0, 0, 0, S_BRACT, S_ESC, S_REG, S_REG, 0,
    S_GRAVE, 0, 0, 0, 0, 0, 0, 0,
    0, 0, 0, 0, 0, 0, 0, 0,
    0, 0, 0, 0, 0, 0, 0, 0,
    0, 0, 0, S_BRACE, S_BREAK, S_BRACE, S_EPAT, S_REG] @ replicate 128 S_REG"

definition ST_NORM :: "bool \<Rightarrow> nat list" where
  "ST_NORM crnl = [
    S_EOF, 0, 0, 0, 0, 0, 0, 0,
    0, S_BREAK, S_BREAK, 0, 0, (if crnl then S_BREAK else 0), 0, 0,
    0, 0, 0, 0, 0, 0, 0, 0,
    0, 0, 0, 0, 0, 0, 0, 0,
    S_BREAK, S_EPAT, S_QUOTE, 0, S_DOL, S_EPAT, S_BREAK, S_LIT,
    S_BREAK, S_BREAK, S_PAT, S_EPAT, 0, S_EPAT, 0, 0,
    0, 0, 0, 0, 0, 0, 0, 0,
    0, 0, S_COLON, S_BREAK, S_BREAK, 0, S_BREAK, S_PAT,
    S_EPAT, 0, 0, 0, 0, 0, 0, 0,
    0, 0, 0, 0, 0, 0, 0, 0,
    0, 0, 0, 0, 0, 0, 0, 0,
    0, 0, 0, S_PAT, S_ESC, 0, 0, 0,
    S_GRAVE, 0, 0, 0, 0, 0, 0, 0,
    0, 0, 0, 0, 0, 0, 0, 0,
    0, 0, 0, 0, 0, 0, 0, 0,
    0, 0, 0, S_BRACE, S_BREAK, S_BRACE, S_EPAT, 0] @ replicate 128 0"

definition ST_QUOTE :: "bool \<Rightarrow> nat list" where
  "ST_QUOTE crnl = [
    S_EOF, 0, 0, 0, 0, 0, 0, 0,
    0, 0, S_NL, 0, 0, 0, 0, 0,
    0, 0, 0, 0, 0, 0, 0, 0,
    0, 0, 0, 0, 0, 0, 0, 0,
    0, 0, S_QUOTE, 0, S_DOL, 0, 0, 0,
    0, 0, 0, 0, 0, 0, 0, 0,
    0, 0, 0, 0, 0, 0, 0, 0,
    0, 0, 0, 0, 0, 0, 0, 0,
    0, 0, 0, 0, 0, 0, 0, 0,
    0, 0, 0, 0, 0, 0, 0, 0,
    0, 0, 0, 0, 0, 0, 0, 0,
    0, 0, 0, 0, S_ESC, 0, 0, 0,
    S_GRAVE, 0, 0, 0, 0, 0, 0, 0,
    0, 0, 0, 0, 0, 0, 0, 0,
    0, 0, 0, 0, 0, 0, 0, 0,
    0, 0, 0, 0, 0, S_RBRA, 0, 0] @ replicate 128 0"

definition ST_NESTED :: "bool \<Rightarrow> nat list" where
  "ST_NESTED crnl = [
    S_EOF, 0, 0, 0, 0, 0, 0, 0,
    0, S_BLNK, S_NL, 0, 0, 0, 0, 0,
    0, 0, 0, 0, 0, 0, 0, 0,
    0, 0, 0, 0, 0, 0, 0, 0,
    S_BLNK, 0, S_QUOTE, 0, S_DOL, 0, 0, S_LIT,
    S_PUSH, S_POP, 0, 0, 0, 0, 0, 0,
    0, 0, 0, 0, 0, 0, 0, 0,
    0, 0, 0, S_POP, 0, 0, 0, 0,
    0, 0, 0, 0, 0, 0, 0, 0,
    0, 0, 0, 0, 0, 0, 0, 0,
    0, 0, 0, 0, 0, 0, 0, 0,
    0, 0, 0, S_BRACT, S_ESC, S_POP, 0, 0,
    S_GRAVE, 0, 0, 0, 0, 0, 0, 0,
    0, 0, 0, 0, 0, 0, 0, 0,
    0, 0, 0, 0, 0, 0, 0, 0,
    0, 0, 0, S_BRACE, 0, S_POP, S_TILDE, 0] @ replicate 128 0"

definition ST_DOL :: "bool \<Rightarrow> nat list" where
  "ST_DOL crnl = [
    S_EOF, S_ERR, S_ERR, S_ERR, S_ERR, S_ERR, S_ERR, S_ERR,
    S_ERR, S_ERR, S_ERR, S_ERR, S_ERR, S_ERR, S_ERR, S_ERR,
    S_ERR, S_ERR, S_ERR, S_ERR, S_ERR, S_ERR, S_ERR, S_ERR,
    S_ERR, S_ERR, S_ERR, S_ERR, S_ERR, S_ERR, S_ERR, S_ERR,
    S_ERR, S_SPC1, S_ERR, S_SPC1, S_SPC2, S_ERR, S_ERR, S_LIT,
    S_PAR, S_ERR, S_SPC2, S_ERR, S_ERR, S_SPC2, S_ALP, S_ERR,
    S_DIG, S_DIG, S_DIG, S_DIG, S_DIG, S_DIG, S_DIG, S_DIG,
    S_DIG, S_DIG, S_ERR, S_ERR, S_ERR, S_ERR, S_ERR, S_SPC2,
    S_SPC1, S_ALP, S_ALP, S_ALP, S_ALP, S_ALP, S_ALP, S_ALP,
    S_ALP, S_ALP, S_ALP, S_ALP, S_ALP, S_ALP, S_ALP, S_ALP,
    S_ALP, S_ALP, S_ALP, S_ALP, S_ALP, S_ALP, S_ALP, S_ALP,
    S_ALP, S_ALP, S_ALP, S_ERR, S_ERR, S_ERR, S_ERR, S_ALP,
    S_ERR, S_ALP, S_ALP, S_ALP, S_ALP, S_ALP, S_ALP, S_ALP,
    S_ALP, S_ALP, S_ALP, S_ALP, S_ALP, S_ALP, S_ALP, S_ALP,
    S_ALP, S_ALP, S_ALP, S_ALP, S_ALP, S_ALP, S_ALP, S_ALP,
    S_ALP, S_ALP, S_ALP, S_LBRA, S_ERR, S_RBRA, S_ERR, S_ERR] @ replicate 128 S_ERR"

definition lexstate :: "nat list \<Rightarrow> byte \<Rightarrow> nat" where
  "lexstate table c = table ! unat c"

text \<open>\<open>isaname\<close> and \<open>isaletter\<close> in a locale of one byte per character; \<open>alpha\<close> is \<open>isalpha\<close>.\<close>

definition isaname :: "bool \<Rightarrow> (byte \<Rightarrow> bool) \<Rightarrow> byte \<Rightarrow> bool" where
  "isaname crnl alpha c = (if c > 127 then alpha c else lexstate (ST_NAME crnl) c = 0)"

definition isaletter :: "bool \<Rightarrow> (byte \<Rightarrow> bool) \<Rightarrow> byte \<Rightarrow> bool" where
  "isaletter crnl alpha c = (if c > 127 then alpha c else lexstate (ST_DOL crnl) c = S_ALP \<and> c \<noteq> 46)"

section \<open>Characters one by one\<close>

text \<open>A property of all bytes is checked byte by byte.\<close>

lemma byte_all: "(\<forall>c :: byte. P c) \<longleftrightarrow> list_all (\<lambda>n. P (of_nat n)) [0..<256]"
proof
  assume a: "list_all (\<lambda>n. P (of_nat n)) [0..<256]"
  show "\<forall>c. P c"
  proof
    fix c :: byte
    have "unat c < 256" using unsigned_less [of c] by simp
    then have "P (of_nat (unat c))" using a by (simp del: of_nat_unat add: list_all_iff)
    then show "P c" by simp
  qed
qed (simp add: list_all_iff)

end
