(* ===== verification/ChrEsc.thy ===== *)
theory ChrEsc
  imports KshPrelude
begin

text \<open>
  The escapes of \<open>$'...'\<close>: \<open>chrexp\<close> reads one character, expanding \<open>\X\<close> (\<open>src/src/lib/libast/string/chresc.c\<close>),
  and \<open>strexp\<close> expands a whole string (\<open>string/stresc.c\<close>), in a locale with one byte per character.  A string
  is the list of its characters without the terminating zero.
\<close>

section \<open>The locale\<close>

text \<open>
  \<open>isprint\<close>, \<open>isalpha\<close> and \<open>toupper\<close> where \<open>islower\<close>; whether the locale has seven bits; the conversion of
  other Unicode characters by \<open>iconv\<close>, and \<open>mbconv\<close>.
\<close>

record clocale =
  isprint :: "byte \<Rightarrow> bool"
  isalpha :: "byte \<Rightarrow> bool"
  up_case :: "cint \<Rightarrow> cint"
  sevenbit :: bool
  from_utf32 :: "cint \<Rightarrow> cint"
  mbconv :: "cint \<Rightarrow> byte list"

text \<open>The flags \<open>FMT_EXP_CHAR\<close>, \<open>FMT_EXP_LINE\<close>, \<open>FMT_EXP_WIDE\<close>, \<open>FMT_EXP_NOCR\<close>, \<open>FMT_EXP_NONL\<close>.\<close>

datatype fmt_exp = ExpChar | ExpLine | ExpWide | ExpNoCr | ExpNoNl

definition utf32towc :: "clocale \<Rightarrow> cint \<Rightarrow> cint" where
  "utf32towc L c =
    (if c \<le> 127 then c
     else if sevenbit L then -1
     else if c > 0x10FFFF \<or> 0xD800 \<le> c \<and> c \<le> 0xDFFF \<or> 0xFFFE \<le> c \<and> c \<le> 0xFFFF then -1
     else from_utf32 L c)"

section \<open>Numbers\<close>

definition octdigit :: "byte \<Rightarrow> bool" where
  "octdigit x = (48 \<le> x \<and> x \<le> 55)"

text \<open>At most \<open>k\<close> further octal digits.\<close>

fun octloop :: "nat \<Rightarrow> cint \<Rightarrow> byte list \<Rightarrow> cint \<times> byte list" where
  "octloop (Suc k) c (x # s) = (if octdigit x then octloop k (push_bit 3 c + ucast x - 48) s else (c, x # s))"
| "octloop k c s = (c, s)"

definition hexdigit :: "byte \<Rightarrow> cint option" where
  "hexdigit x =
    (if 97 \<le> x \<and> x \<le> 102 then Some (ucast x - 97 + 10)
     else if 65 \<le> x \<and> x \<le> 70 then Some (ucast x - 65 + 10)
     else if 48 \<le> x \<and> x \<le> 57 then Some (ucast x - 48)
     else None)"

text \<open>
  The loop over hexadecimal digits: \<open>k\<close> characters may follow unless a bracket is open (\<open>e == 0\<close>), \<open>first\<close>
  is \<open>s == e\<close>; the value, the number of digits and the rest.
\<close>

definition skip_uplus :: "bool \<Rightarrow> byte list \<Rightarrow> byte list" where
  "skip_uplus w s = (if w \<and> take 2 s = str ''U+'' then drop 2 s else s)"

lemma skip_uplus_length: "length (skip_uplus w s) \<le> length s"
  by (simp add: skip_uplus_def)

function hexloop :: "bool \<Rightarrow> nat \<Rightarrow> bool \<Rightarrow> bool \<Rightarrow> cint \<Rightarrow> nat \<Rightarrow> byte list \<Rightarrow> cint \<times> nat \<times> byte list" where
  "hexloop w k first open c n [] = (c, n, [])"
| "hexloop w k first open c n (x # s) =
    (if \<not> open \<and> k = 0 then (c, n, x # s)
     else case hexdigit x of
         Some d \<Rightarrow> hexloop w (k - 1) False open (push_bit 4 c + d) (Suc n) s
       | None \<Rightarrow>
           if x = chr CHR ''{'' \<or> x = chr CHR ''['' then
             if first then hexloop w (k - 1) False True c n (skip_uplus w s) else (c, n, x # s)
           else if x = chr CHR ''}'' \<or> x = chr CHR '']'' then (c, n, if open then s else x # s)
           else (c, n, x # s))"
  by pat_completeness auto
termination
  by (relation "measure (\<lambda>(w, k, first, open, c, n, s). length s)") (auto simp: less_Suc_eq_le skip_uplus_length)

section \<open>One character\<close>

text \<open>\<open>\x\<close>, \<open>\u\<close> and \<open>\U\<close>, whose letter is \<open>x\<close>; \<open>k\<close> digits without brackets.\<close>

definition chrexp_hex :: "clocale \<Rightarrow> fmt_exp set \<Rightarrow> bool \<Rightarrow> nat \<Rightarrow> byte \<Rightarrow> byte list \<Rightarrow> cint \<times> byte list \<times> bool" where
  "chrexp_hex L F convert k x s =
    (if convert \<and> ExpWide \<notin> F then (92, x # s, False)
     else
       let (c, n, r) = hexloop convert k True False 0 0 s;
           w = (convert \<or> n > 2 \<and> ExpWide \<in> F);
           c' = (if convert then utf32towc L c else c)
       in if n \<le> 2 \<and> ExpChar \<notin> F \<or> n > 2 \<and> ExpWide \<notin> F \<or> convert \<and> c' \<le>s 0 then (92, x # s, w)
          else (c', r, w))"

definition control :: "clocale \<Rightarrow> cint \<Rightarrow> cint" where
  "control L c = up_case L c XOR 64"

function chrexp :: "clocale \<Rightarrow> fmt_exp set \<Rightarrow> byte list \<Rightarrow> cint \<times> byte list \<times> bool" where
  "chrexp L F [] = (0, [], False)"
| "chrexp L F [b] = (if b = 92 then (0, [], False) else (ucast b, [], False))"
| "chrexp L F (b # x # s) =
    (let noexpand = (92, x # s, False);
         simple = (\<lambda>c. if ExpChar \<in> F then (c, s, False) else noexpand)
     in
     if b \<noteq> 92 then (ucast b, x # s, False)
     else if octdigit x then
       if ExpChar \<in> F then let (c, r) = octloop 2 (ucast x - 48) s in (c, r, False) else noexpand
     else if x = chr CHR ''a'' then simple 7
     else if x = chr CHR ''b'' then simple 8
     else if x = chr CHR ''c'' \<or> x = chr CHR ''C'' then
       if ExpChar \<notin> F then noexpand
       else (case s of
           [] \<Rightarrow> (0, [], False)
         | y # t \<Rightarrow>
             if y = 92 then let (c, r, w) = chrexp L F s in (control L c, r, False)
             else (control L (scast y), t, False))
     else if x = chr CHR ''e'' \<or> x = chr CHR ''E'' then simple 27
     else if x = chr CHR ''f'' then simple 12
     else if x = chr CHR ''n'' then
       if ExpNoNl \<in> F then chrexp L F s else if ExpLine \<in> F then (10, s, False) else noexpand
     else if x = chr CHR ''r'' then
       if ExpNoCr \<in> F then chrexp L F s else if ExpLine \<in> F then (13, s, False) else noexpand
     else if x = chr CHR ''t'' then simple 9
     else if x = chr CHR ''v'' then simple 11
     else if x = chr CHR ''u'' then chrexp_hex L F True 4 x s
     else if x = chr CHR ''U'' then chrexp_hex L F True 8 x s
     else if x = chr CHR ''x'' then chrexp_hex L F False 2 x s
     else (scast x, s, False))"
  by pat_completeness auto
termination
  by (relation "measure (\<lambda>(L, F, s). length s)") auto

text \<open>A character that starts with \<open>\\<close> takes at least that.\<close>

lemma octloop_length: "length (snd (octloop k c s)) \<le> length s"
proof (induction k c s rule: octloop.induct)
  case (1 k c x s)
  then show ?case by (cases "octdigit x") simp_all
qed simp_all

lemma hexloop_length: "length (snd (snd (hexloop w k first open c n s))) \<le> length s"
proof (induction w k first "open" c n s rule: hexloop.induct)
  case (2 w k first opn c n x s)
  have u: "length (skip_uplus w s) \<le> Suc (length s)" using skip_uplus_length [of w s] by simp
  show ?case
    using 2 by (cases "hexdigit x") (simp_all add: le_SucI le_trans [OF _ u])
qed simp

lemma chrexp_hex_length: "length (fst (snd (chrexp_hex L F convert k x s))) \<le> Suc (length s)"
  using hexloop_length [of convert k True False 0 0 s]
  by (cases "hexloop convert k True False 0 0 s") (simp add: chrexp_hex_def Let_def)

definition leaves :: "nat \<Rightarrow> cint \<times> byte list \<times> bool \<Rightarrow> bool" where
  "leaves n q = (length (fst (snd q)) \<le> n)"

lemma leaves_if: "(b \<Longrightarrow> leaves n p) \<Longrightarrow> (\<not> b \<Longrightarrow> leaves n q) \<Longrightarrow> leaves n (if b then p else q)"
  by simp

lemma leaves_basic: "length r \<le> n \<Longrightarrow> leaves n (c, r, w)"
  by (simp add: leaves_def)

lemma leaves_hex: "length s < n \<Longrightarrow> leaves n (chrexp_hex L F convert k x s)"
  using chrexp_hex_length [of L F convert k x s] by (simp add: leaves_def)

lemma chrexp_length: "leaves (length s - 1) (chrexp L F s)"
proof (induction s rule: length_induct)
  case (1 cs)
  consider "cs = []" | b where "cs = [b]" | b x s where "cs = b # x # s" by (metis list.exhaust)
  then show ?case
  proof cases
    case (3 b x s)
    let ?n = "Suc (length s)"
    have "leaves (length s - 1) (chrexp L F s)" using 1 3 by simp
    then have r: "leaves ?n (chrexp L F s)" by (simp add: leaves_def)
    have o: "leaves ?n (let (c, r) = octloop 2 (ucast x - 48) s in (c, r, False))"
      using octloop_length [of 2 "ucast x - 48" s] by (auto simp: leaves_def split: prod.splits)
    have c: "leaves ?n (case s of [] \<Rightarrow> (0, [], False)
        | y # t \<Rightarrow> if y = 92 then let (c, r, w) = chrexp L F s in (control L c, r, False)
          else (control L (scast y), t, False))"
      using r by (cases s) (auto simp: leaves_def split: prod.splits)
    have h: "leaves ?n (chrexp_hex L F convert k x s)" for convert k by (rule leaves_hex) simp
    have b: "leaves ?n (v, x # s, w)" "leaves ?n (v, s, w)" for v w by (simp_all add: leaves_def)
    have "leaves ?n (chrexp L F (b # x # s))"
      unfolding chrexp.simps(3) Let_def [of "(92, x # s, False)"] Let_def [of "\<lambda>c. if ExpChar \<in> F then (c, s, False) else _"]
      by (intro leaves_if b h o c r)
    then show ?thesis using 3 by simp
  qed (simp_all add: leaves_def)
qed

text \<open>\<open>strexp\<close>: a negative character, which no locale has, is dropped.\<close>

function strexp :: "clocale \<Rightarrow> fmt_exp set \<Rightarrow> byte list \<Rightarrow> byte list" where
  "strexp L F [] = []"
| "strexp L F (b # s) =
    (if b = 92 then
       let (c, r, w) = chrexp L F (b # s) in
       if c <s 0 then strexp L F r
       else if w then mbconv L c @ strexp L F r
       else ucast c # strexp L F r
     else b # strexp L F s)"
  by pat_completeness auto
termination
proof (relation "measure (\<lambda>(L, F, s). length s)", goal_cases)
  case (2 L F b s x c y r w)
  then show ?case using chrexp_length [of "b # s" L F] by (simp del: chrexp.simps add: prod_eq_iff leaves_def)
next
  case (3 L F b s x c y r w)
  then show ?case using chrexp_length [of "b # s" L F] by (simp del: chrexp.simps add: prod_eq_iff leaves_def)
next
  case (4 L F b s x c y r w)
  then show ?case using chrexp_length [of "b # s" L F] by (simp del: chrexp.simps add: prod_eq_iff leaves_def)
qed simp_all

definition stresc :: "clocale \<Rightarrow> byte list \<Rightarrow> byte list" where
  "stresc L s = strexp L {ExpChar, ExpLine, ExpWide} s"

definition chresc :: "clocale \<Rightarrow> byte list \<Rightarrow> cint \<times> byte list" where
  "chresc L s = (let (c, r, w) = chrexp L {ExpChar, ExpLine, ExpWide} s in (c, r))"

end
