(* ===== verification/ShQuote.thy ===== *)
theory ShQuote
  imports LexStates ChrEsc
begin

text \<open>
  Quoting for the shell: \<open>sh_fmtq\<close> (\<open>src/src/cmd/ksh26/sh/string.c\<close>) in a locale with one byte per
  character.
\<close>

definition isxdigit :: "byte \<Rightarrow> bool" where
  "isxdigit c = (48 \<le> c \<and> c \<le> 57 \<or> 65 \<le> c \<and> c \<le> 70 \<or> 97 \<le> c \<and> c \<le> 102)"

text \<open>The characters that need quotes, and the loop that finds the kind of quotes a word needs.\<close>

definition special :: "bool \<Rightarrow> byte \<Rightarrow> bool" where
  "special crnl c =
    (c = chr CHR '']'' \<or> c = chr CHR ''='' \<or>
     c \<noteq> chr CHR '':'' \<and> c \<le> 127 \<and> lexstate (ST_NORM crnl) c \<noteq> 0 \<and> lexstate (ST_NORM crnl) c \<noteq> S_EPAT)"

fun fmt_scan :: "clocale \<Rightarrow> bool \<Rightarrow> nat \<Rightarrow> byte list \<Rightarrow> nat" where
  "fmt_scan L crnl state [] = state"
| "fmt_scan L crnl state (c # cp) =
    (if c = 39 \<or> \<not> isprint L c then fmt_scan L crnl 2 cp
     else if special crnl c then fmt_scan L crnl (state OR 1) cp
     else fmt_scan L crnl state cp)"

text \<open>The characters between \<open>$'\<close> and \<open>'\<close>.\<close>

definition escape_letter :: "byte \<Rightarrow> byte option" where
  "escape_letter c =
    (if c = 27 then Some (chr CHR ''E'')
     else if c = 10 then Some (chr CHR ''n'')
     else if c = 13 then Some (chr CHR ''r'')
     else if c = 9 then Some (chr CHR ''t'')
     else if c = 12 then Some (chr CHR ''f'')
     else if c = 8 then Some (chr CHR ''b'')
     else if c = 7 then Some (chr CHR ''a'')
     else if c = 92 \<or> c = 39 then Some c
     else None)"

definition hex_char :: "byte \<Rightarrow> byte" where
  "hex_char d = (if d < 10 then 48 + d else 87 + d)"

definition hex2 :: "byte \<Rightarrow> byte list" where
  "hex2 c = [hex_char (c div 16), hex_char (c mod 16)]"

fun fmt_ansi :: "clocale \<Rightarrow> byte list \<Rightarrow> byte list" where
  "fmt_ansi L [] = []"
| "fmt_ansi L (c # cp) =
    (case escape_letter c of
       Some l \<Rightarrow> [92, l]
     | None \<Rightarrow>
         if \<not> isprint L c then
           if cp \<noteq> [] \<and> isxdigit (hd cp) then [92] @ str ''x['' @ hex2 c @ str '']'' else [92] @ str ''x'' @ hex2 c
         else [c]) @ fmt_ansi L cp"

text \<open>The word \<open>string\<close>, of which the part \<open>scan\<close> is left to be looked at.\<close>

definition fmt_word :: "clocale \<Rightarrow> bool \<Rightarrow> byte list \<Rightarrow> byte list \<Rightarrow> byte list" where
  "fmt_word L crnl string scan =
    (let state = fmt_scan L crnl
           (if scan = [] \<or> hd scan = chr CHR ''#'' \<or> hd scan = chr CHR ''~'' then 1 else 0) scan
     in if state < 2 then if state = 1 then [39] @ string @ [39] else string
        else str ''$'' @ [39] @ fmt_ansi L string @ [39])"

definition sh_fmtq :: "clocale \<Rightarrow> bool \<Rightarrow> byte list \<Rightarrow> byte list" where
  "sh_fmtq L crnl string =
    (let name = (string \<noteq> [] \<and> (isaletter crnl (isalpha L) (hd string) \<or> hd string = chr CHR ''.''));
         rest = (if name then dropWhile (\<lambda>c. isaname crnl (isalpha L) c \<or> c = chr CHR ''.'') (tl string) else string)
     in if name \<and> rest = [] then string
        else if name \<and> (hd rest = chr CHR ''='' \<or>
          hd rest = chr CHR ''+'' \<and> tl rest \<noteq> [] \<and> hd (tl rest) = chr CHR ''='') then
          let cp = tl rest in
          if cp = [] then string
          else let cp = (if hd cp = chr CHR ''='' then tl cp else cp)
            in take (length string - length cp) string @ fmt_word L crnl cp cp
        else fmt_word L crnl string rest)"

end
