(* ===== verification/EndWord.thy ===== *)
theory EndWord
  imports LexStates ChrEsc
begin

text \<open>
  Removing the quotes of a word: \<open>endword\<close> and \<open>stack_shift\<close> of \<open>src/src/cmd/ksh26/sh/lex.c\<close> and \<open>sh_checkid\<close> of
  \<open>sh/string.c\<close>, in a locale with one byte per character.  The word lies on the stack and is rewritten in
  place: \<open>sp\<close> reads and \<open>dp\<close> writes the same memory.
\<close>

section \<open>State\<close>

text \<open>
  The memory from the start of the word on, whose last byte is the terminating zero; the positions
  \<open>sp\<close>, \<open>dp\<close>, \<open>ep\<close> (start of a \<open>$'...'\<close> or \<open>$"..."\<close>) and \<open>xp\<close> (after \<open>.[\<close>); the bits of nested double
  quotes; and the strings printed with mode 2.
\<close>

record ew =
  mem :: "byte list"
  sp :: nat
  dp :: nat
  ep :: "nat option"
  xp :: "nat option"
  inquote :: cint
  inlit :: bool
  bracket :: int
  printed :: "byte list list"

text \<open>The shell around it: locale, build, the translation of messages and the byte before the word.\<close>

record ewenv =
  loc :: clocale
  crnl :: bool
  translate :: "byte list \<Rightarrow> byte list"
  before :: byte

text \<open>Reading, writing one byte and writing a string.\<close>

definition rd :: "ew \<Rightarrow> nat \<Rightarrow> byte" where
  "rd w i = (if i < length (mem w) then mem w ! i else 0)"

definition put :: "nat \<Rightarrow> byte \<Rightarrow> ew \<Rightarrow> ew" where
  "put i b w = w\<lparr>mem := (mem w)[i := b]\<rparr>"

definition puts :: "nat \<Rightarrow> byte list \<Rightarrow> ew \<Rightarrow> ew" where
  "puts i bs w = w\<lparr>mem := take i (mem w) @ bs @ drop (i + length bs) (mem w)\<rparr>"

text \<open>\<open>*dp++ = b\<close>\<close>

definition out :: "byte \<Rightarrow> ew \<Rightarrow> ew" where
  "out b w = (put (dp w) b w)\<lparr>dp := Suc (dp w)\<rparr>"

definition odd_quote :: "ew \<Rightarrow> bool" where
  "odd_quote w = (inquote w AND 1 \<noteq> 0)"

text \<open>\<open>sp = stack_shift(sp, d)\<close>: the unread part is moved up so that it starts after \<open>d\<close>.\<close>

definition stack_shift :: "nat \<Rightarrow> ew \<Rightarrow> ew" where
  "stack_shift d w =
    (let shift = d + 1 - sp w in
     w\<lparr>mem := take (sp w + shift) (mem w @ replicate shift 0) @ drop (sp w) (mem w), sp := sp w + shift\<rparr>)"

text \<open>\<open>dp = sh_checkid(x, dp)\<close>: \<open>[identifier]\<close> after a dot becomes \<open>identifier\<close>.\<close>

definition sh_checkid :: "ewenv \<Rightarrow> nat \<Rightarrow> ew \<Rightarrow> ew" where
  "sh_checkid E x w =
    (let s = drop x (mem w);
         alpha = isalpha (loc E);
         n = (if s \<noteq> [] \<and> isaletter (crnl E) alpha (hd s) then Suc (length (takeWhile (isaname (crnl E) alpha) (tl s))) else 0);
         cp = x + n + 1
     in if rd w (x + n) = chr CHR '']'' \<and> cp = dp w
        then (puts (x - 1) (take (n + 1) s) w)\<lparr>dp := dp w - 2\<rparr>
        else w)"

section \<open>The cases of the switch\<close>

definition case_lit :: "ewenv \<Rightarrow> int \<Rightarrow> ew \<Rightarrow> ew" where
  "case_lit E mode w =
    (if odd_quote w then w
     else
       let w = w\<lparr>inlit := \<not> inlit w\<rparr> in
       if mode = 0 \<or> mode < 0 \<and> bracket w \<noteq> 0 then
         let w = w\<lparr>dp := dp w - 1\<rparr>;
             w = (case ep w of
                 None \<Rightarrow> w
               | Some e \<Rightarrow>
                   let w = put (dp w) 0 w;
                       s = stresc (loc E) (cstr (drop e (mem w)))
                   in (puts e (s @ [0]) w)\<lparr>dp := e + length (cstr s)\<rparr>)
         in w\<lparr>ep := None\<rparr>
       else w)"

definition case_quote :: "ewenv \<Rightarrow> int \<Rightarrow> ew \<Rightarrow> ew" where
  "case_quote E mode w =
    (if mode < 0 \<and> bracket w = 0 \<or> inlit w then w
     else
       let w = w\<lparr>dp := (if mode \<le> 0 then dp w - 1 else dp w), inquote := inquote w XOR 1\<rparr> in
       case ep w of
         None \<Rightarrow> w
       | Some e \<Rightarrow>
           if mode = 2 then w\<lparr>printed := printed w @ [take (dp w - e) (drop e (mem w))], ep := None\<rparr>
           else
             let w = put (dp w - 1) 0 (w\<lparr>dp := dp w - 1\<rparr>);
                 msg = translate E (cstr (drop e (mem w)));
                 n = length msg;
                 w = w\<lparr>dp := e + n\<rparr>;
                 (w, e) = (if int (sp w) - int (dp w) \<le> 1 then
                     let w = stack_shift (dp w) w in (w\<lparr>dp := sp w - 1\<rparr>, sp w - 1 - n)
                   else (w, e))
             in (out 34 (puts e msg w))\<lparr>ep := None\<rparr>)"

definition case_dol :: "int \<Rightarrow> ew \<Rightarrow> ew" where
  "case_dol mode w =
    (let c = rd w (sp w) in
     if inlit w then w
     else if c = chr CHR ''('' \<or> c = chr CHR ''{'' then w\<lparr>inquote := push_bit 1 (inquote w)\<rparr>
     else if odd_quote w then w
     else if c = 39 \<or> c = 34 then
       let w = (if c = 34 then w\<lparr>inquote := inquote w OR 1\<rparr> else w\<lparr>inlit := True\<rparr>);
           w = w\<lparr>sp := Suc (sp w)\<rparr>
       in if mode = 0 \<or> mode < 0 \<and> bracket w \<noteq> 0 \<or> odd_quote w then
            if mode = 2 then w\<lparr>ep := Some (dp w), dp := Suc (dp w)\<rparr>
            else if mode = 1 then (put (dp w - 1) 34 w)\<lparr>ep := Some (dp w)\<rparr>
            else w\<lparr>ep := Some (dp w - 1), dp := dp w - 1\<rparr>
          else w
     else w)"

definition case_esc :: "ewenv \<Rightarrow> int \<Rightarrow> ew \<Rightarrow> ew" where
  "case_esc E mode w =
    (let w = (if crnl E \<and> rd w (sp w) = 13 \<and> rd w (Suc (sp w)) = 10 then w\<lparr>sp := Suc (sp w)\<rparr> else w) in
     if inlit w \<or> mode > 0 then
       let w = (if mode < 0 then
             out 92 (if dp w \<ge> sp w then (let w = stack_shift (dp w + 1) w in w\<lparr>dp := sp w - 2\<rparr>) else w)
           else w)
       in if ep w \<noteq> None then (out (rd w (sp w)) w)\<lparr>sp := Suc (sp w)\<rparr> else w
     else
       let n = rd w (sp w) in
       if \<not> odd_quote w \<or> lexstate (ST_QUOTE (crnl E)) n \<noteq> 0 \<and> n \<noteq> chr CHR ''}'' then
         (if n = 10 then w\<lparr>dp := dp w - 1\<rparr> else put (dp w - 1) n w)\<lparr>sp := Suc (sp w)\<rparr>
       else w)"

text \<open>An escaped bracket inside quotes, with a mode below 0.\<close>

definition escaped_bracket :: "byte \<Rightarrow> ew \<Rightarrow> ew" where
  "escaped_bracket b w =
    (let w = put (dp w - 1) 92 w;
         w = (if dp w \<ge> sp w then (let w = stack_shift (dp w) w in w\<lparr>dp := sp w - 1\<rparr>) else w)
     in out b w)"

definition case_pop :: "ewenv \<Rightarrow> int \<Rightarrow> ew \<Rightarrow> ew" where
  "case_pop E mode w =
    (if rd w (sp w - 1) \<noteq> chr CHR '']'' then w
     else if \<not> inlit w \<and> \<not> odd_quote w then
       let w = w\<lparr>inquote := signed_drop_bit 1 (inquote w)\<rparr>;
           w = (case xp w of None \<Rightarrow> w | Some x \<Rightarrow> sh_checkid E x w);
           w = w\<lparr>xp := None, bracket := bracket w - 1\<rparr>
       in if bracket w \<le> 0 \<and> mode < 0 then w\<lparr>inquote := 1\<rparr> else w
     else if (inlit w \<or> inquote w \<noteq> 0) \<and> mode < 0 then escaped_bracket (chr CHR '']'') w
     else w)"

definition case_bract :: "ewenv \<Rightarrow> int \<Rightarrow> ew \<Rightarrow> ew" where
  "case_bract E mode w =
    (let w = (if (if dp w < 2 then before E else rd w (dp w - 2)) = chr CHR ''.'' then w\<lparr>xp := Some (dp w)\<rparr> else w) in
     if mode < 0 then
       if inlit w \<or> bracket w \<noteq> 0 \<and> inquote w \<noteq> 0 then escaped_bracket (chr CHR ''['') w
       else w\<lparr>inquote := (if bracket w = 0 then 0 else inquote w), bracket := bracket w + 1\<rparr>
     else w)"

definition ew_case :: "ewenv \<Rightarrow> int \<Rightarrow> nat \<Rightarrow> ew \<Rightarrow> ew" where
  "ew_case E mode n w =
    (if n = S_LIT then case_lit E mode w
     else if n = S_QUOTE then case_quote E mode w
     else if n = S_DOL then case_dol mode w
     else if n = S_ESC then case_esc E mode w
     else if n = S_POP then case_pop E mode w
     else if n = S_BRACT then case_bract E mode w
     else w)"

section \<open>The loops\<close>

text \<open>
  Skipping to the first character with a class, and copying up to the next one; \<open>None\<close> is reading
  behind the end of the word.  The fuel is the length of the unread part.
\<close>

fun ew_skip :: "ewenv \<Rightarrow> nat \<Rightarrow> ew \<Rightarrow> (nat \<times> ew) option" where
  "ew_skip E 0 w = None"
| "ew_skip E (Suc k) w =
    (let n = lexstate (ST_NESTED (crnl E)) (rd w (sp w)); w = w\<lparr>sp := Suc (sp w)\<rparr>
     in if n = 0 then ew_skip E k w else Some (n, w))"

fun ew_copy :: "ewenv \<Rightarrow> nat \<Rightarrow> ew \<Rightarrow> (nat \<times> ew) option" where
  "ew_copy E 0 w = None"
| "ew_copy E (Suc k) w =
    (let c = rd w (sp w); n = lexstate (ST_NESTED (crnl E)) c; w = (out c w)\<lparr>sp := Suc (sp w)\<rparr>
     in if n = 0 then ew_copy E k w else Some (n, w))"

fun ew_loop :: "ewenv \<Rightarrow> int \<Rightarrow> nat \<Rightarrow> nat \<Rightarrow> ew \<Rightarrow> ew option" where
  "ew_loop E mode 0 n w = None"
| "ew_loop E mode (Suc f) n w =
    (if n = S_EOF then Some w
     else
       let w = ew_case E mode n w in
       case ew_copy E (length (mem w) - sp w) w of
         None \<Rightarrow> None
       | Some (n, w) \<Rightarrow> ew_loop E mode f n w)"

text \<open>A word without its terminating zero; the result is what lies before \<open>dp\<close> at the end.\<close>

definition endword :: "ewenv \<Rightarrow> int \<Rightarrow> byte list \<Rightarrow> ew option" where
  "endword E mode word =
    (let w = \<lparr>mem = word @ [0], sp = 0, dp = 0, ep = None, xp = None, inquote = 0, inlit = False,
           bracket = 0, printed = []\<rparr>
     in case ew_skip E (Suc (length word)) w of
          None \<Rightarrow> None
        | Some (n, w) \<Rightarrow>
            ew_loop E mode (length word + 2) n (w\<lparr>dp := sp w, inquote := (if mode < 0 then 1 else 0)\<rparr>))"

definition ew_word :: "ew \<Rightarrow> byte list" where
  "ew_word w = cstr (take (dp w) (mem w))"

end
