(* ===== verification/QuoteRead.thy ===== *)
theory QuoteRead
  imports ShQuote EndWord
begin

text \<open>
  What \<open>endword\<close> with mode 0 makes of a word, piece by piece, and that the escapes \<open>sh_fmtq\<close> writes are
  expanded to what they were written for.
\<close>

section \<open>Characters\<close>

lemma nested_facts:
  "lexstate (ST_NESTED b) c = S_EOF \<longleftrightarrow> c = 0"
  "lexstate (ST_NESTED b) c = S_LIT \<longleftrightarrow> c = 39"
  "lexstate (ST_NESTED b) c = S_QUOTE \<longleftrightarrow> c = 34"
  "lexstate (ST_NESTED b) c = S_DOL \<longleftrightarrow> c = 36"
  "lexstate (ST_NESTED b) c = S_ESC \<longleftrightarrow> c = 92"
  "lexstate (ST_NESTED b) c = S_BRACT \<longleftrightarrow> c = 91"
proof -
  have "\<forall>c. (lexstate (ST_NESTED b) c = S_EOF \<longleftrightarrow> c = 0) \<and> (lexstate (ST_NESTED b) c = S_LIT \<longleftrightarrow> c = 39) \<and>
     (lexstate (ST_NESTED b) c = S_QUOTE \<longleftrightarrow> c = 34) \<and> (lexstate (ST_NESTED b) c = S_DOL \<longleftrightarrow> c = 36) \<and>
     (lexstate (ST_NESTED b) c = S_ESC \<longleftrightarrow> c = 92) \<and> (lexstate (ST_NESTED b) c = S_BRACT \<longleftrightarrow> c = 91)"
    unfolding byte_all lexstate_def ST_NESTED_def by code_simp
  then show "lexstate (ST_NESTED b) c = S_EOF \<longleftrightarrow> c = 0" "lexstate (ST_NESTED b) c = S_LIT \<longleftrightarrow> c = 39"
    "lexstate (ST_NESTED b) c = S_QUOTE \<longleftrightarrow> c = 34" "lexstate (ST_NESTED b) c = S_DOL \<longleftrightarrow> c = 36"
    "lexstate (ST_NESTED b) c = S_ESC \<longleftrightarrow> c = 92" "lexstate (ST_NESTED b) c = S_BRACT \<longleftrightarrow> c = 91"
    by blast+
qed

section \<open>Reading on\<close>

text \<open>
  The memory splits into what is written, a gap and what is to be read; the flags that matter for
  mode 0 are \<open>ep\<close>, \<open>inlit\<close> and the double quotes, of which there are none.
\<close>

definition at :: "byte list \<Rightarrow> byte list \<Rightarrow> nat option \<Rightarrow> bool \<Rightarrow> ew \<Rightarrow> bool" where
  "at os rest e l w =
    (take (dp w) (mem w) = os \<and> drop (sp w) (mem w) = rest \<and> dp w \<le> sp w \<and> sp w \<le> length (mem w) \<and>
     ep w = e \<and> inlit w = l \<and> inquote w = 0)"

lemma at_lengths: "at os rest e l w \<Longrightarrow> dp w = length os \<and> sp w + length rest = length (mem w) \<and> length (mem w) - sp w = length rest"
  by (auto simp: at_def)

lemma cstr_append: "0 \<notin> set a \<Longrightarrow> cstr (a @ 0 # b) = a"
  by (induction a) (auto simp: cstr_def)

text \<open>Copying and going on.\<close>

definition ew_next :: "ewenv \<Rightarrow> nat \<Rightarrow> ew \<Rightarrow> ew option" where
  "ew_next E f w =
    (case ew_copy E (length (mem w) - sp w) w of None \<Rightarrow> None | Some (n, w) \<Rightarrow> ew_loop E 0 f n w)"

definition takes :: "ewenv \<Rightarrow> byte list \<Rightarrow> byte list \<Rightarrow> nat option \<Rightarrow> bool \<Rightarrow> byte list \<Rightarrow> bool" where
  "takes E os rest e l res =
    (\<forall>w f. at os rest e l w \<longrightarrow> length rest \<le> f \<longrightarrow> (\<exists>w'. ew_next E f w = Some w' \<and> ew_word w' = res))"

definition step :: "byte \<Rightarrow> ew \<Rightarrow> ew" where
  "step c w = (out c w)\<lparr>sp := Suc (sp w)\<rparr>"

lemma rd_rest: "at os (c # rest) e l w \<Longrightarrow> rd w (sp w) = c"
  by (auto simp: at_def rd_def) (metis drop_all hd_drop_conv_nth linorder_not_le list.distinct(1) list.sel(1))+

lemma at_step:
  assumes "at os (c # rest) e l w"
  shows "at (os @ [c]) rest e l (step c w)"
proof -
  have l: "sp w < length (mem w)" using at_lengths [OF assms] by simp
  have d: "drop (sp w) (mem w) = c # rest" "take (dp w) (mem w) = os" "dp w \<le> sp w" using assms by (simp_all add: at_def)
  have "drop (Suc (sp w)) (mem w) = tl (drop (sp w) (mem w))" by (simp add: drop_Suc tl_drop)
  then have d1: "drop (Suc (sp w)) (mem w) = rest" using d(1) by simp
  have "take (Suc (dp w)) ((mem w)[dp w := c]) = os @ [c]"
    using l d(2,3) by (simp add: take_Suc_conv_app_nth)
  moreover have "drop (Suc (sp w)) ((mem w)[dp w := c]) = rest"
    using d1 d(3) by (simp add: drop_update_cancel)
  ultimately show ?thesis using assms l by (simp add: at_def step_def out_def put_def)
qed

lemma rd_step:
  assumes "at os (c # rest) e l w"
  shows "rd (step c w) (sp (step c w) - 1) = c"
proof -
  have "sp w < length (mem w)" "dp w \<le> sp w" using at_lengths [OF assms] assms by (simp_all add: at_def)
  then show ?thesis using rd_rest [OF assms] by (simp add: step_def out_def put_def rd_def nth_list_update)
qed

text \<open>One character: the loop goes on behind it, with what its class does.\<close>

lemma ew_next_step:
  assumes "at os (c # rest) e l w"
  shows "ew_next E (Suc f) w =
    (let n = lexstate (ST_NESTED (crnl E)) c in
     if n = 0 then ew_next E (Suc f) (step c w)
     else if n = S_EOF then Some (step c w)
     else ew_next E f (ew_case E 0 n (step c w)))"
proof -
  have k: "length (mem w) - sp w = Suc (length rest)" using at_lengths [OF assms] by simp
  have "length (mem (step c w)) - sp (step c w) = length rest"
    using at_lengths [OF at_step [OF assms]] by simp
  then show ?thesis
    using rd_rest [OF assms] by (auto simp: ew_next_def k Let_def step_def)
qed

lemma takes_step:
  assumes "c \<noteq> 0"
    and "\<And>w. at (os @ [c]) rest e l w \<Longrightarrow> rd w (sp w - 1) = c \<Longrightarrow> ew_case E 0 (lexstate (ST_NESTED (crnl E)) c) w = w \<or>
      at (os @ [c]) rest e l (ew_case E 0 (lexstate (ST_NESTED (crnl E)) c) w)"
    and "takes E (os @ [c]) rest e l res"
  shows "takes E os (c # rest) e l res"
  unfolding takes_def
proof (intro allI impI)
  fix w f assume a: "at os (c # rest) e l w" and f: "length (c # rest) \<le> f"
  let ?n = "lexstate (ST_NESTED (crnl E)) c"
  obtain g where g: "f = Suc g" using f by (cases f) auto
  have s: "at (os @ [c]) rest e l (step c w)" by (rule at_step [OF a])
  then have c: "at (os @ [c]) rest e l (ew_case E 0 ?n (step c w))" using assms(2) [OF s rd_step [OF a]] by auto
  have "?n \<noteq> S_EOF" using assms(1) nested_facts(1) by simp
  then have "ew_next E f w = (if ?n = 0 then ew_next E f (step c w) else ew_next E g (ew_case E 0 ?n (step c w)))"
    using ew_next_step [OF a, of E g] g by (simp add: Let_def)
  then show "\<exists>w'. ew_next E f w = Some w' \<and> ew_word w' = res"
    using assms(3) s c f g by (auto simp: takes_def)
qed

lemma takes_end: "0 \<notin> set os \<Longrightarrow> takes E os [0] e l os"
  unfolding takes_def
proof (intro allI impI)
  fix w f assume o: "0 \<notin> set os" and a: "at os [0] e l w" and f: "length [0 :: byte] \<le> f"
  obtain g where g: "f = Suc g" using f by (cases f) auto
  have "ew_next E f w = Some (step 0 w)"
    using ew_next_step [OF a, of E g] g nested_facts(1) [of "crnl E" 0] by (simp add: Let_def)
  moreover have "ew_word (step 0 w) = os"
    using at_step [OF a] o by (simp add: ew_word_def at_def cstr_append)
  ultimately show "\<exists>w'. ew_next E f w = Some w' \<and> ew_word w' = os" by simp
qed

text \<open>A character that does nothing outside of quotes, and any but a quote inside of them.\<close>

definition quiet :: "byte \<Rightarrow> bool" where
  "quiet c = (c \<notin> {0, 34, 36, 39, 91, 92, 93})"

lemma takes_quiet:
  "quiet c \<Longrightarrow> takes E (os @ [c]) rest e l res \<Longrightarrow> takes E os (c # rest) e l res"
  by (rule takes_step) (auto simp: quiet_def ew_case_def case_pop_def chr_def nested_facts)

lemma rd_cr: "at os rest e l w \<Longrightarrow> rd w (sp w) = (case rest of [] \<Rightarrow> 0 | c # _ \<Rightarrow> c)"
  by (cases rest) (auto simp: rd_rest, auto simp: at_def rd_def)

lemma takes_literal:
  assumes "c \<noteq> 0" "c \<noteq> 39" "c = 92 \<Longrightarrow> e = None \<and> (rest = [] \<or> hd rest \<noteq> 13)" "takes E (os @ [c]) rest e True res"
  shows "takes E os (c # rest) e True res"
proof (rule takes_step [OF assms(1) _ assms(4)])
  fix w assume a: "at (os @ [c]) rest e True w"
  let ?n = "lexstate (ST_NESTED (crnl E)) c"
  have "?n \<noteq> S_LIT" using assms(2) nested_facts(2) by simp
  moreover have "?n = S_ESC \<Longrightarrow> case_esc E 0 w = w"
    using assms(3) nested_facts(5) a rd_cr [OF a] by (cases rest) (auto simp: case_esc_def at_def Let_def)
  moreover have "inlit w" using a by (simp add: at_def)
  moreover have "at (os @ [c]) rest e True (w\<lparr>xp := x\<rparr>)" for x using a by (simp add: at_def)
  ultimately show "ew_case E 0 ?n w = w \<or> at (os @ [c]) rest e True (ew_case E 0 ?n w)"
    using a by (simp add: ew_case_def case_quote_def case_dol_def case_pop_def case_bract_def Let_def)
qed

text \<open>Opening and closing quotes; the quote itself is taken back.\<close>

lemma at_back:
  assumes "at (os @ [c]) rest e l w"
  shows "take (dp w - 1) (mem w) = os" "dp w = Suc (length os)"
proof -
  show d: "dp w = Suc (length os)" using at_lengths [OF assms] by simp
  have "take (length os) (mem w) = take (length os) (take (dp w) (mem w))" using d by simp
  also have "take (dp w) (mem w) = os @ [c]" using assms by (simp add: at_def)
  finally show "take (dp w - 1) (mem w) = os" using d by simp
qed

lemma drop_over: "length xs = k \<Longrightarrow> k \<le> n \<Longrightarrow> drop n (xs @ drop k ys) = drop n ys"
  by simp

lemma take_cstr: "take (length (cstr s)) s = cstr s"
  unfolding cstr_def by (induction s) auto

lemma takes_quote:
  assumes "\<And>w. at (os @ [39]) rest e l w \<Longrightarrow> at os' rest e' l' (case_lit E 0 w)" "takes E os' rest e' l' res"
  shows "takes E os (39 # rest) e l res"
  unfolding takes_def
proof (intro allI impI)
  fix w f assume a: "at os (39 # rest) e l w" and f: "length ((39 :: byte) # rest) \<le> f"
  obtain g where g: "f = Suc g" using f by (cases f) auto
  have n: "lexstate (ST_NESTED (crnl E)) 39 = S_LIT" using nested_facts(2) by simp
  have "at os' rest e' l' (case_lit E 0 (step 39 w))" by (rule assms(1) [OF at_step [OF a]])
  moreover have "ew_next E f w = ew_next E g (case_lit E 0 (step 39 w))"
    using ew_next_step [OF a, of E g] g n by (simp add: Let_def ew_case_def)
  ultimately show "\<exists>w'. ew_next E f w = Some w' \<and> ew_word w' = res"
    using assms(2) f g by (auto simp: takes_def)
qed

lemma takes_open:
  assumes "takes E os rest None (\<not> l) res"
  shows "takes E os (39 # rest) None l res"
proof (rule takes_quote [OF _ assms])
  fix w assume a: "at (os @ [39]) rest None l w"
  then show "at os rest None (\<not> l) (case_lit E 0 w)"
    using at_back [OF a] by (auto simp: at_def case_lit_def odd_quote_def Let_def)
qed

lemma takes_close_ansi:
  assumes "takes E (os @ cstr (stresc (loc E) body)) rest None False res"
    and "0 \<notin> set body" "length (stresc (loc E) body) \<le> length body"
  shows "takes E (os @ body) (39 # rest) (Some (length os)) True res"
proof (rule takes_quote [OF _ assms(1)])
  fix w assume a: "at ((os @ body) @ [39]) rest (Some (length os)) True w"
  let ?s = "stresc (loc E) body" and ?n = "length os + length body"
  let ?m = "(mem w)[?n := 0]"
  have d: "take ?n (mem w) = os @ body" "dp w = Suc ?n" using at_back [OF a] by simp_all
  have l: "Suc ?n \<le> sp w" "sp w \<le> length (mem w)" using a d(2) by (simp_all add: at_def)
  have tk: "take (length os) (mem w) = os"
    using d(1) by (metis append_eq_conv_conj le_add1 min.absorb1 take_take)
  have "take (Suc ?n) ?m = (os @ body) @ [0]" using l d(1) by (simp add: take_Suc_conv_app_nth)
  then have m: "?m = os @ body @ 0 # drop (Suc ?n) (mem w)"
    using append_take_drop_id [of "Suc ?n" ?m] by (simp add: drop_update_cancel)
  have e: "drop (length os) ?m = body @ 0 # drop (Suc ?n) (mem w)" "take (length os) ?m = os" using m by simp_all
  then have c: "cstr (drop (length os) ?m) = body" using assms(2) by (simp add: cstr_append)
  let ?k = "length os + Suc (length ?s)"
  have k: "?k \<le> sp w" using assms(3) l by simp
  have "drop (sp w) (os @ (?s @ [0]) @ drop ?k ?m) = drop (sp w) ?m"
    using drop_over [of "os @ ?s @ [0]" ?k "sp w" ?m] k by simp
  also have "\<dots> = rest" using l a by (simp add: drop_update_cancel at_def)
  finally have r: "drop (sp w) (os @ (?s @ [0]) @ drop ?k ?m) = rest" .
  have "length (cstr ?s) \<le> length ?s" by (simp add: cstr_def length_takeWhile_le)
  then have len: "length os + length (cstr ?s) \<le> sp w" using k by simp
  let ?mem = "os @ (?s @ [0]) @ drop ?k ?m"
  have w: "\<not> odd_quote w" "inlit w" "ep w = Some (length os)" "dp w - 1 = ?n" using a d(2) by (simp_all add: at_def odd_quote_def)
  have eq: "case_lit E 0 w = w\<lparr>mem := ?mem, dp := length os + length (cstr ?s), ep := None, inlit := False\<rparr>"
    using w by (simp add: case_lit_def Let_def put_def puts_def c e(2))
  have "take (length os + length (cstr ?s)) ?mem = os @ cstr ?s"
    using take_cstr [of ?s] \<open>length (cstr ?s) \<le> length ?s\<close> by simp
  then show "at (os @ cstr ?s) rest None False (case_lit E 0 w)"
    unfolding eq using a r len k l by (simp add: at_def)
qed

lemma takes_ansi_open:
  assumes "takes E os rest (Some (length os)) True res"
  shows "takes E os (36 # 39 # rest) None False res"
  unfolding takes_def
proof (intro allI impI)
  fix w f assume a: "at os (36 # 39 # rest) None False w" and f: "length ((36 :: byte) # 39 # rest) \<le> f"
  obtain g where g: "f = Suc g" using f by (cases f) auto
  have n: "lexstate (ST_NESTED (crnl E)) 36 = S_DOL" using nested_facts(4) by simp
  let ?w = "step 36 w"
  have b: "at (os @ [36]) (39 # rest) None False ?w" by (rule at_step [OF a])
  have "drop (Suc (sp ?w)) (mem ?w) = tl (drop (sp ?w) (mem ?w))" by (simp add: drop_Suc tl_drop)
  then have "drop (Suc (sp ?w)) (mem ?w) = rest" using b by (simp add: at_def)
  moreover have "rd ?w (sp ?w) = 39" by (rule rd_rest [OF b])
  moreover have "Suc (sp ?w) \<le> length (mem ?w)" using at_lengths [OF b] by simp
  moreover have "chr CHR ''('' \<noteq> 39" "chr CHR ''{'' \<noteq> 39" by (simp_all add: chr_def)
  ultimately have "at os rest (Some (length os)) True (case_dol 0 ?w)"
    using b at_back [OF b] by (auto simp: at_def case_dol_def odd_quote_def Let_def)
  moreover have "ew_next E f w = ew_next E g (case_dol 0 ?w)"
    using ew_next_step [OF a, of E g] g n by (simp add: Let_def ew_case_def)
  ultimately show "\<exists>w'. ew_next E f w = Some w' \<and> ew_word w' = res"
    using assms f g by (auto simp: takes_def)
qed

lemma takes_ansi_escape:
  assumes "takes E (os @ [92, x]) rest (Some e) True res" "x \<noteq> 13"
  shows "takes E os (92 # x # rest) (Some e) True res"
  unfolding takes_def
proof (intro allI impI)
  fix w f assume a: "at os (92 # x # rest) (Some e) True w" and f: "length (92 # x # rest) \<le> f"
  obtain g where g: "f = Suc g" using f by (cases f) auto
  have n: "lexstate (ST_NESTED (crnl E)) 92 = S_ESC" using nested_facts(5) by simp
  have b: "at (os @ [92]) (x # rest) (Some e) True (step 92 w)" by (rule at_step [OF a])
  have "case_esc E 0 (step 92 w) = step x (step 92 w)"
    using b rd_rest [OF b] assms(2) by (auto simp: at_def case_esc_def Let_def step_def out_def)
  then have "at (os @ [92, x]) rest (Some e) True (case_esc E 0 (step 92 w))" using at_step [OF b] by simp
  moreover have "ew_next E f w = ew_next E g (case_esc E 0 (step 92 w))"
    using ew_next_step [OF a, of E g] g n by (simp add: Let_def ew_case_def)
  ultimately show "\<exists>w'. ew_next E f w = Some w' \<and> ew_word w' = res"
    using assms(1) f g by (auto simp: takes_def)
qed

section \<open>The text between \<open>$'\<close> and \<open>'\<close>\<close>

lemma hex_facts:
  "hexdigit (hex_char (c div 16)) = Some (ucast (c div 16))" "hexdigit (hex_char (c mod 16)) = Some (ucast (c mod 16))"
  "push_bit 4 (ucast (c div 16)) + ucast (c mod 16) = (ucast c :: cint)" "\<not> (ucast c :: cint) <s 0"
  "hex_char (c div 16) \<noteq> 0" "hex_char (c mod 16) \<noteq> 0" "hex_char (c div 16) \<notin> {39, 92}" "hex_char (c mod 16) \<notin> {39, 92}"
proof -
  have "\<forall>c. hexdigit (hex_char (c div 16)) = Some (ucast (c div 16)) \<and> hexdigit (hex_char (c mod 16)) = Some (ucast (c mod 16)) \<and>
    push_bit 4 (ucast (c div 16)) + ucast (c mod 16) = (ucast c :: cint) \<and> \<not> (ucast c :: cint) <s 0 \<and>
    hex_char (c div 16) \<noteq> 0 \<and> hex_char (c mod 16) \<noteq> 0 \<and> hex_char (c div 16) \<notin> {39, 92} \<and> hex_char (c mod 16) \<notin> {39, 92}"
    unfolding byte_all by code_simp
  then show "hexdigit (hex_char (c div 16)) = Some (ucast (c div 16))" "hexdigit (hex_char (c mod 16)) = Some (ucast (c mod 16))"
    "push_bit 4 (ucast (c div 16)) + ucast (c mod 16) = (ucast c :: cint)" "\<not> (ucast c :: cint) <s 0"
    "hex_char (c div 16) \<noteq> 0" "hex_char (c mod 16) \<noteq> 0" "hex_char (c div 16) \<notin> {39, 92}" "hex_char (c mod 16) \<notin> {39, 92}"
    by blast+
qed

lemma hexdigit_bracket: "hexdigit 91 = None" "hexdigit 93 = None"
  by (simp_all add: hexdigit_def)

definition all_exp :: "fmt_exp set" where
  "all_exp = {ExpChar, ExpLine, ExpWide}"

lemma chrexp_letter:
  assumes "escape_letter c = Some l"
  shows "chrexp L all_exp (92 # l # s) = (ucast c, s, False)" "l \<noteq> 0" "l \<noteq> 13"
  using assms by (auto simp: escape_letter_def chr_def octdigit_def all_exp_def Let_def split: if_splits)

lemma chrexp_hex_ok:
  "chrexp L all_exp ([92] @ str ''x'' @ hex2 c @ s) = (ucast c, s, False)"
  "chrexp L all_exp ([92] @ str ''x['' @ hex2 c @ str '']'' @ s) = (ucast c, s, False)"
proof -
  have h: "hexloop False 0 False False v n s = (v, n, s)" for v n by (cases s) simp_all
  show "chrexp L all_exp ([92] @ str ''x'' @ hex2 c @ s) = (ucast c, s, False)"
    by (simp add: str_def chr_def hex2_def octdigit_def chrexp_hex_def all_exp_def Let_def hex_facts(1,2,3) h)
  show "chrexp L all_exp ([92] @ str ''x['' @ hex2 c @ str '']'' @ s) = (ucast c, s, False)"
    by (simp add: str_def chr_def hex2_def octdigit_def chrexp_hex_def all_exp_def Let_def hex_facts(1,2,3) hexdigit_bracket skip_uplus_def)
qed

text \<open>Expanding the escapes gives the characters back.\<close>

lemma cint_byte: "ucast (ucast c :: cint) = (c :: byte)"
proof -
  have "\<forall>c. ucast (ucast c :: cint) = (c :: byte)" unfolding byte_all by code_simp
  then show ?thesis by blast
qed

lemma strexp_escape:
  assumes "chrexp L all_exp (92 # t) = (ucast c, s, False)"
  shows "stresc L (92 # t) = c # stresc L s"
  using assms hex_facts(4) [of c] by (simp add: stresc_def all_exp_def [symmetric] cint_byte del: chrexp.simps)

lemma escape_letter_chars: "escape_letter c = None \<Longrightarrow> c \<noteq> 92 \<and> c \<noteq> 39"
  by (auto simp: escape_letter_def split: if_splits)

lemma stresc_fmt_ansi: "stresc L (fmt_ansi L s) = s"
proof (induction s)
  case (Cons c s)
  show ?case
  proof (cases "escape_letter c")
    case None
    have "stresc L ([92] @ str ''x'' @ hex2 c @ fmt_ansi L s) = c # s"
      "stresc L ([92] @ str ''x['' @ hex2 c @ str '']'' @ fmt_ansi L s) = c # s"
      using strexp_escape [of L "str ''x'' @ hex2 c @ fmt_ansi L s" c] strexp_escape [of L "str ''x['' @ hex2 c @ str '']'' @ fmt_ansi L s" c]
        chrexp_hex_ok [of L c "fmt_ansi L s"] Cons by simp_all
    moreover have "stresc L (c # fmt_ansi L s) = c # s"
      using escape_letter_chars [OF None] Cons by (simp add: stresc_def)
    ultimately show ?thesis using None by simp
  next
    case (Some l)
    then show ?thesis using strexp_escape [OF chrexp_letter(1) [OF Some]] Cons by simp
  qed
qed (simp add: stresc_def)

lemma fmt_ansi_length: "length s \<le> length (fmt_ansi L s)"
proof (induction s)
  case (Cons c s)
  then show ?case by (cases "escape_letter c") simp_all
qed simp

lemma fmt_ansi_nul: "0 \<notin> set s \<Longrightarrow> 0 \<notin> set (fmt_ansi L s)"
proof (induction s)
  case (Cons c s)
  then show ?case
    using hex_facts(5,6) [of c] chrexp_letter(2) [of c]
    by (cases "escape_letter c") (auto simp: str_def chr_def hex2_def)
qed simp

text \<open>Reading the text through the quotes.\<close>

lemma takes_fmt_ansi:
  assumes "takes E (os @ fmt_ansi L s) rest (Some e) True res" "0 \<notin> set s"
  shows "takes E os (fmt_ansi L s @ rest) (Some e) True res"
  using assms
proof (induction s arbitrary: os)
  case (Cons c s)
  have h: "hex_char (c div 16) \<noteq> 0" "hex_char (c mod 16) \<noteq> 0" "hex_char (c div 16) \<noteq> 39" "hex_char (c mod 16) \<noteq> 39"
    "hex_char (c div 16) \<noteq> 92" "hex_char (c mod 16) \<noteq> 92"
    using hex_facts(5-8) [of c] by auto
  have x: "chr CHR ''x'' \<noteq> 13" "chr CHR ''['' \<notin> {0, 39, 92}" "chr CHR '']'' \<notin> {0, 39, 92}" by (simp_all add: chr_def)
  have IH: "takes E (os @ xs) (fmt_ansi L s @ rest) (Some e) True res" if "takes E ((os @ xs) @ fmt_ansi L s) rest (Some e) True res" for xs
    using Cons.IH [OF that] Cons.prems(2) by simp
  show ?case
  proof (cases "escape_letter c")
    case None
    then show ?thesis
      using Cons.prems escape_letter_chars [OF None] h x
      by (auto simp: hex2_def str_def intro!: takes_ansi_escape takes_literal IH split: if_splits)
  next
    case (Some l)
    then show ?thesis
      using Cons.prems chrexp_letter(3) [OF Some]
      by (auto intro!: takes_ansi_escape IH)
  qed
qed simp

end
