(* ===== verification/QuoteTrip.thy ===== *)
theory QuoteTrip
  imports QuoteRead
begin

text \<open>
  \<open>endword\<close> with mode 0 gives back what \<open>sh_fmtq\<close> quoted.
\<close>

section \<open>The whole word\<close>

text \<open>The first phase of \<open>endword\<close> skips, which is copying in place.\<close>

lemma ew_skip_dp:
  "ew_skip E k (w\<lparr>dp := d\<rparr>) = map_option (\<lambda>(n, v). (n, v\<lparr>dp := d\<rparr>)) (ew_skip E k w)"
proof (induction k arbitrary: w)
  case (Suc k)
  have eq: "w\<lparr>dp := d, sp := Suc (sp w)\<rparr> = w\<lparr>sp := Suc (sp w), dp := d\<rparr>" by simp
  show ?case using Suc [of "w\<lparr>sp := Suc (sp w)\<rparr>"] by (simp add: Let_def rd_def eq)
qed simp

lemma ew_copy_skip:
  "dp w = sp w \<Longrightarrow> ew_copy E k w = map_option (\<lambda>(n, v). (n, v\<lparr>dp := sp v\<rparr>)) (ew_skip E k w)"
proof (induction k arbitrary: w)
  case (Suc k)
  let ?w = "w\<lparr>sp := Suc (sp w)\<rparr>"
  have m: "(mem w)[sp w := rd w (sp w)] = mem w" by (simp add: rd_def list_update_beyond)
  have o: "(out (rd w (sp w)) w)\<lparr>sp := Suc (sp w)\<rparr> = ?w\<lparr>dp := sp ?w\<rparr>"
    using Suc.prems m by (simp add: out_def put_def)
  have "ew_copy E k (?w\<lparr>dp := sp ?w\<rparr>) = map_option (\<lambda>(n, v). (n, v\<lparr>dp := sp v\<rparr>)) (ew_skip E k (?w\<lparr>dp := sp ?w\<rparr>))"
    by (rule Suc.IH) simp
  also have "\<dots> = map_option (\<lambda>(n, v). (n, v\<lparr>dp := sp v\<rparr>)) (ew_skip E k ?w)"
    unfolding ew_skip_dp by (cases "ew_skip E k ?w") (auto split: prod.splits)
  finally show ?case using o by (simp add: Let_def)
qed simp

lemma endword_takes:
  assumes "takes E [] (word @ [0]) None False res"
  shows "\<exists>w. endword E 0 word = Some w \<and> ew_word w = res"
proof -
  let ?w = "\<lparr>mem = word @ [0], sp = 0, dp = 0, ep = None, xp = None, inquote = 0, inlit = False,
           bracket = 0, printed = []\<rparr> :: ew"
  have "at [] (word @ [0]) None False ?w" by (simp add: at_def)
  then obtain w' where w': "ew_next E (length word + 2) ?w = Some w'" "ew_word w' = res"
    using assms that unfolding takes_def by (elim allE [of _ ?w] allE [of _ "length word + 2"]) auto
  have keep: "ew_skip E k v = Some (n, u) \<Longrightarrow> inquote u = inquote v" for k v n u
    by (induction k arbitrary: v) (auto simp: Let_def split: if_splits)
  have same: "inquote v = 0 \<Longrightarrow> v\<lparr>dp := d, inquote := 0\<rparr> = v\<lparr>dp := d\<rparr>" for v :: ew and d by (cases v) simp
  have "endword E 0 word = ew_next E (length word + 2) ?w"
    using ew_copy_skip [of ?w E "Suc (length word)"] keep [of "Suc (length word)" ?w]
    by (auto simp: endword_def ew_next_def same simp del: ew_skip.simps ew_copy.simps ew_loop.simps split: option.splits prod.splits)
  then show ?thesis using w' by simp
qed

lemma takes_quiets:
  "\<forall>c\<in>set s. quiet c \<Longrightarrow> takes E (os @ s) rest e l res \<Longrightarrow> takes E os (s @ rest) e l res"
  by (induction s arbitrary: os) (auto intro!: takes_quiet)

lemma takes_literals:
  "\<forall>c\<in>set s. c \<notin> {0, 39, 13} \<Longrightarrow> rest \<noteq> [] \<Longrightarrow> hd rest \<noteq> 13 \<Longrightarrow> takes E (os @ s) rest None True res \<Longrightarrow>
    takes E os (s @ rest) None True res"
proof (induction s arbitrary: os)
  case (Cons c s)
  have "hd (s @ rest) \<noteq> 13" using Cons.prems by (cases s) auto
  then show ?case using Cons by (auto intro!: takes_literal)
qed simp

text \<open>The characters \<open>sh_fmtq\<close> leaves alone.\<close>

lemma name_quiet:
  assumes "isaname b alpha c \<or> c = chr CHR ''.'' \<or> c = chr CHR ''='' \<or> c = chr CHR ''+''"
  shows "quiet c \<and> c \<notin> {0, 39, 13}"
proof -
  have "\<not> (isaname b alpha 0 \<or> isaname b alpha 13 \<or> isaname b alpha 34 \<or> isaname b alpha 36 \<or>
    isaname b alpha 39 \<or> isaname b alpha 91 \<or> isaname b alpha 92 \<or> isaname b alpha 93)"
    unfolding isaname_def lexstate_def ST_NAME_def by (cases b) (simp_all only:, code_simp+)
  then show ?thesis using assms by (auto simp: quiet_def chr_def)
qed

lemma letter_name: "isaletter b alpha c \<Longrightarrow> isaname b alpha c"
proof -
  have "\<forall>c. lexstate (ST_DOL b) c = S_ALP \<and> c \<noteq> 46 \<longrightarrow> lexstate (ST_NAME b) c = 0"
    unfolding byte_all lexstate_def ST_NAME_def ST_DOL_def by (cases b) (simp_all only:, code_simp+)
  then show "isaletter b alpha c \<Longrightarrow> isaname b alpha c" by (simp add: isaletter_def isaname_def split: if_splits)
qed

lemma plain_quiet:
  assumes "\<not> special b c" "c \<noteq> 0" "c \<noteq> 39"
  shows "quiet c"
proof -
  have "special b 34 \<and> special b 36 \<and> special b 91 \<and> special b 92 \<and> special b 93"
    unfolding special_def lexstate_def ST_NORM_def by (cases b) (simp_all only:, code_simp+)
  then show ?thesis using assms by (auto simp: quiet_def)
qed

lemma fmt_scan_stays: "n \<in> {2, 3} \<Longrightarrow> fmt_scan L b n s \<in> {2, 3}"
proof (induction s arbitrary: n)
  case (Cons c s)
  have "(2 :: nat) OR 1 = 3" "(3 :: nat) OR 1 = 3" by simp_all
  then have "n OR 1 \<in> {2, 3}" using Cons.prems by auto
  then show ?case using Cons by simp
qed simp

lemma fmt_scan_plain:
  assumes "fmt_scan L b n s < 2" "n < 2"
  shows "\<forall>c\<in>set s. c \<noteq> 39 \<and> isprint L c" "fmt_scan L b n s = 0 \<Longrightarrow> \<forall>c\<in>set s. \<not> special b c"
proof -
  have "(\<forall>c\<in>set s. c \<noteq> 39 \<and> isprint L c) \<and> (fmt_scan L b n s = 0 \<longrightarrow> n = 0 \<and> (\<forall>c\<in>set s. \<not> special b c))"
    using assms
  proof (induction s arbitrary: n)
    case (Cons c s)
    have o: "n OR 1 = 1" using Cons.prems(2) by (auto simp: less_2_cases_iff)
    have "\<not> fmt_scan L b 2 s < 2" using fmt_scan_stays [of 2 L b s] by auto
    then have "\<not> (c = 39 \<or> \<not> isprint L c)" using Cons.prems(1) by (auto split: if_splits)
    then show ?case using Cons.IH [of 1] Cons.IH [of n] Cons.prems o by (auto split: if_splits)
  qed simp
  then show "\<forall>c\<in>set s. c \<noteq> 39 \<and> isprint L c" "fmt_scan L b n s = 0 \<Longrightarrow> \<forall>c\<in>set s. \<not> special b c" by auto
qed

lemma takes_fmt_word:
  assumes "\<forall>c\<in>set pre. quiet c \<and> c \<notin> {0, 39, 13}" "0 \<notin> set scan" "\<not> isprint (loc E) 13" "0 \<notin> set os"
  shows "takes E os (fmt_word (loc E) (crnl E) (pre @ scan) scan @ [0]) None False (os @ pre @ scan)"
proof -
  let ?n = "if scan = [] \<or> hd scan = chr CHR ''#'' \<or> hd scan = chr CHR ''~'' then 1 else 0 :: nat"
  let ?st = "fmt_scan (loc E) (crnl E) ?n scan" and ?s = "pre @ scan"
  have z: "0 \<notin> set (os @ ?s)" using assms by auto
  have fin: "takes E (os @ ?s) [0] None False (os @ ?s)" by (rule takes_end [OF z])
  consider "?st = 0" | "?st = 1" | "\<not> ?st < 2" by linarith
  then show ?thesis
  proof cases
    case 1
    then have l: "?st < 2" by simp
    have "?n < 2" by simp
    note p = fmt_scan_plain(1) [OF l this] fmt_scan_plain(2) [OF l this 1]
    then have "\<forall>c\<in>set scan. quiet c" using plain_quiet assms(2) by blast
    then have "\<forall>c\<in>set ?s. quiet c" using assms(1) by auto
    then have "takes E os (?s @ [0]) None False (os @ ?s)" by (rule takes_quiets [OF _ fin])
    then show ?thesis using 1 by (simp add: fmt_word_def Let_def)
  next
    case 2
    then have "\<forall>c\<in>set scan. c \<noteq> 39 \<and> isprint (loc E) c" using fmt_scan_plain(1) [of "loc E" "crnl E" ?n scan] by auto
    then have l: "\<forall>c\<in>set ?s. c \<notin> {0, 39, 13}" using assms by auto
    have "takes E (os @ ?s) [39, 0] None True (os @ ?s)" by (rule takes_open) (use fin in simp)
    then have "takes E os (?s @ [39, 0]) None True (os @ ?s)" by (intro takes_literals [OF l]) simp_all
    then have "takes E os (39 # ?s @ [39, 0]) None False (os @ ?s)" by (intro takes_open) simp
    then show ?thesis using 2 by (simp add: fmt_word_def Let_def)
  next
    case 3
    let ?b = "fmt_ansi (loc E) ?s"
    have s0: "0 \<notin> set ?s" using z by auto
    have e: "stresc (loc E) ?b = ?s" by (rule stresc_fmt_ansi)
    have "cstr ?s = ?s" using s0 by (auto simp: cstr_def takeWhile_eq_all_conv)
    then have "takes E (os @ ?b) (39 # [0]) (Some (length os)) True (os @ ?s)"
      using takes_close_ansi [of E os ?b "[0]" "os @ ?s"] fin e fmt_ansi_nul [OF s0] fmt_ansi_length [of ?s "loc E"] by simp
    then have "takes E os (?b @ 39 # [0]) (Some (length os)) True (os @ ?s)"
      by (rule takes_fmt_ansi [OF _ s0])
    then have "takes E os (36 # 39 # ?b @ 39 # [0]) None False (os @ ?s)" by (rule takes_ansi_open)
    then show ?thesis using 3 by (simp add: fmt_word_def Let_def str_def chr_def)
  qed
qed

text \<open>
  C9. Quoting and unquoting: in a locale where CR does not print, for every string \<open>sh_fmtq\<close> gives a word
  from which \<open>endword\<close> with mode 0 takes exactly that string again.  The word may be of any of the
  five forms: the string itself, \<open>'...'\<close>, \<open>$'...'\<close> with escapes, and an assignment whose value is quoted
  in one of these ways.
\<close>

theorem sh_fmtq_round_trip:
  assumes "0 \<notin> set s" "\<not> isprint (loc E) 13"
  shows "\<exists>w. endword E 0 (sh_fmtq (loc E) (crnl E) s) = Some w \<and> ew_word w = s"
proof -
  let ?nm = "\<lambda>c. isaname (crnl E) (isalpha (loc E)) c \<or> c = chr CHR ''.''"
  let ?name = "s \<noteq> [] \<and> (isaletter (crnl E) (isalpha (loc E)) (hd s) \<or> hd s = chr CHR ''.'')"
  let ?rest = "if ?name then dropWhile ?nm (tl s) else s"
  have nm: "?nm c \<or> c = chr CHR ''='' \<or> c = chr CHR ''+'' \<Longrightarrow> quiet c \<and> c \<notin> {0, 39, 13}" for c
    using name_quiet by blast
  have letter: "?nm c" if "isaletter (crnl E) (isalpha (loc E)) c \<or> c = chr CHR ''.''" for c
    using that letter_name by blast
  define pre where "pre = (if ?name then hd s # takeWhile ?nm (tl s) else [])"
  have split: "s = pre @ ?rest"
    using takeWhile_dropWhile_id [of ?nm "tl s"] by (cases s) (auto simp: pre_def simp del: takeWhile_dropWhile_id)
  have pre: "\<forall>c\<in>set pre. ?nm c"
    using letter by (auto simp: pre_def dest: set_takeWhileD split: if_splits)
  have word: "takes E [] (fmt_word (loc E) (crnl E) (p @ r) r @ [0]) None False s"
    if "s = p @ r" "\<forall>c\<in>set p. ?nm c \<or> c = chr CHR ''='' \<or> c = chr CHR ''+''" for p r
    using takes_fmt_word [of p r E "[]"] that assms nm by auto
  have whole: "takes E [] (s @ [0]) None False s" if "\<forall>c\<in>set s. ?nm c \<or> c = chr CHR ''='' \<or> c = chr CHR ''+''"
    using that nm assms takes_quiets [of s E "[]" "[0]"] takes_end [of s] by auto
  have "takes E [] (sh_fmtq (loc E) (crnl E) s @ [0]) None False s"
  proof -
    let ?e = "\<lambda>r. hd r = chr CHR ''=''" and ?R = "takes E [] (sh_fmtq (loc E) (crnl E) s @ [0]) None False s"
    have assign: "takes E [] (take (length s - length r) s @ fmt_word (loc E) (crnl E) r r @ [0]) None False s"
      if "s = p @ r" "\<forall>c\<in>set p. ?nm c \<or> c = chr CHR ''='' \<or> c = chr CHR ''+''" for p r
      using takes_fmt_word [of "[]" r E p] takes_quiets [of p E "[]"] that assms nm by auto
    obtain r where r: "?rest = r" by blast
    have s: "s = pre @ r" using split r by simp
    consider "?name" "r = []" | "?name" "r \<noteq> []" "?e r \<or> hd r = chr CHR ''+'' \<and> tl r \<noteq> [] \<and> ?e (tl r)"
      | "\<not> ?name \<or> r \<noteq> [] \<and> \<not> (?e r \<or> hd r = chr CHR ''+'' \<and> tl r \<noteq> [] \<and> ?e (tl r))" by blast
    then show ?R
    proof cases
      case 1
      then show ?thesis using whole pre r s by (simp add: sh_fmtq_def Let_def)
    next
      case 2
      then obtain x cp where x: "r = x # cp" "x = chr CHR ''='' \<or> x = chr CHR ''+''" by (cases r) auto
      define q where "q = (if ?e cp then tl cp else cp)"
      show ?thesis
      proof (cases "cp = []")
        case True
        then have "sh_fmtq (loc E) (crnl E) s = s" using 2 r x by (simp add: sh_fmtq_def Let_def)
        then show ?thesis using whole pre s x True by auto
      next
        case False
        then have f: "sh_fmtq (loc E) (crnl E) s = take (length s - length q) s @ fmt_word (loc E) (crnl E) q q"
          using 2 r x by (simp add: sh_fmtq_def Let_def q_def)
        have d: "s = (pre @ x # (if ?e cp then [hd cp] else [])) @ q" using s x False by (cases cp) (auto simp: q_def)
        have "\<forall>c\<in>set (pre @ x # (if ?e cp then [hd cp] else [])). ?nm c \<or> c = chr CHR ''='' \<or> c = chr CHR ''+''"
          using pre x by auto
        from assign [OF d this] show ?thesis unfolding f by simp
      qed
    next
      case 3
      then have "sh_fmtq (loc E) (crnl E) s = fmt_word (loc E) (crnl E) s r" using r by (auto simp: sh_fmtq_def Let_def)
      then show ?thesis using word [OF s] pre s by auto
    qed
  qed
  then show ?thesis by (rule endword_takes)
qed

definition C_locale :: clocale where
  "C_locale = \<lparr>isprint = (\<lambda>c. 32 \<le> c \<and> c \<le> 126), isalpha = (\<lambda>c. 65 \<le> c \<and> c \<le> 90 \<or> 97 \<le> c \<and> c \<le> 122),
    up_case = (\<lambda>c. if 97 \<le>s c \<and> c \<le>s 122 then c - 32 else c), sevenbit = False, from_utf32 = (\<lambda>c. c), mbconv = (\<lambda>c. [ucast c])\<rparr>"

definition C_env :: ewenv where
  "C_env = \<lparr>loc = C_locale, crnl = False, translate = (\<lambda>s. s), before = 0\<rparr>"

theorem sh_fmtq_round_trip_witness:
  "sh_fmtq C_locale False (str ''v=it'' @ [39] @ str ''s'' @ [10]) =
    str ''v=$'' @ [39] @ str ''it'' @ [92, 39] @ str ''s'' @ [92] @ str ''n'' @ [39] \<and>
   (\<exists>w. endword C_env 0 (sh_fmtq C_locale False (str ''v=it'' @ [39] @ str ''s'' @ [10])) = Some w \<and>
      ew_word w = str ''v=it'' @ [39] @ str ''s'' @ [10])"
proof -
  have "sh_fmtq C_locale False (str ''v=it'' @ [39] @ str ''s'' @ [10]) =
    str ''v=$'' @ [39] @ str ''it'' @ [92, 39] @ str ''s'' @ [92] @ str ''n'' @ [39]"
    unfolding C_locale_def by code_simp
  then show ?thesis
    using sh_fmtq_round_trip [of "str ''v=it'' @ [39] @ str ''s'' @ [10]" C_env]
    by (simp add: C_env_def C_locale_def str_def chr_def)
qed

end
