(* ===== verification/XecState.thy ===== *)
theory XecState
  imports ShNodes TestExpr
begin

text \<open>
  The executor of parse trees, \<open>sh_exec\<close> of \<open>src/src/cmd/ksh26/sh/xec.c\<close>: the state it keeps, what
  it asks of the rest of the shell, and the way its parts are put together.
\<close>

section \<open>State\<close>

text \<open>
  The fields of \<open>sh\<close>, \<open>sh.st\<close> and \<open>job\<close> that the function reads or writes; \<open>jmplist\<close> has the modes of the
  checkpoints, the innermost first; \<open>world\<close> is the rest of the process.
\<close>

record 'w xst =
  exitval :: cint
  savexit :: cint
  lastsig :: cint
  chldexitsig :: cint
  trapnote :: cint
  breakcnt :: cint
  loopcnt :: cint
  states :: cint
  jmplist :: "cint list"
  errline :: cint
  firstline :: cint
  pipepid :: cint
  waitall :: cint
  pipejob :: cint
  nlock :: cint
  curpgid :: cint
  curjobid :: cint
  ioset :: cint
  nextprompt :: cint
  timeout :: cint
  world :: 'w

text \<open>Flags of \<open>shell.h\<close>, \<open>argnod.h\<close>, \<open>fault.h\<close> and \<open>shnodes.h\<close>.\<close>

abbreviation SH_NOFORK :: nat where "SH_NOFORK \<equiv> 0"
abbreviation SH_ERREXIT :: nat where "SH_ERREXIT \<equiv> 2"
abbreviation SH_MONITOR :: nat where "SH_MONITOR \<equiv> 4"
abbreviation SH_INTERACTIVE :: nat where "SH_INTERACTIVE \<equiv> 5"
abbreviation SH_FORKED :: nat where "SH_FORKED \<equiv> 7"
abbreviation SH_XTRACE :: nat where "SH_XTRACE \<equiv> 7"
abbreviation SH_TIMING :: nat where "SH_TIMING \<equiv> 13"
abbreviation SH_DEFPATH :: nat where "SH_DEFPATH \<equiv> 14"
abbreviation SH_XARG :: nat where "SH_XARG \<equiv> 21"
abbreviation SH_NOEXEC :: nat where "SH_NOEXEC \<equiv> 22"

definition SH_POSIX :: nat where "SH_POSIX = 46"
definition SH_PIPEFAIL :: nat where "SH_PIPEFAIL = 32"

abbreviation ARG_MAC :: byte where "ARG_MAC \<equiv> 4"
abbreviation ARG_EXPF :: cint where "ARG_EXPF \<equiv> 8"
abbreviation ARG_ARITH :: cint where "ARG_ARITH \<equiv> 0x100"
abbreviation ARG_OPTIMIZE :: cint where "ARG_OPTIMIZE \<equiv> 0x200"

abbreviation SH_SIGSET :: cint where "SH_SIGSET \<equiv> 4"
abbreviation SH_EXITSIG :: cint where "SH_EXITSIG \<equiv> 0x100"
abbreviation SH_EXITMASK :: cint where "SH_EXITMASK \<equiv> 0xff"
abbreviation SH_JMPEVAL :: cint where "SH_JMPEVAL \<equiv> 3"
abbreviation SH_JMPIO :: cint where "SH_JMPIO \<equiv> 5"
abbreviation SH_JMPFUN :: cint where "SH_JMPFUN \<equiv> 7"
abbreviation SH_JMPEXIT :: cint where "SH_JMPEXIT \<equiv> 11"

abbreviation TNEGATE :: cint where "TNEGATE \<equiv> 16"
abbreviation TTEST :: cint where "TTEST \<equiv> 128"
abbreviation TUN :: cint where "TUN \<equiv> 21"
abbreviation FAMP :: cint where "FAMP \<equiv> 64"
abbreviation FPIN :: cint where "FPIN \<equiv> 128"
abbreviation FPOU :: cint where "FPOU \<equiv> 512"
abbreviation FSHOWME :: cint where "FSHOWME \<equiv> 4096"

abbreviation IOMOV :: cint where "IOMOV \<equiv> 0x200"
abbreviation IORAW :: cint where "IORAW \<equiv> 0x1000"
abbreviation IOREWRITE :: cint where "IOREWRITE \<equiv> 0x80000"
abbreviation IOUFD :: cint where "IOUFD \<equiv> 0x3f"
abbreviation IOPUT :: cint where "IOPUT \<equiv> 0x40"
abbreviation IOAPP :: cint where "IOAPP \<equiv> 0x80"

definition sh_state :: "nat \<Rightarrow> cint" where
  "sh_state x = push_bit x 1"

definition sh_isstate :: "nat \<Rightarrow> 'w xst \<Rightarrow> bool" where
  "sh_isstate x s = (states s AND sh_state x \<noteq> 0)"

definition sh_onstate :: "nat \<Rightarrow> 'w xst \<Rightarrow> 'w xst" where
  "sh_onstate x s = s\<lparr>states := states s OR sh_state x\<rparr>"

definition sh_offstate :: "nat \<Rightarrow> 'w xst \<Rightarrow> 'w xst" where
  "sh_offstate x s = s\<lparr>states := states s AND NOT (sh_state x)\<rparr>"

definition exitset :: "'w xst \<Rightarrow> 'w xst" where
  "exitset s = s\<lparr>savexit := exitval s\<rparr>"

text \<open>\<open>sh_pushcontext\<close> and \<open>sh_popcontext\<close>\<close>

definition sh_pushcontext :: "cint \<Rightarrow> 'w xst \<Rightarrow> 'w xst" where
  "sh_pushcontext mode s = s\<lparr>jmplist := mode # jmplist s\<rparr>"

definition sh_popcontext :: "'w xst \<Rightarrow> 'w xst" where
  "sh_popcontext s = s\<lparr>jmplist := tl (jmplist s)\<rparr>"

definition jmpmode :: "'w xst \<Rightarrow> cint" where
  "jmpmode s = (case jmplist s of [] \<Rightarrow> 0 | m # _ \<Rightarrow> m)"

text \<open>The line number that messages show.\<close>

definition set_line :: "cint \<Rightarrow> 'w xst \<Rightarrow> 'w xst" where
  "set_line line s = s\<lparr>errline := line - firstline s\<rparr>"

section \<open>Computations\<close>

text \<open>
  A computation returns a value or leaves by \<open>siglongjmp\<close> to the innermost checkpoint with a non-zero value; \<open>None\<close> is
  a computation that has not returned with the fuel it had.
\<close>

datatype ('s, 'a) xresult = Done 'a 's | Jump cint 's

type_synonym ('s, 'a) xm = "'s \<Rightarrow> ('s, 'a) xresult option"

definition xret :: "'a \<Rightarrow> ('s, 'a) xm" where
  "xret a s = Some (Done a s)"

definition xbind :: "('s, 'a) xm \<Rightarrow> ('a \<Rightarrow> ('s, 'b) xm) \<Rightarrow> ('s, 'b) xm" where
  "xbind f g s =
    (case f s of
       None \<Rightarrow> None
     | Some (Jump j s') \<Rightarrow> Some (Jump j s')
     | Some (Done a s') \<Rightarrow> g a s')"

text \<open>A change of the state, and one that also gives a value.\<close>

definition xupd :: "('s \<Rightarrow> 's) \<Rightarrow> ('s, unit) xm" where
  "xupd h s = Some (Done () (h s))"

definition xcall :: "('s \<Rightarrow> 'a \<times> 's) \<Rightarrow> ('s, 'a) xm" where
  "xcall h s = (let (a, s') = h s in Some (Done a s'))"

text \<open>\<open>sigsetjmp\<close>: the value of the jump with which \<open>f\<close> has left, or its result.\<close>

definition xtry :: "('s, 'a) xm \<Rightarrow> ('s, cint + 'a) xm" where
  "xtry f s =
    (case f s of
       None \<Rightarrow> None
     | Some (Jump j s') \<Rightarrow> Some (Done (Inl j) s')
     | Some (Done a s') \<Rightarrow> Some (Done (Inr a) s'))"

definition xjump :: "cint \<Rightarrow> ('s, 'a) xm" where
  "xjump j s = Some (Jump j s)"

lemma x_simps [simp]:
  "xret a s = Some (Done a s)" "xupd h s = Some (Done () (h s))" "xjump j s = Some (Jump j s)"
  "xbind (xret a) g = g a" "xbind (xjump j) g = xjump j"
  by (simp_all add: xret_def xupd_def xjump_def xbind_def fun_eq_iff)

lemma xbind_Done: "f s = Some (Done a s') \<Longrightarrow> xbind f g s = g a s'"
  "f s = Some (Jump j s') \<Longrightarrow> xbind f g s = Some (Jump j s')"
  by (simp_all add: xbind_def)

lemma xbind_upd [simp]: "xbind (xupd h) g s = g () (h s)"
  by (simp add: xbind_def)

lemma xbind_assoc: "xbind (xbind f g) h = xbind f (\<lambda>a. xbind (g a) h)"
  by (simp add: xbind_def fun_eq_iff split: option.splits xresult.splits)

section \<open>What the executor asks\<close>

text \<open>The built-in commands it knows; \<open>BBreak\<close> says whether the name is \<open>continue\<close>.\<close>

datatype bltin = BTrue | BFalse | BBreak bool | BOther

text \<open>
  The parts outside of the control flow.  \<open>x_leaf\<close> stands for the cases of commands that run something: simple commands,
  forks, pipelines, subshells and function definitions, up to the end of the case; it says whether
  there is a command name (\<open>com0\<close>).  The others are named after the functions and fields they stand for.
  Pointers to variables, streams, saved optimizer lists and trap actions are numbers; a trap's action is
  \<open>None\<close> where it is not set.  \<open>x_tests\<close> is what \<open>test\<close> asks.
\<close>

type_synonym ptr = nat

record ('d, 'n, 'a, 'w, 'm) xshell =
  x_leaf :: "('d, 'n option, 'a option) shnode \<Rightarrow> cint \<Rightarrow> ('w xst, bool) xm"
  x_option :: "nat \<Rightarrow> 'w xst \<Rightarrow> bool"
  x_dont_optimize :: "'w xst \<Rightarrow> bool"
  x_funptr :: "'n \<Rightarrow> 'w xst \<Rightarrow> bltin"
  x_trap :: "nat \<Rightarrow> 'w xst \<Rightarrow> ptr option"
  x_job_unlock :: "'w xst \<Rightarrow> 'w xst"
  x_chktrap :: "('w xst, unit) xm"
  x_exit :: "cint \<Rightarrow> ('w xst, unit) xm"
  x_debug :: "ptr \<Rightarrow> byte list list \<Rightarrow> cint \<Rightarrow> ('w xst, unit) xm"
  x_lastarg :: "('w xst, unit) xm"
  x_fn_depth :: "'w xst \<Rightarrow> cint"
  x_trapdontexec :: "'w xst \<Rightarrow> bool"
  x_subshell :: "'w xst \<Rightarrow> bool"
  x_subshare :: "'w xst \<Rightarrow> bool"
  x_comsub :: "'w xst \<Rightarrow> bool"
  x_subfork :: "('w xst, unit) xm"
  x_pipe_in :: "bool \<Rightarrow> 'w xst \<Rightarrow> 'w xst"
  x_job_parent :: "'w xst \<Rightarrow> cint"
  x_redirect :: "('d, 'n option, 'a option) ionod \<Rightarrow> cint \<Rightarrow> ('w xst, unit) xm"
  x_topfd :: "'w xst \<Rightarrow> cint"
  x_iorestore :: "cint \<Rightarrow> cint \<Rightarrow> 'w xst \<Rightarrow> 'w xst"
  x_sync_outpool :: "'w xst \<Rightarrow> 'w xst"
  x_job_wait :: "cint \<Rightarrow> ('w xst, unit) xm"
  x_loop_enter :: "('d, 'n option, 'a option) shnode list \<Rightarrow> 'w xst \<Rightarrow> ptr \<times> 'w xst"
  x_loop_leave :: "('d, 'n option, 'a option) shnode list \<Rightarrow> ptr \<Rightarrow> 'w xst \<Rightarrow> 'w xst"
  x_arguse :: "'w xst \<Rightarrow> (byte list list \<times> ptr) \<times> 'w xst"
  x_argbuild :: "('d, 'n option, 'a option) shnode \<Rightarrow> ('w xst, byte list list) xm"
  x_argfree :: "ptr option \<Rightarrow> 'w xst \<Rightarrow> 'w xst"
  x_nv_open :: "byte list option \<Rightarrow> ('w xst, ptr) xm"
  x_nv_isref :: "ptr \<Rightarrow> 'w xst \<Rightarrow> bool"
  x_nv_isarray :: "ptr \<Rightarrow> 'w xst \<Rightarrow> bool"
  x_nv_offref :: "ptr \<Rightarrow> 'w xst \<Rightarrow> 'w xst"
  x_nv_putsub :: "ptr \<Rightarrow> ('w xst, unit) xm"
  x_nv_putval :: "ptr \<Rightarrow> byte list \<Rightarrow> ('w xst, unit) xm"
  x_nv_setref :: "ptr \<Rightarrow> ('w xst, unit) xm"
  x_nv_optimize :: "ptr \<Rightarrow> bool \<Rightarrow> 'w xst \<Rightarrow> 'w xst"
  x_menu :: "byte list list \<Rightarrow> 'w xst \<Rightarrow> 'w xst"
  x_readline :: "('w xst, cint \<times> bool) xm"
  x_reply :: "'w xst \<Rightarrow> byte list option"
  x_openstream :: "('d, 'n option, 'a option) ionod \<Rightarrow> ('w xst, ptr option) xm"
  x_getline :: "ptr \<Rightarrow> 'w xst \<Rightarrow> bool \<times> 'w xst"
  x_reset_offsets :: "'w xst \<Rightarrow> 'w xst"
  x_closestream :: "ptr \<Rightarrow> 'w xst \<Rightarrow> 'w xst"
  x_macpat :: "('d, 'n option, 'a option) argnod \<Rightarrow> cint \<Rightarrow> ('w xst, byte list) xm"
  x_strmatch :: "byte list \<Rightarrow> byte list \<Rightarrow> bool"
  x_sh_trace :: "('w xst, bool) xm"
  x_errput :: "byte list \<Rightarrow> 'w xst \<Rightarrow> 'w xst"
  x_errpattern :: "byte list \<Rightarrow> 'w xst \<Rightarrow> 'w xst"
  x_fmtq :: "byte list \<Rightarrow> byte list"
  x_arith_exec :: "'a \<Rightarrow> ('w xst, bool) xm"
  x_sh_arith :: "byte list \<Rightarrow> ('w xst, bool) xm"
  x_tests :: "('w xst, 'm, ptr) tenv"
  x_test_error :: "terror \<Rightarrow> 'w xst \<Rightarrow> cint \<times> 'w xst"
  x_times :: "'w xst \<Rightarrow> (int \<times> int \<times> int) \<times> 'w xst"
  x_p_time :: "int option \<Rightarrow> int \<Rightarrow> int \<Rightarrow> ('w xst, unit) xm"

text \<open>An operator of \<open>test\<close>; its messages leave by a jump.\<close>

definition xtest :: "('d, 'n, 'a, 'w, 'm) xshell \<Rightarrow> ('w xst, int) act \<Rightarrow> ('w xst, int) xm" where
  "xtest X f s =
    (case f s of
       (Inl e, s') \<Rightarrow> (let (j, s'') = x_test_error X e s' in Some (Jump j s''))
     | (Inr v, s') \<Rightarrow> Some (Done v s'))"

text \<open>The field \<open>tretyp\<close>, which every node begins with.\<close>

primrec tretyp :: "('d, 'n, 'a) shnode \<Rightarrow> cint" where
  "tretyp NullT = 0"
| "tretyp (ParNod typ t) = typ"
| "tretyp (ComNod typ io arg cs np line) = typ"
| "tretyp (ForkNod typ io t line) = typ"
| "tretyp (IfNod typ c t e) = typ"
| "tretyp (WhNod typ c d i) = typ"
| "tretyp (LstNod typ l r) = typ"
| "tretyp (ArithNod typ line a ax) = typ"
| "tretyp (ForNod typ nam t l line) = typ"
| "tretyp (SwNod typ a r io line) = typ"
| "tretyp (FunctNod typ nam t line args) = typ"
| "tretyp (TstParNod typ t line) = typ"
| "tretyp (TstNod typ l r line) = typ"

text \<open>\<open>tre.tretyp |= showme\<close>\<close>

definition or_tretyp :: "cint \<Rightarrow> ('d, 'n, 'a) shnode \<Rightarrow> ('d, 'n, 'a) shnode" where
  "or_tretyp f t =
    (case t of
       NullT \<Rightarrow> NullT
     | ParNod typ t \<Rightarrow> ParNod (typ OR f) t
     | ComNod typ io arg cs np line \<Rightarrow> ComNod (typ OR f) io arg cs np line
     | ForkNod typ io t line \<Rightarrow> ForkNod (typ OR f) io t line
     | IfNod typ c t e \<Rightarrow> IfNod (typ OR f) c t e
     | WhNod typ c d i \<Rightarrow> WhNod (typ OR f) c d i
     | LstNod typ l r \<Rightarrow> LstNod (typ OR f) l r
     | ArithNod typ line a ax \<Rightarrow> ArithNod (typ OR f) line a ax
     | ForNod typ nam t l line \<Rightarrow> ForNod (typ OR f) nam t l line
     | SwNod typ a r io line \<Rightarrow> SwNod (typ OR f) a r io line
     | FunctNod typ nam t line args \<Rightarrow> FunctNod (typ OR f) nam t line args
     | TstParNod typ t line \<Rightarrow> TstParNod (typ OR f) t line
     | TstNod typ l r line \<Rightarrow> TstNod (typ OR f) l r line)"

lemma or_tretyp_size [simp]: "size (or_tretyp f t) = size t"
  by (cases t) (simp_all add: or_tretyp_def)

end
