(* ===== verification/XecCases.thy ===== *)
theory XecCases
  imports XecState
begin

text \<open>
  The cases of \<open>sh_exec\<close> (\<open>src/src/cmd/ksh26/sh/xec.c\<close>) that are control flow.  \<open>rec\<close> is \<open>sh_exec\<close> itself, with
  a tree and flags; \<open>k\<close> bounds the rounds of a loop that may not end.
\<close>

section \<open>How a case ends\<close>

text \<open>
  The local variables that the end of the function looks at: \<open>echeck\<close>, \<open>skipexitset\<close>, whether there is
  a command name and \<open>was_interactive\<close>.
\<close>

record xinfo =
  echeck :: bool
  skipexitset :: bool
  com0 :: bool
  was_interactive :: bool

definition plain_end :: xinfo where
  "plain_end = \<lparr>echeck = False, skipexitset = False, com0 = False, was_interactive = False\<rparr>"

definition end_with :: "xinfo \<Rightarrow> ('s, unit) xm \<Rightarrow> ('s, xinfo) xm" where
  "end_with i f = xbind f (\<lambda>_. xret i)"

section \<open>Lists, \<open>&&\<close>, \<open>||\<close>, \<open>if\<close>\<close>

fun exec_list :: "(('d, 'n, 'a) shnode \<Rightarrow> cint \<Rightarrow> ('s, unit) xm) \<Rightarrow> cint \<Rightarrow> cint \<Rightarrow> ('d, 'n, 'a) shnode \<Rightarrow> ('s, unit) xm" where
  "exec_list rec e flags (LstNod typ l r) =
    xbind (rec l (e OR (flags AND ARG_OPTIMIZE))) (\<lambda>_.
      if tretyp r = TLST then exec_list rec e flags r else rec r flags)"
| "exec_list rec e flags t = xret ()"

definition exec_andor :: "(('d, 'n, 'a) shnode \<Rightarrow> cint \<Rightarrow> ('w xst, unit) xm) \<Rightarrow> bool \<Rightarrow> cint \<Rightarrow>
    ('d, 'n, 'a) shnode \<Rightarrow> ('d, 'n, 'a) shnode \<Rightarrow> ('w xst, unit) xm" where
  "exec_andor rec isand flags l r =
    xbind (rec l (flags AND ARG_OPTIMIZE)) (\<lambda>_ s. if (exitval s = 0) = isand then rec r flags s else xret () s)"

definition exec_if :: "(('d, 'n, 'a) shnode \<Rightarrow> cint \<Rightarrow> ('w xst, unit) xm) \<Rightarrow> cint \<Rightarrow>
    ('d, 'n, 'a) shnode \<Rightarrow> ('d, 'n, 'a) shnode \<Rightarrow> ('d, 'n, 'a) shnode \<Rightarrow> ('w xst, unit) xm" where
  "exec_if rec flags c t e =
    xbind (rec c (flags AND ARG_OPTIMIZE)) (\<lambda>_ s.
      if exitval s = 0 then rec t flags s
      else if e \<noteq> NullT then rec e flags s
      else xupd (exitval_update (\<lambda>_. 0)) s)"

section \<open>Loops\<close>

definition cont_down :: "'w xst \<Rightarrow> 'w xst" where
  "cont_down s = (if breakcnt s <s 0 then s\<lparr>breakcnt := breakcnt s + 1\<rparr> else s)"

definition loop_done :: "'w xst \<Rightarrow> 'w xst" where
  "loop_done s =
    (let s = (if 0 <s breakcnt s then s\<lparr>breakcnt := breakcnt s - 1\<rparr> else s) in s\<lparr>loopcnt := loopcnt s - 1\<rparr>)"

text \<open>The checkpoint around a loop and the loop-invariant optimizer; a jump goes on outwards.\<close>

definition in_loop :: "('d, 'n, 'a, 'w, 'm) xshell \<Rightarrow> ('d, 'n option, 'a option) shnode list \<Rightarrow>
    ('w xst, 'b) xm \<Rightarrow> ('b \<Rightarrow> ('w xst, unit) xm) \<Rightarrow> ('w xst, unit) xm" where
  "in_loop X trees body after s =
    (let m = jmpmode s; (optlist, s) = x_loop_enter X trees s in
     xbind (xtry body) (\<lambda>r s.
       let s = x_loop_leave X trees optlist (sh_popcontext s) in
       case r of Inl j \<Rightarrow> xjump j s | Inr b \<Rightarrow> after b s) (sh_pushcontext m s))"

text \<open>The loop variable gets \<open>cp\<close>.\<close>

definition assign_loopvar :: "('d, 'n, 'a, 'w, 'm) xshell \<Rightarrow> ptr \<Rightarrow> bool \<Rightarrow> byte list \<Rightarrow> ('w xst, unit) xm" where
  "assign_loopvar X np nameref cp =
    xbind (\<lambda>s. if nameref then xupd (x_nv_offref X np) s else if x_nv_isarray X np s then x_nv_putsub X np s else xret () s)
      (\<lambda>_. xbind (x_nv_putval X np cp) (\<lambda>_.
        if nameref then xbind (x_nv_setref X np) (\<lambda>_. xupd (x_nv_optimize X np True)) else xret ()))"

text \<open>The DEBUG trap, with the words of the command.\<close>

definition debug_trap :: "('d, 'n, 'a, 'w, 'm) xshell \<Rightarrow> byte list list \<Rightarrow> cint \<Rightarrow> ('w xst, unit) xm" where
  "debug_trap X argv fl s = (case x_trap X 2 s of None \<Rightarrow> xret () s | Some trap \<Rightarrow> x_debug X trap argv fl s)"

text \<open>One round of the body.\<close>

definition for_round :: "('d, 'n, 'a, 'w, 'm) xshell \<Rightarrow>
    (('d, 'n option, 'a option) shnode \<Rightarrow> cint \<Rightarrow> ('w xst, unit) xm) \<Rightarrow> byte list \<Rightarrow> byte list option \<Rightarrow> ptr \<Rightarrow> bool \<Rightarrow>
    ('d, 'n option, 'a option) shnode \<Rightarrow> cint \<Rightarrow> byte list \<Rightarrow> ('w xst, unit) xm" where
  "for_round X rec word nam np nameref body flag cp =
    xbind (assign_loopvar X np nameref cp) (\<lambda>_.
      xbind (debug_trap X [word, case nam of None \<Rightarrow> [] | Some n \<Rightarrow> n, str ''in'', cp] 0) (\<lambda>_. rec body flag))"

fun for_words :: "('d, 'n, 'a, 'w, 'm) xshell \<Rightarrow>
    (('d, 'n option, 'a option) shnode \<Rightarrow> cint \<Rightarrow> ('w xst, unit) xm) \<Rightarrow> byte list option \<Rightarrow> ptr \<Rightarrow> bool \<Rightarrow>
    ('d, 'n option, 'a option) shnode \<Rightarrow> cint \<Rightarrow> byte list list \<Rightarrow> ('w xst, unit) xm" where
  "for_words X rec nam np nameref body flag [] = xret ()"
| "for_words X rec nam np nameref body flag (cp # args) = (\<lambda>s.
     if breakcnt s \<noteq> 0 then xret () s
     else xbind (for_round X rec (str ''for'') nam np nameref body flag cp) (\<lambda>_ s.
       for_words X rec nam np nameref body (flag AND NOT ARG_OPTIMIZE) args (cont_down s)) s)"

text \<open>The choice that a line of \<open>select\<close> makes; the condition of the loop over its characters is never true.\<close>

definition menu_choice :: "nat \<Rightarrow> byte list \<Rightarrow> cint" where
  "menu_choice nargs val =
    (let c = (case dropWhile (\<lambda>c. \<not> (c <s 48 \<and> 57 <s c)) val of [] \<Rightarrow> 0 | c # _ \<Rightarrow> c) in
     if c \<noteq> 0 then of_nat nargs else of_int (fst (strtol10 val)) - 1)"

fun select_loop :: "('d, 'n, 'a, 'w, 'm) xshell \<Rightarrow>
    (('d, 'n option, 'a option) shnode \<Rightarrow> cint \<Rightarrow> ('w xst, unit) xm) \<Rightarrow> byte list option \<Rightarrow> ptr \<Rightarrow> bool \<Rightarrow>
    ('d, 'n option, 'a option) shnode \<Rightarrow> byte list list \<Rightarrow> nat \<Rightarrow> cint \<Rightarrow> byte list option \<Rightarrow> bool \<Rightarrow> ('w xst, unit) xm" where
  "select_loop X rec nam np nameref body args 0 flag cp refresh s = None"
| "select_loop X rec nam np nameref body args (Suc k) flag cp refresh s =
    (if cp = None \<or> breakcnt s \<noteq> 0 then xret () s
     else
       let s = (if refresh then x_menu X args s else s); prompt = nextprompt s in
       xbind (x_readline X) (\<lambda>(status, eof) s.
         let s = s\<lparr>exitval := status, nextprompt := prompt\<rparr> in
         if status \<noteq> 0 \<or> eof then xupd (exitval_update (\<lambda>_. 1)) s
         else case x_reply X s of
             None \<Rightarrow> select_loop X rec nam np nameref body args k flag cp False s
           | Some val \<Rightarrow>
               if val = [] then select_loop X rec nam np nameref body args k flag (Some val) True (cont_down s)
               else
                 let c = menu_choice (length args) val;
                     word = (if c <s 0 \<or> of_nat (length args) \<le>s c then [] else args ! unat c)
                 in xbind (for_round X rec (str ''select'') nam np nameref body flag word) (\<lambda>_ s.
                      select_loop X rec nam np nameref body args k (flag AND NOT ARG_OPTIMIZE) (x_reply X s)
                        (x_reply X s = Some []) (cont_down s)) s)
         (s\<lparr>nextprompt := 3, timeout := 0\<rparr>))"

definition exec_for :: "('d, 'n, 'a, 'w, 'm) xshell \<Rightarrow>
    (('d, 'n option, 'a option) shnode \<Rightarrow> cint \<Rightarrow> ('w xst, unit) xm) \<Rightarrow> nat \<Rightarrow> cint \<Rightarrow> cint \<Rightarrow> byte list option \<Rightarrow>
    ('d, 'n option, 'a option) shnode \<Rightarrow> ('d, 'n option, 'a option) shnode \<Rightarrow> cint \<Rightarrow> ('w xst, unit) xm" where
  "exec_for X rec k e typ nam body lst line =
    in_loop X [body]
      (xbind (xupd (set_line line)) (\<lambda>_.
        xbind (if lst = NullT then xbind (xcall (x_arguse X)) (\<lambda>(args, p). xret (args, Some p))
               else xbind (x_argbuild X lst) (\<lambda>args. xret (args, None))) (\<lambda>(args, argsav).
        xbind (x_nv_open X nam) (\<lambda>np s.
          let nameref = x_nv_isref X np s; flag = e OR ARG_OPTIMIZE in
          xbind (if typ AND COMSCAN \<noteq> 0
                 then select_loop X rec nam np nameref body args k flag (case args of [] \<Rightarrow> None | a # _ \<Rightarrow> Some a) True
                 else for_words X rec nam np nameref body flag args) (\<lambda>_.
          xbind (xupd (\<lambda>s. if nameref then x_nv_optimize X np False s else s)) (\<lambda>_. xret argsav))
          (s\<lparr>loopcnt := loopcnt s + 1\<rparr>)))))
      (\<lambda>argsav. xupd (\<lambda>s. x_argfree X argsav (loop_done s)))"

text \<open>The conditions \<open>while :\<close>, \<open>while true\<close> and \<open>until false\<close>, which are not executed.\<close>

definition always_true :: "('d, 'n, 'a, 'w, 'm) xshell \<Rightarrow> cint \<Rightarrow> ('d, 'n option, 'a option) shnode \<Rightarrow> 'w xst \<Rightarrow> bool" where
  "always_true X type tt s =
    (case tt of
       ComNod typ io arg cs np line \<Rightarrow>
         typ = TCOM \<and> \<not> x_dont_optimize X s \<and>
         (case np of None \<Rightarrow> False
          | Some n \<Rightarrow> type = TWH \<and> x_funptr X n s = BTrue \<or> type = TUN \<and> x_funptr X n s = BFalse) \<and>
         cs = ArgNil \<and> io = IoNil \<and> \<not> x_option X SH_XTRACE s \<and> x_trap X 2 s = None
     | _ \<Rightarrow> False)"

text \<open>A lone redirection of the input after \<open>while\<close>.\<close>

definition filescan :: "('d, 'n, 'a, 'w, 'm) xshell \<Rightarrow> cint \<Rightarrow> ('d, 'n option, 'a option) shnode \<Rightarrow> 'w xst \<Rightarrow>
    ('d, 'n option, 'a option) ionod option" where
  "filescan X type tt s =
    (case tt of
       ComNod typ io arg cs np line \<Rightarrow>
         (case io of
            IoNod f nam doc vn nxt \<Rightarrow>
              if type = TWH \<and> typ = TCOM \<and> arg = ComNone \<and> cs = ArgNil \<and> nxt = IoNil \<and>
                f AND (IOPUT OR IOAPP) = 0 \<and> \<not> x_option X SH_POSIX s
              then Some io else None
          | _ \<Rightarrow> None)
     | _ \<Rightarrow> None)"

text \<open>Whether another round begins.\<close>

definition while_test :: "('d, 'n, 'a, 'w, 'm) xshell \<Rightarrow>
    (('d, 'n option, 'a option) shnode \<Rightarrow> cint \<Rightarrow> ('w xst, unit) xm) \<Rightarrow> cint \<Rightarrow> ('d, 'n option, 'a option) shnode \<Rightarrow>
    ptr option \<Rightarrow> bool \<Rightarrow> cint \<Rightarrow> ('w xst, bool) xm" where
  "while_test X rec type tt iop always first =
    (case iop of
       Some f \<Rightarrow> xcall (x_getline X f)
     | None \<Rightarrow>
         if always then xret True
         else xbind (rec tt first) (\<lambda>_ s. xret ((exitval s = 0) = (type = TWH)) s))"

fun while_loop :: "('d, 'n, 'a, 'w, 'm) xshell \<Rightarrow>
    (('d, 'n option, 'a option) shnode \<Rightarrow> cint \<Rightarrow> ('w xst, unit) xm) \<Rightarrow> cint \<Rightarrow> ('d, 'n option, 'a option) shnode \<Rightarrow>
    ('d, 'n option, 'a option) shnode \<Rightarrow> ('d, 'n option, 'a option) shnode \<Rightarrow> ptr option \<Rightarrow> bool \<Rightarrow>
    nat \<Rightarrow> cint \<Rightarrow> cint \<Rightarrow> cint \<Rightarrow> ('w xst, cint) xm" where
  "while_loop X rec type tt body inc iop always 0 first e r s = None"
| "while_loop X rec type tt body inc iop always (Suc k) first e r s =
    (if breakcnt s \<noteq> 0 then xret r s
     else xbind (while_test X rec type tt iop always first) (\<lambda>go.
       if \<not> go then xret r
       else xbind (rec body (first OR e)) (\<lambda>_ s.
         let r = exitval s; s = cont_down s in
         xbind (if breakcnt s = 0 \<and> inc \<noteq> NullT then rec inc first else xret ()) (\<lambda>_ s.
           while_loop X rec type tt body inc iop always k 0 (e AND NOT ARG_OPTIMIZE) r (x_reset_offsets X s)) s)) s)"

definition exec_while :: "('d, 'n, 'a, 'w, 'm) xshell \<Rightarrow>
    (('d, 'n option, 'a option) shnode \<Rightarrow> cint \<Rightarrow> ('w xst, unit) xm) \<Rightarrow> nat \<Rightarrow> cint \<Rightarrow> cint \<Rightarrow>
    ('d, 'n option, 'a option) shnode \<Rightarrow> ('d, 'n option, 'a option) shnode \<Rightarrow> ('d, 'n option, 'a option) shnode \<Rightarrow>
    ('w xst, unit) xm" where
  "exec_while X rec k e type tt body inc =
    in_loop X [tt, body]
      (xbind (\<lambda>s. case filescan X type tt s of None \<Rightarrow> xret None s | Some io \<Rightarrow> x_openstream X io s) (\<lambda>iop s.
        xbind (while_loop X rec type tt body inc iop (always_true X type tt s) k ARG_OPTIMIZE e 0) (\<lambda>r. xret (r, iop))
          (s\<lparr>loopcnt := loopcnt s + 1\<rparr>)))
      (\<lambda>(r, iop). xupd (\<lambda>s.
         let s = (loop_done s)\<lparr>exitval := r\<rparr> in
         case iop of None \<Rightarrow> s | Some f \<Rightarrow> x_closestream X f s))"

end
