(* ===== verification/XecExec.thy ===== *)
theory XecExec
  imports XecCases
begin

text \<open>
  The remaining cases of \<open>sh_exec\<close> (\<open>src/src/cmd/ksh26/sh/xec.c\<close>): redirections, \<open>case\<close>, \<open>((\<close>, \<open>[[\<close>,
  \<open>time\<close> and \<open>!\<close>; and the function itself.  Fuel bounds the depth of the calls and the rounds of
  each \<open>while\<close> and \<open>select\<close>.
\<close>

section \<open>Redirections\<close>

fun has_rewrite :: "('d, 'n, 'a) ionod \<Rightarrow> bool" where
  "has_rewrite IoNil = False"
| "has_rewrite (IoNod f nam doc vn nxt) = (f AND IOREWRITE \<noteq> 0 \<or> has_rewrite nxt)"

definition check_exec_optimization :: "('d, 'n, 'a, 'w, 'm) xshell \<Rightarrow> cint \<Rightarrow> cint \<Rightarrow> cint \<Rightarrow>
    ('d, 'n option, 'a option) ionod \<Rightarrow> 'w xst \<Rightarrow> bool" where
  "check_exec_optimization X type execflg execflg2 io s =
    (\<not> (type AND (FAMP OR FPOU) \<noteq> 0 \<or>
        \<not> (execflg \<noteq> 0 \<and> x_fn_depth X s = 0 \<or> execflg2 \<noteq> 0) \<or>
        x_trapdontexec X s \<or> x_subshell X s \<or> jmpmode s = SH_JMPEVAL \<or> sh_isstate SH_XARG s \<or>
        pipejob s \<noteq> 0 \<and> (sh_isstate SH_MONITOR s \<or> x_option X SH_PIPEFAIL s \<or> sh_isstate SH_TIMING s)) \<and>
     \<not> has_rewrite io)"

text \<open>A redirection that closes a descriptor, or of standard output in a command substitution.\<close>

fun needs_subfork :: "bool \<Rightarrow> ('d, 'n, 'a) ionod \<Rightarrow> bool" where
  "needs_subfork comsub IoNil = False"
| "needs_subfork comsub (IoNod f nam doc vn nxt) =
    (f AND NOT (IOUFD OR IOPUT) = IOMOV OR IORAW \<and> (case nam of IoStr (Some n) \<Rightarrow> n = str ''-'' | _ \<Rightarrow> False) \<or>
     f AND IOUFD = 1 \<and> comsub \<or> needs_subfork comsub nxt)"

text \<open>Waiting for the rest of the pipeline whose last command this is.\<close>

definition pipe_wait :: "('d, 'n, 'a, 'w, 'm) xshell \<Rightarrow> cint \<Rightarrow> cint \<Rightarrow> ('w xst, unit) xm" where
  "pipe_wait X wall pid s =
    (let e = exitval s; c = chldexitsig s; s = s\<lparr>waitall := wall\<rparr>;
         finish = xupd (\<lambda>s. s\<lparr>pipepid := 0, ioset := 0\<rparr>);
         keep = (\<lambda>e c s. if e \<noteq> 0 \<or> \<not> x_option X SH_PIPEFAIL s then s\<lparr>exitval := e, chldexitsig := c\<rparr> else s)
     in if e AND SH_EXITSIG = 0 then
          if 1 <s pipepid s then
            xbind (x_job_wait X (pipepid s)) (\<lambda>_ s. finish (keep (exitval s) (chldexitsig s) s)) s
          else xbind (x_job_wait X (if wall \<noteq> 0 then pid else 0)) (\<lambda>_ s. finish (keep e c s)) s
        else finish s)"

definition exec_setio :: "('d, 'n, 'a, 'w, 'm) xshell \<Rightarrow>
    (('d, 'n option, 'a option) shnode \<Rightarrow> cint \<Rightarrow> ('w xst, unit) xm) \<Rightarrow> cint \<Rightarrow> cint \<Rightarrow>
    ('d, 'n option, 'a option) ionod \<Rightarrow> ('d, 'n option, 'a option) shnode \<Rightarrow> cint \<Rightarrow> ('w xst, xinfo) xm" where
  "exec_setio X rec flags typ io tre line =
    (let simple = (tretyp tre AND COMMSK = TCOM); fpin = (typ AND FPIN \<noteq> 0);
         execflg = flags AND sh_state SH_NOFORK; execflg2 = flags AND sh_state SH_FORKED in
     xbind (\<lambda>s. if x_subshell X s \<and> \<not> x_subshare X s \<and> needs_subfork (x_comsub X s) io then x_subfork X s else xret () s)
     (\<lambda>_ s.
       let topfd = x_topfd X s; s = sh_pushcontext SH_JMPIO s;
           was = (fpin \<and> sh_isstate SH_INTERACTIVE s); wall = waitall s; pid = x_job_parent X s;
           s = (if fpin then (x_pipe_in X simple (sh_offstate SH_INTERACTIVE s))\<lparr>waitall := 0\<rparr> else set_line line s)
       in
       xbind (xtry (\<lambda>s.
           let exec_last = (execflg = 0 \<or> check_exec_optimization X typ execflg execflg2 io s);
               flags = (if exec_last then flags else flags AND NOT (sh_state SH_NOFORK))
           in xbind (x_redirect X io (if exec_last then execflg else 0)) (\<lambda>_.
                rec (or_tretyp (typ AND FSHOWME) tre) (if simple then flags AND NOT 1 else flags)) s))
         (\<lambda>r s.
           let s = (case r of Inl j \<Rightarrow> x_sync_outpool X s | Inr _ \<Rightarrow> s);
               jmpval = (case r of Inl j \<Rightarrow> j | Inr _ \<Rightarrow> 0);
               s = x_iorestore X topfd jmpval (sh_popcontext s)
           in xbind (if fpin then pipe_wait X wall pid else xret ()) (\<lambda>_.
                if SH_JMPIO <s jmpval then xjump jmpval else xret (plain_end\<lparr>was_interactive := was\<rparr>)) s) s))"

section \<open>\<open>case\<close>\<close>

fun pats_match :: "('d, 'n, 'a, 'w, 'm) xshell \<Rightarrow> byte list \<Rightarrow> cint \<Rightarrow> ('d, 'n option, 'a option) argnod \<Rightarrow> ('w xst, bool) xm" where
  "pats_match X r flags ArgNil = xret False"
| "pats_match X r flags (ArgNod fl val chn nxt) =
    xbind (if fl AND ARG_MAC \<noteq> 0 then x_macpat X (ArgNod fl val chn nxt) ((flags AND ARG_OPTIMIZE) OR ARG_EXPF) else xret val)
      (\<lambda>s. if fl AND ARG_RAW \<noteq> 0 \<and> strcmp r s = 0 \<or> fl AND ARG_RAW = 0 \<and> x_strmatch X r s then xret True
           else pats_match X r flags nxt)"

text \<open>\<open>through\<close>: the block before ended with \<open>;&\<close>, so that this one is run without a test.\<close>

fun case_regs :: "('d, 'n, 'a, 'w, 'm) xshell \<Rightarrow>
    (('d, 'n option, 'a option) shnode \<Rightarrow> cint \<Rightarrow> ('w xst, unit) xm) \<Rightarrow> byte list \<Rightarrow> cint \<Rightarrow> bool \<Rightarrow>
    ('d, 'n option, 'a option) regnod \<Rightarrow> ('w xst, unit) xm" where
  "case_regs X rec r flags through RegNil = xret ()"
| "case_regs X rec r flags through (RegNod regflag pat com nxt) =
    xbind (if through then xret True else pats_match X r flags pat) (\<lambda>b.
      if b then
        xbind (rec com (if regflag \<noteq> 0 then flags AND sh_state SH_ERREXIT else flags)) (\<lambda>_.
          if regflag = 0 then xret () else case_regs X rec r flags (regflag = 1) nxt)
      else case_regs X rec r flags False nxt)"

definition exec_switch :: "('d, 'n, 'a, 'w, 'm) xshell \<Rightarrow>
    (('d, 'n option, 'a option) shnode \<Rightarrow> cint \<Rightarrow> ('w xst, unit) xm) \<Rightarrow> cint \<Rightarrow>
    ('d, 'n option, 'a option) argnod \<Rightarrow> ('d, 'n option, 'a option) regnod \<Rightarrow> cint \<Rightarrow> ('w xst, unit) xm" where
  "exec_switch X rec flags arg regs line =
    xbind (x_macpat X arg (flags AND ARG_OPTIMIZE)) (\<lambda>r.
    xbind (xupd (set_line line)) (\<lambda>_.
    xbind (debug_trap X [str ''case'', r, str ''in''] 0) (\<lambda>_.
      case_regs X rec r flags False regs)))"

section \<open>\<open>((\<close>, \<open>time\<close> and \<open>!\<close>\<close>

definition arg_word :: "('d, 'n, 'a, 'w, 'm) xshell \<Rightarrow> cint \<Rightarrow> ('d, 'n option, 'a option) argnod \<Rightarrow> ('w xst, byte list) xm" where
  "arg_word X flags arg =
    (case arg of
       ArgNil \<Rightarrow> xret []
     | ArgNod fl val chn nxt \<Rightarrow> if fl AND ARG_RAW = 0 then x_macpat X arg ((flags AND ARG_OPTIMIZE) OR ARG_ARITH) else xret val)"

definition exec_arith :: "('d, 'n, 'a, 'w, 'm) xshell \<Rightarrow> cint \<Rightarrow> cint \<Rightarrow> ('d, 'n option, 'a option) argnod \<Rightarrow> 'a option \<Rightarrow>
    ('w xst, unit) xm" where
  "exec_arith X flags line arg arcomp =
    xbind (xupd (set_line line)) (\<lambda>_.
    xbind (arg_word X flags arg) (\<lambda>expr.
    xbind (debug_trap X [str ''(('', expr, str ''))''] ARG_ARITH) (\<lambda>_.
    xbind (\<lambda>s. if x_option X SH_XTRACE s
               then xbind (x_sh_trace X) (\<lambda>_. xupd (x_errput X (str ''(('' @ expr @ str ''))'' @ [10]))) s else xret () s) (\<lambda>_.
    xbind (case arcomp of Some ax \<Rightarrow> x_arith_exec X ax | None \<Rightarrow> x_sh_arith X expr) (\<lambda>nonzero.
      xupd (exitval_update (\<lambda>_. if nonzero then 0 else 1)))))))"

definition exec_time :: "('d, 'n, 'a, 'w, 'm) xshell \<Rightarrow>
    (('d, 'n option, 'a option) shnode \<Rightarrow> cint \<Rightarrow> ('w xst, unit) xm) \<Rightarrow> cint \<Rightarrow> cint \<Rightarrow>
    ('d, 'n option, 'a option) shnode \<Rightarrow> ('w xst, unit) xm" where
  "exec_time X rec flags type t =
    (if type \<noteq> TTIME then
       xbind (rec t (flags AND ARG_OPTIMIZE)) (\<lambda>_. xupd (\<lambda>s. s\<lparr>exitval := (if exitval s = 0 then 1 else 0)\<rparr>))
     else if t \<noteq> NullT then
       xbind (xcall (x_times X)) (\<lambda>(treal, tusr, tsys) s.
         let timer_on = sh_isstate SH_TIMING s; s = sh_onstate SH_TIMING s in
         xbind (rec t ((states s AND sh_state SH_ERREXIT) OR (flags AND ARG_OPTIMIZE))) (\<lambda>_ s.
           xbind (xcall (x_times X)) (\<lambda>(areal, ausr, asys). x_p_time X (Some (areal - treal)) (ausr - tusr) (asys - tsys))
             (if timer_on then s else sh_offstate SH_TIMING s)) s)
     else xbind (xcall (x_times X)) (\<lambda>(areal, ausr, asys). x_p_time X None ausr asys))"

section \<open>\<open>[[\<close>\<close>

definition set_truth :: "bool \<Rightarrow> bool \<Rightarrow> bool \<Rightarrow> 'w xst \<Rightarrow> 'w xst" where
  "set_truth n negate skip s =
    (let s = s\<lparr>exitval := (if n = negate then 1 else 0)\<rparr> in if skip then s else exitset s)"

definition test_end :: "cint \<Rightarrow> xinfo" where
  "test_end typ = plain_end\<lparr>echeck := True, skipexitset := (typ AND TTEST \<noteq> 0)\<rparr>"

definition exec_testpar :: "(('d, 'n, 'a) shnode \<Rightarrow> cint \<Rightarrow> ('w xst, unit) xm) \<Rightarrow> cint \<Rightarrow> cint \<Rightarrow>
    ('d, 'n, 'a) shnode \<Rightarrow> cint \<Rightarrow> ('w xst, unit) xm" where
  "exec_testpar rec flags typ t line =
    xbind (xupd (set_line line)) (\<lambda>_.
    xbind (rec t (flags AND ARG_OPTIMIZE)) (\<lambda>_.
      xupd (\<lambda>s. set_truth (exitval s = 0) (typ AND TNEGATE \<noteq> 0) (typ AND TTEST \<noteq> 0) s)))"

definition unary_test :: "('d, 'n, 'a, 'w, 'm) xshell \<Rightarrow> byte list \<Rightarrow> ptr option \<Rightarrow> bool \<Rightarrow> byte \<Rightarrow> byte list \<Rightarrow> ('w xst, int) xm" where
  "unary_test X argv0 trap traceon op left =
    xbind (xupd (\<lambda>s. if traceon then x_errput X ([chr CHR ''-'', op, 32] @ x_fmtq X left) s else s)) (\<lambda>_.
    xbind (case trap of None \<Rightarrow> xret () | Some tr \<Rightarrow> x_debug X tr [argv0, [chr CHR ''-'', op], left, str '']]''] 0) (\<lambda>_.
      xtest X (test_unop (x_tests X) op left)))"

definition binary_test :: "('d, 'n, 'a, 'w, 'm) xshell \<Rightarrow> byte list \<Rightarrow> ptr option \<Rightarrow> bool \<Rightarrow> nat \<Rightarrow> byte list \<Rightarrow> byte list \<Rightarrow>
    ('w xst, int) xm" where
  "binary_test X argv0 trap traceon n left right =
    (let opname = fst (shtab_testops ! ((n AND 31) - 1)); pattern = (n = TEST_PEQ \<or> n = TEST_PNE) in
     xbind (case trap of None \<Rightarrow> xret ()
            | Some tr \<Rightarrow> x_debug X tr [argv0, left, opname, right, str '']]''] (if pattern then ARG_EXPF else 0)) (\<lambda>_.
     xbind (xtest X (test_binop (x_tests X) n left right)) (\<lambda>v.
     xbind (xupd (\<lambda>s.
       if traceon then
         let s = x_errput X (x_fmtq X left @ [32] @ opname @ [32]) s
         in if pattern then x_errpattern X right s else x_errput X (x_fmtq X right) s
       else s)) (\<lambda>_. xret v))))"

definition exec_test :: "('d, 'n, 'a, 'w, 'm) xshell \<Rightarrow> cint \<Rightarrow> cint \<Rightarrow>
    ('d, 'n option, 'a option) argnod \<Rightarrow> ('d, 'n option, 'a option) argnod \<Rightarrow> cint \<Rightarrow> ('w xst, unit) xm" where
  "exec_test X flags typ l r line =
    (let n = drop_bit 8 typ; negate = (typ AND TNEGATE \<noteq> 0); binary = (typ AND TBINARY \<noteq> 0); opt = flags AND ARG_OPTIMIZE in
     xbind (xupd (set_line line)) (\<lambda>_.
     xbind (x_macpat X l opt) (\<lambda>left.
     xbind (if binary then x_macpat X r ((if unat n = TEST_PEQ \<or> unat n = TEST_PNE then ARG_EXPF else 0) OR opt) else xret []) (\<lambda>right s.
       let trap = x_trap X 2 s; argv0 = (if negate then str ''[[ ! '' else str ''[['') in
       xbind (if x_option X SH_XTRACE s
              then xbind (x_sh_trace X) (\<lambda>on. xbind (xupd (x_errput X (if negate then str ''[[ ! '' else str ''[[ ''))) (\<lambda>_. xret on))
              else xret False) (\<lambda>traceon.
       xbind (if typ AND TUNARY \<noteq> 0 then unary_test X argv0 trap traceon (ucast n) left
              else if binary then binary_test X argv0 trap traceon (unat n) left right
              else xret (sint n)) (\<lambda>v.
         xupd (\<lambda>s. set_truth (v \<noteq> 0) negate (typ AND TTEST \<noteq> 0)
           (if traceon then x_errput X (str '' ]]'' @ [10]) s else s)))) s))))"

section \<open>The function\<close>

definition exec_case :: "('d, 'n, 'a, 'w, 'm) xshell \<Rightarrow>
    (('d, 'n option, 'a option) shnode \<Rightarrow> cint \<Rightarrow> ('w xst, unit) xm) \<Rightarrow> nat \<Rightarrow> cint \<Rightarrow>
    ('d, 'n option, 'a option) shnode \<Rightarrow> ('w xst, xinfo) xm" where
  "exec_case X rec k flags t =
    (let e = (flags AND sh_state SH_ERREXIT) OR (flags AND ARG_OPTIMIZE);
         leaf = (\<lambda>echk cmd. xbind (x_leaf X t flags) (\<lambda>c. xret (plain_end\<lparr>echeck := echk, com0 := cmd \<and> c\<rparr>)))
     in case t of
       NullT \<Rightarrow> xret plain_end
     | ComNod typ io arg cs np line \<Rightarrow> leaf True True
     | ForkNod typ io tre line \<Rightarrow> if typ AND COMMSK = TSETIO then exec_setio X rec flags typ io tre line else leaf False False
     | ParNod typ p \<Rightarrow> if typ AND COMMSK = TTIME then end_with plain_end (exec_time X rec flags typ p) else leaf True False
     | LstNod typ l r \<Rightarrow>
         if typ AND COMMSK = TLST then end_with plain_end (exec_list rec e flags t)
         else if typ AND COMMSK = TAND \<or> typ AND COMMSK = TORF then
           end_with (plain_end\<lparr>skipexitset := (typ AND TTEST \<noteq> 0)\<rparr>) (exec_andor rec (typ AND COMMSK = TAND) flags l r)
         else leaf True False
     | ForNod typ nam body lst line \<Rightarrow> end_with plain_end (exec_for X rec k e typ nam body lst line)
     | WhNod typ tt body inc \<Rightarrow> end_with plain_end (exec_while X rec k e typ tt body inc)
     | ArithNod typ line a ax \<Rightarrow> end_with plain_end (exec_arith X flags line a ax)
     | IfNod typ c th el \<Rightarrow> end_with plain_end (exec_if rec flags c th el)
     | SwNod typ a regs io line \<Rightarrow> end_with plain_end (exec_switch X rec flags a regs line)
     | FunctNod typ nam tre line args \<Rightarrow> leaf False False
     | TstParNod typ p line \<Rightarrow> end_with (test_end typ) (exec_testpar rec flags typ p line)
     | TstNod typ l r line \<Rightarrow> end_with (test_end typ) (exec_test X flags typ l r line))"

text \<open>From the end of the switch on.\<close>

definition exec_end :: "('d, 'n, 'a, 'w, 'm) xshell \<Rightarrow> bool \<Rightarrow> bool \<Rightarrow> bool \<Rightarrow> xinfo \<Rightarrow> ('w xst, unit) xm" where
  "exec_end X mainloop was_monitor was_errexit i =
    xbind (\<lambda>s. if trapnote s \<noteq> 0 \<or> exitval s \<noteq> 0 \<and> sh_isstate SH_ERREXIT s \<and> echeck i then x_chktrap X s else xret () s) (\<lambda>_.
    xbind (if mainloop \<and> com0 i then x_lastarg X else xret ()) (\<lambda>_.
    xbind (xupd (\<lambda>s. if skipexitset i then s else exitset s)) (\<lambda>_.
    xbind (\<lambda>s. if trapnote s AND SH_SIGSET \<noteq> 0 then x_exit X (SH_EXITSIG OR lastsig s) s else xret () s) (\<lambda>_.
      xupd (\<lambda>s.
        let s = (if was_interactive i then sh_onstate SH_INTERACTIVE s else s);
            s = (if was_monitor \<and> x_option X SH_MONITOR s then sh_onstate SH_MONITOR s else s)
        in if was_errexit then sh_onstate SH_ERREXIT s else s)))))"

definition exec_normal :: "('d, 'n, 'a, 'w, 'm) xshell \<Rightarrow>
    (('d, 'n option, 'a option) shnode \<Rightarrow> cint \<Rightarrow> ('w xst, unit) xm) \<Rightarrow> nat \<Rightarrow> bool \<Rightarrow> cint \<Rightarrow>
    ('d, 'n option, 'a option) shnode \<Rightarrow> ('w xst, unit) xm" where
  "exec_normal X rec k mainloop flags t s =
    (let was_errexit = sh_isstate SH_ERREXIT s; was_monitor = sh_isstate SH_MONITOR s;
         s = sh_offstate SH_DEFPATH s;
         s = (if flags AND sh_state SH_ERREXIT = 0 then sh_offstate SH_ERREXIT s else s)
     in xbind (exec_case X rec k flags t) (exec_end X mainloop was_monitor was_errexit) s)"

text \<open>A literal \<open>:\<close>, \<open>true\<close>, \<open>false\<close>, \<open>break\<close> or \<open>continue\<close>.\<close>

definition shortcut :: "('d, 'n, 'a, 'w, 'm) xshell \<Rightarrow> ('d, 'n option, 'a option) shnode \<Rightarrow> 'w xst \<Rightarrow> bltin option" where
  "shortcut X t s =
    (case t of
       ComNod typ io arg cs np line \<Rightarrow>
         (case np of
            None \<Rightarrow> None
          | Some n \<Rightarrow>
              let fp = x_funptr X n s in
              if typ = TCOM \<and> \<not> x_dont_optimize X s \<and>
                 (fp = BTrue \<or> fp = BFalse \<and> \<not> x_option X SH_ERREXIT s \<and> x_trap X 0 s = None \<or>
                  (case fp of BBreak _ \<Rightarrow> (case arg of ComDp d _ \<Rightarrow> d = 1 | _ \<Rightarrow> False) | _ \<Rightarrow> False)) \<and>
                 cs = ArgNil \<and> io = IoNil \<and> \<not> x_option X SH_XTRACE s \<and> x_trap X 2 s = None
              then Some fp else None)
     | _ \<Rightarrow> None)"

definition shortcut_effect :: "bltin \<Rightarrow> 'w xst \<Rightarrow> 'w xst" where
  "shortcut_effect fp s =
    (case fp of
       BFalse \<Rightarrow> s\<lparr>exitval := exitval s + 1\<rparr>
     | BBreak cont \<Rightarrow> if loopcnt s \<noteq> 0 then s\<lparr>breakcnt := (if cont then -1 else 1)\<rparr> else s
     | _ \<Rightarrow> s)"

definition run_shortcut :: "('d, 'n, 'a, 'w, 'm) xshell \<Rightarrow> bltin \<Rightarrow> ('w xst, unit) xm" where
  "run_shortcut X fp s =
    (let s = exitset (shortcut_effect fp s) in if trapnote s \<noteq> 0 then x_chktrap X s else xret () s)"

definition start_main :: "('d, 'n, 'a, 'w, 'm) xshell \<Rightarrow> 'w xst \<Rightarrow> 'w xst" where
  "start_main X s =
    (let s = (if pipejob s = 2 then x_job_unlock X s else s)
     in s\<lparr>nlock := 0, pipejob := 0, curpgid := 0, curjobid := 0\<rparr>)"

definition sh_sigcheck :: "('d, 'n, 'a, 'w, 'm) xshell \<Rightarrow> ('w xst, unit) xm" where
  "sh_sigcheck X s = (if trapnote s AND SH_SIGSET \<noteq> 0 then x_exit X SH_EXITSIG s else xret () s)"

definition exec_body :: "('d, 'n, 'a, 'w, 'm) xshell \<Rightarrow>
    (('d, 'n option, 'a option) shnode \<Rightarrow> cint \<Rightarrow> ('w xst, unit) xm) \<Rightarrow> nat \<Rightarrow>
    ('d, 'n option, 'a option) shnode \<Rightarrow> cint \<Rightarrow> ('w xst, unit) xm" where
  "exec_body X rec k t flags =
    xbind (sh_sigcheck X) (\<lambda>_ s.
      if t = NullT \<or> breakcnt s \<noteq> 0 \<or> x_option X SH_NOEXEC s then xret () s
      else
        let s = s\<lparr>exitval := 0, lastsig := 0, chldexitsig := 0\<rparr>;
            mainloop = (flags AND sh_state SH_INTERACTIVE \<noteq> 0)
        in if mainloop then
             exec_normal X rec k True (flags AND NOT (sh_state SH_INTERACTIVE)) t (start_main X s)
           else case shortcut X t s of
               Some fp \<Rightarrow> run_shortcut X fp s
             | None \<Rightarrow> exec_normal X rec k False flags t s)"

fun sh_exec :: "('d, 'n, 'a, 'w, 'm) xshell \<Rightarrow> nat \<Rightarrow> ('d, 'n option, 'a option) shnode \<Rightarrow> cint \<Rightarrow> ('w xst, unit) xm" where
  "sh_exec X 0 t flags = (\<lambda>s. None)"
| "sh_exec X (Suc k) t flags = exec_body X (sh_exec X k) k t flags"

end
