(* ===== verification/XecHoare.thy ===== *)
theory XecHoare
  imports XecExec
begin

text \<open>
  Assertions about \<open>sh_exec\<close>: what holds of every result, for the loop counters and the state in which
  \<open>set -e\<close> is obeyed.
\<close>

section \<open>Assertions\<close>

text \<open>\<open>Q\<close> holds when the computation returns and \<open>J\<close> when it leaves by a jump.\<close>

definition posts :: "('s, 'a) xresult option \<Rightarrow> ('a \<Rightarrow> 's \<Rightarrow> bool) \<Rightarrow> (cint \<Rightarrow> 's \<Rightarrow> bool) \<Rightarrow> bool" where
  "posts r Q J = (case r of None \<Rightarrow> True | Some (Done a s) \<Rightarrow> Q a s | Some (Jump j s) \<Rightarrow> J j s)"

lemma posts_simps [simp]:
  "posts None Q J" "posts (Some (Done a s)) Q J = Q a s" "posts (Some (Jump j s)) Q J = J j s"
  by (simp_all add: posts_def)

lemma posts_bind:
  "posts (f s) Q J \<Longrightarrow> (\<And>a s'. Q a s' \<Longrightarrow> posts (g a s') R J) \<Longrightarrow> posts (xbind f g s) R J"
  unfolding posts_def xbind_def by (cases "f s") (auto split: xresult.splits)

lemma posts_try: "posts (f s) (\<lambda>a. Q (Inr a)) (\<lambda>j. Q (Inl j)) \<Longrightarrow> posts (xtry f s) Q J"
  by (auto simp: posts_def xtry_def split: option.splits xresult.splits)

lemma posts_weaken:
  "posts r Q J \<Longrightarrow> (\<And>a s. Q a s \<Longrightarrow> Q' a s) \<Longrightarrow> (\<And>j s. J j s \<Longrightarrow> J' j s) \<Longrightarrow> posts r Q' J'"
  by (auto simp: posts_def split: option.splits xresult.splits)

section \<open>The part of the state they are about\<close>

definition ctl_view :: "'w xst \<Rightarrow> cint \<times> cint \<times> bool" where
  "ctl_view s = (loopcnt s, breakcnt s, sh_isstate SH_ERREXIT s)"

lemma state_bits:
  "x \<noteq> y \<Longrightarrow> sh_isstate x (sh_onstate y s) = sh_isstate x s"
  "x \<noteq> y \<Longrightarrow> sh_isstate x (sh_offstate y s) = sh_isstate x s"
  "x < 32 \<Longrightarrow> sh_isstate x (sh_onstate x s)" "\<not> sh_isstate x (sh_offstate x s)"
  by (auto simp: sh_isstate_def sh_onstate_def sh_offstate_def sh_state_def bit_eq_iff bit_simps)

lemma view_updates [simp]:
  "ctl_view (s\<lparr>exitval := v\<rparr>) = ctl_view s" "ctl_view (s\<lparr>savexit := v\<rparr>) = ctl_view s" "ctl_view (s\<lparr>lastsig := v\<rparr>) = ctl_view s"
  "ctl_view (s\<lparr>chldexitsig := v\<rparr>) = ctl_view s" "ctl_view (s\<lparr>trapnote := v\<rparr>) = ctl_view s" "ctl_view (s\<lparr>jmplist := m\<rparr>) = ctl_view s"
  "ctl_view (s\<lparr>errline := v\<rparr>) = ctl_view s" "ctl_view (s\<lparr>pipepid := v\<rparr>) = ctl_view s" "ctl_view (s\<lparr>waitall := v\<rparr>) = ctl_view s"
  "ctl_view (s\<lparr>pipejob := v\<rparr>) = ctl_view s" "ctl_view (s\<lparr>nlock := v\<rparr>) = ctl_view s" "ctl_view (s\<lparr>curpgid := v\<rparr>) = ctl_view s"
  "ctl_view (s\<lparr>curjobid := v\<rparr>) = ctl_view s" "ctl_view (s\<lparr>ioset := v\<rparr>) = ctl_view s" "ctl_view (s\<lparr>nextprompt := v\<rparr>) = ctl_view s"
  "ctl_view (s\<lparr>timeout := v\<rparr>) = ctl_view s" "ctl_view (exitset s) = ctl_view s" "ctl_view (sh_pushcontext v s) = ctl_view s"
  "ctl_view (sh_popcontext s) = ctl_view s" "ctl_view (set_line v s) = ctl_view s"
  "x \<noteq> SH_ERREXIT \<Longrightarrow> ctl_view (sh_onstate x s) = ctl_view s" "x \<noteq> SH_ERREXIT \<Longrightarrow> ctl_view (sh_offstate x s) = ctl_view s"
  "ctl_view (exitval_update h s) = ctl_view s"
  by (simp_all add: ctl_view_def state_bits exitset_def sh_pushcontext_def sh_popcontext_def set_line_def)
    (simp_all add: sh_isstate_def sh_onstate_def sh_offstate_def)

lemma view_truth [simp]: "ctl_view (set_truth n negate skip s) = ctl_view s"
  by (simp add: set_truth_def Let_def)

text \<open>\<open>p\<close> is an invariant of that part, and \<open>J\<close> holds of the values with which a jump leaves.\<close>

definition inv :: "(cint \<times> cint \<times> bool \<Rightarrow> bool) \<Rightarrow> (cint \<Rightarrow> bool) \<Rightarrow> ('w xst, 'a) xresult option \<Rightarrow> bool" where
  "inv p J r = posts r (\<lambda>_ s. p (ctl_view s)) (\<lambda>j _. J j)"

lemma inv_simps [simp]:
  "inv p J None" "inv p J (Some (Done a s)) = p (ctl_view s)" "inv p J (Some (Jump j s)) = J j"
  by (simp_all add: inv_def)

named_theorems inv_intros

lemma inv_bind [inv_intros]:
  "inv p J (f s) \<Longrightarrow> (\<And>a s'. p (ctl_view s') \<Longrightarrow> inv p J (g a s')) \<Longrightarrow> inv p J (xbind f g s)"
  unfolding inv_def by (rule posts_bind)

lemma inv_if [inv_intros]:
  "(b \<Longrightarrow> inv p J x) \<Longrightarrow> (\<not> b \<Longrightarrow> inv p J y) \<Longrightarrow> inv p J (if b then x else y)"
  "(b \<Longrightarrow> inv p J (f s)) \<Longrightarrow> (\<not> b \<Longrightarrow> inv p J (g s)) \<Longrightarrow> inv p J ((if b then f else g) s)"
  by simp_all

lemma inv_end [inv_intros]: "inv p J (f s) \<Longrightarrow> inv p J (end_with i f s)"
  unfolding end_with_def by (intro inv_intros) simp_all

lemma inv_call [inv_intros]: "p (ctl_view (snd (h s))) \<Longrightarrow> inv p J (xcall h s)"
  by (cases "h s") (simp add: xcall_def)

lemma inv_bind2:
  "inv p J (f s) \<Longrightarrow> (\<And>a s'. p (ctl_view s') \<Longrightarrow> inv q J (g a s')) \<Longrightarrow> inv q J (xbind f g s)"
  unfolding inv_def by (rule posts_bind)

text \<open>
  What every call out of the executor does with them; a failing redirection may also jump to the checkpoint of its
  own command.
\<close>

definition calls_keep :: "('d, 'n, 'a, 'w, 'm) xshell \<Rightarrow> (cint \<times> cint \<times> bool \<Rightarrow> bool) \<Rightarrow> (cint \<Rightarrow> bool) \<Rightarrow> bool" where
  "calls_keep X p J =
    ((\<forall>s. p (ctl_view s) \<longrightarrow>
      (\<forall>t fl. inv p J (x_leaf X t fl s)) \<and> inv p J (x_chktrap X s) \<and> (\<forall>v. inv p J (x_exit X v s)) \<and>
      (\<forall>tr argv fl. inv p J (x_debug X tr argv fl s)) \<and> inv p J (x_lastarg X s) \<and> inv p J (x_subfork X s) \<and>
      (\<forall>io fl. posts (x_redirect X io fl s) (\<lambda>_ s. p (ctl_view s)) (\<lambda>j s. J j \<or> \<not> SH_JMPIO <s j \<and> p (ctl_view s))) \<and>
      (\<forall>pid. inv p J (x_job_wait X pid s)) \<and> (\<forall>t. inv p J (x_argbuild X t s)) \<and> (\<forall>n. inv p J (x_nv_open X n s)) \<and>
      (\<forall>np. inv p J (x_nv_putsub X np s)) \<and> (\<forall>np v. inv p J (x_nv_putval X np v s)) \<and> (\<forall>np. inv p J (x_nv_setref X np s)) \<and>
      inv p J (x_readline X s) \<and> (\<forall>io. inv p J (x_openstream X io s)) \<and> (\<forall>a fl. inv p J (x_macpat X a fl s)) \<and>
      inv p J (x_sh_trace X s) \<and> (\<forall>e. inv p J (x_arith_exec X e s)) \<and> (\<forall>w. inv p J (x_sh_arith X w s)) \<and>
      (\<forall>r u y. inv p J (x_p_time X r u y s)) \<and> (\<forall>op a. inv p J (xtest X (test_unop (x_tests X) op a) s)) \<and>
      (\<forall>op a b. inv p J (xtest X (test_binop (x_tests X) op a b) s)) \<and>
      p (ctl_view (x_job_unlock X s)) \<and> (\<forall>b. p (ctl_view (x_pipe_in X b s))) \<and> (\<forall>fd j. p (ctl_view (x_iorestore X fd j s))) \<and>
      p (ctl_view (x_sync_outpool X s)) \<and> (\<forall>ts. p (ctl_view (snd (x_loop_enter X ts s)))) \<and>
      (\<forall>ts q. p (ctl_view (x_loop_leave X ts q s))) \<and> p (ctl_view (snd (x_arguse X s))) \<and> (\<forall>q. p (ctl_view (x_argfree X q s))) \<and>
      (\<forall>np. p (ctl_view (x_nv_offref X np s))) \<and> (\<forall>np b. p (ctl_view (x_nv_optimize X np b s))) \<and> (\<forall>w. p (ctl_view (x_menu X w s))) \<and>
      (\<forall>f. p (ctl_view (snd (x_getline X f s)))) \<and> p (ctl_view (x_reset_offsets X s)) \<and> (\<forall>f. p (ctl_view (x_closestream X f s))) \<and>
      (\<forall>w. p (ctl_view (x_errput X w s))) \<and> (\<forall>w. p (ctl_view (x_errpattern X w s))) \<and> p (ctl_view (snd (x_times X s)))) \<and>
     (\<forall>pid s. posts (x_job_wait X pid s) (\<lambda>_ _. True) (\<lambda>j _. J j)))"

lemma keep_calls:
  assumes "calls_keep X p J" "p (ctl_view s)"
  shows "inv p J (x_leaf X t fl s)" "inv p J (x_chktrap X s)" "inv p J (x_exit X v s)" "inv p J (x_debug X tr argv fl s)"
    "inv p J (x_lastarg X s)" "inv p J (x_subfork X s)" "inv p J (x_job_wait X pid s)" "inv p J (x_argbuild X t s)"
    "inv p J (x_nv_open X n s)" "inv p J (x_nv_putsub X np s)" "inv p J (x_nv_putval X np w s)" "inv p J (x_nv_setref X np s)"
    "inv p J (x_readline X s)" "inv p J (x_openstream X io s)" "inv p J (x_macpat X a fl s)" "inv p J (x_sh_trace X s)"
    "inv p J (x_arith_exec X ax s)" "inv p J (x_sh_arith X w s)" "inv p J (x_p_time X rt ut yt s)"
    "inv p J (xtest X (test_unop (x_tests X) op w) s)" "inv p J (xtest X (test_binop (x_tests X) bop w w') s)"
    and "p (ctl_view (x_job_unlock X s))" "p (ctl_view (x_pipe_in X b s))" "p (ctl_view (x_iorestore X fd j s))" "p (ctl_view (x_sync_outpool X s))"
    "p (ctl_view (snd (x_loop_enter X ts s)))" "p (ctl_view (x_loop_leave X ts q s))" "p (ctl_view (snd (x_arguse X s)))" "p (ctl_view (x_argfree X aq s))"
    "p (ctl_view (x_nv_offref X np s))" "p (ctl_view (x_nv_optimize X np b s))" "p (ctl_view (x_menu X ws s))" "p (ctl_view (snd (x_getline X f s)))"
    "p (ctl_view (x_reset_offsets X s))" "p (ctl_view (x_closestream X f s))" "p (ctl_view (x_errput X w s))" "p (ctl_view (x_errpattern X w s))"
    "p (ctl_view (snd (x_times X s)))"
    and "posts (x_redirect X io fl s) (\<lambda>_ s. p (ctl_view s)) (\<lambda>j s. J j \<or> \<not> SH_JMPIO <s j \<and> p (ctl_view s))"
  using assms(1) [unfolded calls_keep_def, THEN conjunct1, rule_format, OF assms(2)] by simp_all

text \<open>
  \<open>rec\<close> keeps an invariant for trees smaller than \<open>m\<close>; with \<open>z\<close> it is only called with flags that do not
  ask for \<open>set -e\<close>.
\<close>

definition rec_keeps :: "nat \<Rightarrow> bool \<Rightarrow> (cint \<times> cint \<times> bool \<Rightarrow> bool) \<Rightarrow> (cint \<Rightarrow> bool) \<Rightarrow>
    (('d, 'n, 'a) shnode \<Rightarrow> cint \<Rightarrow> ('w xst, unit) xm) \<Rightarrow> bool" where
  "rec_keeps m z p J rec =
    (\<forall>t fl s. size t < m \<longrightarrow> (z \<longrightarrow> fl AND sh_state SH_ERREXIT = 0) \<longrightarrow> p (ctl_view s) \<longrightarrow> inv p J (rec t fl s))"

lemma rec_keepsD:
  "rec_keeps m z p J rec \<Longrightarrow> size t < m \<Longrightarrow> (z \<Longrightarrow> fl AND sh_state SH_ERREXIT = 0) \<Longrightarrow> p (ctl_view s) \<Longrightarrow> inv p J (rec t fl s)"
  by (simp add: rec_keeps_def)

lemma quiet_flags [simp]:
  "(fl AND ARG_OPTIMIZE) AND sh_state SH_ERREXIT = 0"
  "fl AND sh_state SH_ERREXIT = 0 \<Longrightarrow> (fl AND g) AND sh_state SH_ERREXIT = 0"
  "(fl OR g) AND sh_state SH_ERREXIT = 0 \<longleftrightarrow> fl AND sh_state SH_ERREXIT = 0 \<and> g AND sh_state SH_ERREXIT = 0"
  "(fl AND sh_state SH_ERREXIT) AND sh_state SH_ERREXIT = fl AND sh_state SH_ERREXIT"
  "ARG_OPTIMIZE AND sh_state SH_ERREXIT = 0"
proof -
  have e: "sh_state SH_ERREXIT = 4" by (simp add: sh_state_def)
  show "(fl AND ARG_OPTIMIZE) AND sh_state SH_ERREXIT = 0" "ARG_OPTIMIZE AND sh_state SH_ERREXIT = 0"
    by (simp_all add: e and.assoc)
  show "fl AND sh_state SH_ERREXIT = 0 \<Longrightarrow> (fl AND g) AND sh_state SH_ERREXIT = 0"
    by (metis and.assoc and.commute and_zero_eq)
  show "(fl OR g) AND sh_state SH_ERREXIT = 0 \<longleftrightarrow> fl AND sh_state SH_ERREXIT = 0 \<and> g AND sh_state SH_ERREXIT = 0"
    by (auto simp: bit_eq_iff bit_simps)
  show "(fl AND sh_state SH_ERREXIT) AND sh_state SH_ERREXIT = fl AND sh_state SH_ERREXIT"
    by (simp add: and.assoc)
qed

section \<open>The cases\<close>

lemma inv_list:
  assumes "rec_keeps m z p J rec" "z \<Longrightarrow> fl AND sh_state SH_ERREXIT = 0" "z \<Longrightarrow> e AND sh_state SH_ERREXIT = 0"
  shows "size t \<le> m \<Longrightarrow> p (ctl_view s) \<Longrightarrow> inv p J (exec_list rec e fl t s)"
  using assms
proof (induction rec e fl t arbitrary: s rule: exec_list.induct)
  case (1 rec e fl ty l r)
  show ?case
    using 1(2-) unfolding exec_list.simps
    by (intro inv_intros rec_keepsD [OF 1(4)] 1(1)) auto
qed simp_all

lemma inv_pats: "calls_keep X p J \<Longrightarrow> p (ctl_view s) \<Longrightarrow> inv p J (pats_match X r fl a s)"
proof (induction X r fl a arbitrary: s rule: pats_match.induct)
  case (2 X r fl f val chn nxt)
  then show ?case by (auto intro!: inv_intros keep_calls(1-21))
qed simp

lemma inv_regs:
  assumes "calls_keep X p J" "rec_keeps m z p J rec" "z \<Longrightarrow> fl AND sh_state SH_ERREXIT = 0"
  shows "size regs \<le> m \<Longrightarrow> p (ctl_view s) \<Longrightarrow> inv p J (case_regs X rec r fl th regs s)"
  using assms
proof (induction X rec r fl th regs arbitrary: s rule: case_regs.induct)
  case (2 X rec r fl th f pat com nxt)
  show ?case
    using 2(3-) unfolding case_regs.simps
    by (intro inv_intros inv_pats rec_keepsD [OF 2(6)] 2(1,2)) auto
qed simp

lemma inv_debug: "calls_keep X p J \<Longrightarrow> p (ctl_view s) \<Longrightarrow> inv p J (debug_trap X words fl s)"
  by (auto simp: debug_trap_def split: option.splits intro: keep_calls(1-21))

lemma inv_assign:
  assumes "calls_keep X p J" "p (ctl_view s)"
  shows "inv p J (assign_loopvar X np nr cp s)"
  using assms(2) unfolding assign_loopvar_def by (auto intro!: inv_intros keep_calls(10,11,12,30,31) [OF assms(1)])

lemma inv_round:
  "calls_keep X p J \<Longrightarrow> (\<And>s. p (ctl_view s) \<Longrightarrow> inv p J (rec body fl s)) \<Longrightarrow> p (ctl_view s) \<Longrightarrow>
    inv p J (for_round X rec word nam np nr body fl cp s)"
  unfolding for_round_def by (intro inv_intros inv_debug inv_assign)

text \<open>What a loop needs of the invariant within it.\<close>

definition cont_keeps :: "(cint \<times> cint \<times> bool \<Rightarrow> bool) \<Rightarrow> bool" where
  "cont_keeps p = (\<forall>l b e. p (l, b, e) \<longrightarrow> p (l, if b <s 0 then b + 1 else b, e))"

lemma cont_down_view [simp]: "cont_keeps p \<Longrightarrow> p (ctl_view s) \<Longrightarrow> p (ctl_view (cont_down s))"
proof -
  assume "cont_keeps p" "p (ctl_view s)"
  then have "p (loopcnt s, if breakcnt s <s 0 then breakcnt s + 1 else breakcnt s, sh_isstate SH_ERREXIT s)"
    unfolding cont_keeps_def ctl_view_def by blast
  then show "p (ctl_view (cont_down s))" by (simp add: cont_down_def ctl_view_def sh_isstate_def split: if_splits)
qed

lemma inv_words:
  assumes "calls_keep X p J" "cont_keeps p" "\<And>fl s. (z \<Longrightarrow> fl AND sh_state SH_ERREXIT = 0) \<Longrightarrow> p (ctl_view s) \<Longrightarrow> inv p J (rec body fl s)"
    and "z \<Longrightarrow> fl AND sh_state SH_ERREXIT = 0"
  shows "p (ctl_view s) \<Longrightarrow> inv p J (for_words X rec nam np nr body fl args s)"
  using assms(4)
  by (induction args arbitrary: fl s) (auto intro!: inv_intros inv_round assms(1,3) simp: assms(2))

lemma inv_select:
  assumes "calls_keep X p J" "cont_keeps p" "\<And>fl s. (z \<Longrightarrow> fl AND sh_state SH_ERREXIT = 0) \<Longrightarrow> p (ctl_view s) \<Longrightarrow> inv p J (rec body fl s)"
    and "z \<Longrightarrow> fl AND sh_state SH_ERREXIT = 0"
  shows "p (ctl_view s) \<Longrightarrow> inv p J (select_loop X rec nam np nr body args k fl cp rf s)"
  using assms(4)
proof (induction k arbitrary: fl cp rf s)
  case (Suc k)
  have "p (ctl_view (x_menu X args u))" "inv p J (x_readline X u)" if "p (ctl_view u)" for u
    by (rule keep_calls [OF assms(1) that])+
  then show ?case
    using Suc.prems assms(2) unfolding select_loop.simps Let_def
    by (auto split: option.splits intro!: inv_intros inv_round assms(1,3) Suc.IH)
qed simp

lemma inv_while:
  assumes "calls_keep X p J" "cont_keeps p"
    and "\<And>t fl s. t \<in> {tt, body, inc} \<Longrightarrow> (z \<Longrightarrow> fl AND sh_state SH_ERREXIT = 0) \<Longrightarrow> p (ctl_view s) \<Longrightarrow> inv p J (rec t fl s)"
    and "z \<Longrightarrow> first AND sh_state SH_ERREXIT = 0" "z \<Longrightarrow> e AND sh_state SH_ERREXIT = 0"
  shows "p (ctl_view s) \<Longrightarrow> inv p J (while_loop X rec type tt body inc iop always k first e r s)"
  using assms(4,5)
proof (induction k arbitrary: first e r s)
  case (Suc k)
  have rec: "inv p J (rec t fl u)" if "t \<in> {tt, body, inc}" "z \<Longrightarrow> fl AND sh_state SH_ERREXIT = 0" "p (ctl_view u)" for t fl u
    by (rule assms(3)) (use that in auto)
  have test: "inv p J (while_test X rec type tt iop always first u)" if "p (ctl_view u)" for u
    unfolding while_test_def using Suc.prems that keep_calls(33) [OF assms(1) that]
    by (cases iop) (auto intro!: inv_intros rec)
  have next_round: "inv p J (while_loop X rec type tt body inc iop always k 0 (e AND NOT ARG_OPTIMIZE) v (x_reset_offsets X u))"
    if "p (ctl_view u)" for v u
    by (rule Suc.IH) (use Suc.prems keep_calls(34) [OF assms(1) that] in simp_all)
  have inc: "inv p J ((if b then rec inc first else xret ()) u)" if "p (ctl_view u)" for b u
    using that Suc.prems rec [of inc first u] by simp
  have body: "inv p J (rec body (first OR e) u)" if "p (ctl_view u)" for u
    using that Suc.prems rec [of body "first OR e" u] by simp
  have rest: "inv p J ((\<lambda>_ s. let r = exitval s; s = cont_down s in
      xbind (if breakcnt s = 0 \<and> inc \<noteq> NullT then rec inc first else xret ()) (\<lambda>_ s.
        while_loop X rec type tt body inc iop always k 0 (e AND NOT ARG_OPTIMIZE) r (x_reset_offsets X s)) s) () u)"
    if "p (ctl_view u)" for u
    unfolding Let_def by (rule inv_bind, rule inc, rule cont_down_view [OF assms(2) that], rule next_round)
  have "inv p J (xbind (test_round) (\<lambda>go. if \<not> go then xret r else xbind (rec body (first OR e)) (\<lambda>_. h)) s)"
    if "\<And>u. p (ctl_view u) \<Longrightarrow> inv p J (test_round u)" "\<And>u. p (ctl_view u) \<Longrightarrow> inv p J (h u)" for test_round h
    by (rule inv_bind, rule that(1) [OF Suc.prems(1)]) (auto intro!: inv_bind [OF body] that(2))
  from this [OF test rest] show ?case using Suc.prems(1) by simp
qed simp

text \<open>A loop: \<open>p\<close> around it and \<open>q\<close> within.\<close>

lemma inv_in_loop:
  assumes "calls_keep X p J" "calls_keep X q J" "p (ctl_view s)"
    and "\<And>s. p (ctl_view s) \<Longrightarrow> inv q J (body s)" "\<And>b s. q (ctl_view s) \<Longrightarrow> inv p J (after b s)"
  shows "inv p J (in_loop X ts body after s)"
proof -
  obtain o' s1 where e: "x_loop_enter X ts s = (o', s1)" by force
  have p1: "p (ctl_view s1)" using keep_calls(26) [OF assms(1,3), of ts] by (simp add: e)
  let ?Q = "\<lambda>r s. case r of Inl j \<Rightarrow> J j | Inr b \<Rightarrow> q (ctl_view s)"
  have b: "posts (xtry body (sh_pushcontext (jmpmode s) s1)) ?Q (\<lambda>j _. J j)"
    by (rule posts_try) (use assms(4) [of "sh_pushcontext (jmpmode s) s1"] p1 in \<open>simp add: inv_def\<close>)
  have l: "q (ctl_view (x_loop_leave X ts o' (sh_popcontext u)))" if "q (ctl_view u)" for u
    by (rule keep_calls(27) [OF assms(2)]) (simp add: that)
  show ?thesis
    unfolding in_loop_def Let_def e prod.case inv_def
    by (rule posts_bind, rule b) (auto simp: assms(5) [unfolded inv_def] l split: sum.splits)
qed

text \<open>What the two invariants of a loop have to do with each other.\<close>

definition loop_pair :: "(cint \<times> cint \<times> bool \<Rightarrow> bool) \<Rightarrow> (cint \<times> cint \<times> bool \<Rightarrow> bool) \<Rightarrow> bool" where
  "loop_pair p q =
    (cont_keeps q \<and> (\<forall>l b e. p (l, b, e) \<longrightarrow> q (l + 1, b, e)) \<and>
     (\<forall>l b e. q (l, b, e) \<longrightarrow> p (l - 1, if 0 <s b then b - 1 else b, e)))"

lemma loop_pair_enter: "loop_pair p q \<Longrightarrow> p (ctl_view s) \<Longrightarrow> q (ctl_view (s\<lparr>loopcnt := loopcnt s + 1\<rparr>))"
  by (simp add: loop_pair_def ctl_view_def sh_isstate_def)

lemma loop_pair_done: "loop_pair p q \<Longrightarrow> q (ctl_view s) \<Longrightarrow> p (ctl_view (loop_done s))"
proof -
  assume "loop_pair p q" "q (ctl_view s)"
  then have "p (loopcnt s - 1, if 0 <s breakcnt s then breakcnt s - 1 else breakcnt s, sh_isstate SH_ERREXIT s)"
    unfolding loop_pair_def ctl_view_def by blast
  then show "p (ctl_view (loop_done s))" by (simp add: loop_done_def ctl_view_def sh_isstate_def Let_def split: if_splits)
qed

lemma inv_for:
  assumes p: "calls_keep X p J" and q: "calls_keep X q J" and loop: "loop_pair p q"
    and r: "rec_keeps m z q J rec" "size body < m" and e: "z \<Longrightarrow> e AND sh_state SH_ERREXIT = 0"
    and s: "p (ctl_view s)"
  shows "inv p J (exec_for X rec k e ty nam body lst line s)"
  unfolding exec_for_def
proof (rule inv_in_loop [OF p q s], goal_cases)
  case (1 s)
  have c: "cont_keeps q" using loop by (simp add: loop_pair_def)
  have body: "inv q J (rec body fl u)" if "z \<Longrightarrow> fl AND sh_state SH_ERREXIT = 0" "q (ctl_view u)" for fl u
    by (rule rec_keepsD [OF r that])
  have args: "inv p J ((if lst = NullT then xbind (xcall (x_arguse X)) (\<lambda>(args, p). xret (args, Some p))
      else xbind (x_argbuild X lst) (\<lambda>args. xret (args, None))) u)" if "p (ctl_view u)" for u
    using that by (auto intro!: inv_intros keep_calls(8,28) [OF p] split: prod.splits)
  have words: "inv q J ((if ty AND COMSCAN \<noteq> 0 then select_loop X rec nam np nr body args k (e OR ARG_OPTIMIZE) cp True
      else for_words X rec nam np nr body (e OR ARG_OPTIMIZE) args) u)" if "q (ctl_view u)" for np nr args cp u
    using that e by (auto intro!: inv_select [OF q c, where z = z] inv_words [OF q c, where z = z] body)
  have opt: "q (ctl_view (if nr then x_nv_optimize X np False u else u))" if "q (ctl_view u)" for np nr u
    using keep_calls(31) [OF q that] that by simp
  show ?case
    unfolding Let_def xbind_upd
    apply (rule inv_bind2, rule args, simp add: 1)
    apply (clarsimp split: prod.splits)
    apply (rule inv_bind2, rule keep_calls(9) [OF p], assumption)
    apply (rule inv_bind, rule words, erule loop_pair_enter [OF loop])
    by (simp add: opt)
next
  case (2 b s)
  then show ?case using keep_calls(29) [OF p loop_pair_done [OF loop]] by simp
qed

lemma inv_while_cmd:
  assumes p: "calls_keep X p J" and q: "calls_keep X q J" and loop: "loop_pair p q"
    and r: "rec_keeps m z q J rec" "size tt < m" "size body < m" "size inc < m" and e: "z \<Longrightarrow> e AND sh_state SH_ERREXIT = 0"
    and s: "p (ctl_view s)"
  shows "inv p J (exec_while X rec k e ty tt body inc s)"
  unfolding exec_while_def
proof (rule inv_in_loop [OF p q s], goal_cases)
  case (1 s)
  have c: "cont_keeps q" using loop by (simp add: loop_pair_def)
  have rec: "inv q J (rec t fl u)" if "t \<in> {tt, body, inc}" "z \<Longrightarrow> fl AND sh_state SH_ERREXIT = 0" "q (ctl_view u)" for t fl u
    by (rule rec_keepsD [OF r(1) _ that(2,3)]) (use that(1) r in auto)
  have loop: "inv q J (while_loop X rec ty tt body inc iop always k ARG_OPTIMIZE e v u)" if "q (ctl_view u)" for iop always v u
    by (rule inv_while [OF q c, where z = z, OF rec _ _ that]) (use e in auto)
  have scan: "inv p J ((case filescan X ty tt s of None \<Rightarrow> xret None s | Some io \<Rightarrow> x_openstream X io s))"
    using keep_calls(14) [OF p 1] 1 by (simp split: option.splits)
  show ?case
    by (rule inv_bind2, rule scan) (auto intro!: inv_bind [OF loop] loop_pair_enter [OF assms(3)])
next
  case (2 b s)
  obtain v iop where b: "b = (v, iop)" by force
  have "p (ctl_view ((loop_done s)\<lparr>exitval := v\<rparr>))" using loop_pair_done [OF loop 2] by simp
  then show ?case using keep_calls(35) [OF p] by (simp add: b Let_def split: option.splits)
qed

lemma wait_jumps:
  "calls_keep X p J \<Longrightarrow> posts (pipe_wait X w pid u) (\<lambda>_ _. True) (\<lambda>j _. J j)"
proof -
  assume "calls_keep X p J"
  then have w: "posts (x_job_wait X pid v) (\<lambda>_ _. True) (\<lambda>j _. J j)" for pid v by (simp add: calls_keep_def)
  show ?thesis unfolding pipe_wait_def Let_def by (auto intro!: posts_bind [OF w])
qed

lemma zero_mode: "\<not> SH_JMPIO <s (0 :: cint)"
  by code_simp

lemma inv_setio:
  assumes p: "calls_keep X p J" and J: "\<And>j. J j \<Longrightarrow> SH_JMPIO <s j"
    and r: "rec_keeps m z p J rec" "size tre < m" and fl: "z \<Longrightarrow> fl AND sh_state SH_ERREXIT = 0" and s: "p (ctl_view s)"
  shows "inv p J (exec_setio X rec fl ty io tre line s)"
proof -
  have wait: "inv p J ((if b then pipe_wait X w pid else xret ()) u)" if "p (ctl_view u)" for b w pid u
    using that unfolding pipe_wait_def Let_def
    by (auto intro!: inv_intros keep_calls(7) [OF p])
  have start: "p (ctl_view (if b then (x_pipe_in X c (sh_offstate SH_INTERACTIVE u))\<lparr>waitall := 0\<rparr> else set_line line u))"
    if "p (ctl_view u)" for b c u
    using keep_calls(23) [OF p, of "sh_offstate SH_INTERACTIVE u"] that by simp
  let ?Q = "\<lambda>r u. case r of Inl j \<Rightarrow> J j \<or> \<not> SH_JMPIO <s j \<and> p (ctl_view u) | Inr _ \<Rightarrow> p (ctl_view u)"
  have body: "posts (xtry (\<lambda>v. xbind (x_redirect X io (ef v)) (\<lambda>_. rec (or_tretyp (ty AND FSHOWME) tre) (f v)) v) u) ?Q (\<lambda>j _. J j)"
    if "p (ctl_view u)" "\<And>v. z \<Longrightarrow> f v AND sh_state SH_ERREXIT = 0" for ef f u
  proof (rule posts_try)
    have "posts (rec (or_tretyp (ty AND FSHOWME) tre) (f x) v) (\<lambda>_ v. p (ctl_view v)) (\<lambda>j v. J j \<or> \<not> SH_JMPIO <s j \<and> p (ctl_view v))"
      if "p (ctl_view v)" for v x
      by (rule posts_weaken, rule rec_keepsD [OF r(1), unfolded inv_def])
        (use r(2) that \<open>\<And>v. z \<Longrightarrow> f v AND sh_state SH_ERREXIT = 0\<close> in auto)
    then show "posts (xbind (x_redirect X io (ef u)) (\<lambda>_. rec (or_tretyp (ty AND FSHOWME) tre) (f u)) u)
      (\<lambda>a u. ?Q (Inr a) u) (\<lambda>j u. ?Q (Inl j) u)"
      using keep_calls(39) [OF p that(1)] by (auto intro!: posts_bind)
  qed
  have rest: "inv p J (xbind (if b then pipe_wait X w pid else xret ()) (\<lambda>_.
      if SH_JMPIO <s j then xjump j else xret i) (x_iorestore X fd j (sh_popcontext u)))"
    if "J j \<and> SH_JMPIO <s j \<or> \<not> SH_JMPIO <s j \<and> p (ctl_view u)" for b w pid j fd u and i :: xinfo
  proof (cases "J j")
    case True
    have "posts ((if b then pipe_wait X w pid else xret ()) v) (\<lambda>_ _. True) (\<lambda>j _. J j)" for v
      using wait_jumps [OF p] by simp
    then show ?thesis unfolding inv_def by (rule posts_bind) (use True J in auto)
  next
    case False
    then have u: "p (ctl_view u)" "\<not> SH_JMPIO <s j" using that by auto
    have "p (ctl_view (x_iorestore X fd j (sh_popcontext u)))" by (rule keep_calls(24) [OF p]) (simp add: u)
    then show ?thesis by (rule inv_bind [OF wait]) (use u in auto)
  qed
  show ?thesis
    unfolding exec_setio_def Let_def
  proof (rule inv_bind [where p = p], goal_cases)
    case 1
    then show ?case using s keep_calls(6) [OF p s] by simp
  next
    case (2 a s')
    then have "p (ctl_view (sh_pushcontext SH_JMPIO s'))" by simp
    from body [OF start [OF this]] show ?case
      unfolding inv_def
    proof (rule posts_bind, goal_cases)
      case (1 v)
      then show ?case using fl by simp
    next
      case (2 r u)
      let ?j = "case r of Inl j \<Rightarrow> j | Inr _ \<Rightarrow> 0" and ?u = "case r of Inl j \<Rightarrow> x_sync_outpool X u | Inr _ \<Rightarrow> u"
      have "J ?j \<and> SH_JMPIO <s ?j \<or> \<not> SH_JMPIO <s ?j \<and> p (ctl_view ?u)"
        using 2 J keep_calls(25) [OF p] zero_mode by (auto split: sum.splits)
      from rest [OF this] show ?case unfolding inv_def .
    qed
  qed
qed

lemma inv_test:
  assumes p: "calls_keep X p J" and s: "p (ctl_view s)"
  shows "inv p J (exec_test X fl ty l r line s)"
proof -
  have un: "inv p J (unary_test X a0 trap tr op left u)" if "p (ctl_view u)" for a0 trap tr op left u
  proof -
    have e: "p (ctl_view (if tr then x_errput X w u else u))" for w using keep_calls(36) [OF p that] that by simp
    have d: "inv p J ((case trap of None \<Rightarrow> xret () | Some t \<Rightarrow> x_debug X t argv 0) u)" if "p (ctl_view u)" for argv u
      using keep_calls(4) [OF p that] that by (simp split: option.splits)
    show ?thesis
      unfolding unary_test_def xbind_upd by (rule inv_bind, rule d, rule e, rule keep_calls(20) [OF p])
  qed
  have bin: "inv p J (binary_test X a0 trap tr n left right u)" if "p (ctl_view u)" for a0 trap tr n left right u
  proof -
    have d: "inv p J ((case trap of None \<Rightarrow> xret () | Some t \<Rightarrow> x_debug X t argv f) u)" if "p (ctl_view u)" for argv f u
      using keep_calls(4) [OF p that] that by (simp split: option.splits)
    have e: "p (ctl_view (if b then x_errpattern X w (x_errput X v u) else x_errput X y (x_errput X v u)))" if "p (ctl_view u)" for b w v y u
      using keep_calls(36) [OF p] keep_calls(37) [OF p] that by simp
    show ?thesis
      unfolding binary_test_def Let_def
      by (rule inv_bind, rule d, rule that, rule inv_bind, rule keep_calls(21) [OF p], assumption) (use e in auto)
  qed
  have t: "inv p J ((if b then xbind (x_sh_trace X) (\<lambda>on. xbind (xupd (x_errput X w)) (\<lambda>_. xret on)) else xret False) u)"
    if "p (ctl_view u)" for b w u
    using that by (auto intro!: inv_intros keep_calls(16,36) [OF p])
  have m: "inv p J ((if b then x_macpat X a f else xret []) u)" if "p (ctl_view u)" for b a f u
    using keep_calls(15) [OF p that] that by simp
  have v: "inv p J ((if ty AND TUNARY \<noteq> 0 then unary_test X a0 trap tr op left
      else if b then binary_test X a0 trap tr n left right else xret i) u)" if "p (ctl_view u)" for a0 trap tr op left b n right i u
    using un [OF that] bin [OF that] that by simp
  have e: "p (ctl_view (if b then x_errput X w u else u))" if "p (ctl_view u)" for b w u using keep_calls(36) [OF p that] that by simp
  show ?thesis
    unfolding exec_test_def Let_def
    by (rule inv_bind [where p = p], simp add: s, rule inv_bind, rule keep_calls(15) [OF p], assumption, rule inv_bind, rule m, assumption,
        rule inv_bind, rule t, assumption, rule inv_bind, rule v, assumption) (simp add: e)
qed

lemma inv_arith:
  assumes p: "calls_keep X p J" and s: "p (ctl_view s)"
  shows "inv p J (exec_arith X fl line a ax s)"
proof -
  have w: "inv p J (arg_word X fl a u)" if "p (ctl_view u)" for u
    using keep_calls(15) [OF p that] that by (auto simp: arg_word_def split: argnod.splits)
  have t: "inv p J ((if x_option X SH_XTRACE u then xbind (x_sh_trace X) (\<lambda>_. xupd (x_errput X v)) u else xret () u))"
    if "p (ctl_view u)" for v u
    using that by (auto intro!: inv_intros keep_calls(16,36) [OF p])
  have c: "inv p J ((case ax of Some ax \<Rightarrow> x_arith_exec X ax | None \<Rightarrow> x_sh_arith X v) u)" if "p (ctl_view u)" for v u
    using keep_calls(17,18) [OF p that] by (simp split: option.splits)
  show ?thesis
    unfolding exec_arith_def
    by (rule inv_bind [where p = p], simp add: s, rule inv_bind, rule w, assumption, rule inv_bind, rule inv_debug [OF p], assumption,
        rule inv_bind, rule t, assumption, rule inv_bind, rule c, assumption) simp
qed

lemma inv_time:
  assumes p: "calls_keep X p J" and r: "rec_keeps m z p J rec" "size t < m"
    and off: "\<And>l b e. z \<Longrightarrow> p (l, b, e) \<Longrightarrow> \<not> e" and s: "p (ctl_view s)"
  shows "inv p J (exec_time X rec fl ty t s)"
proof -
  have f: "(states u AND sh_state SH_ERREXIT OR fl AND ARG_OPTIMIZE) AND sh_state SH_ERREXIT = 0" if "z" "p (ctl_view u)" for u
    using off [OF that(1), of "loopcnt u" "breakcnt u" "sh_isstate SH_ERREXIT u"] that(2) by (simp add: ctl_view_def sh_isstate_def)
  have b: "inv p J (rec t (fl AND ARG_OPTIMIZE) u)"
    "inv p J (rec t (states u AND sh_state SH_ERREXIT OR fl AND ARG_OPTIMIZE) u)" if "p (ctl_view u)" for u
    using f [OF _ that] by (auto intro!: rec_keepsD [OF r] that)
  have e: "inv p J (xbind (xcall (x_times X)) (\<lambda>(a, b, c). x_p_time X (f a) (g b) (h c)) u)" if "p (ctl_view u)" for f g h u
    using that by (auto intro!: inv_intros keep_calls(19,38) [OF p] split: prod.splits)
  have l: "inv p J (xcall (x_times X) u)" if "p (ctl_view u)" for u by (rule inv_call, rule keep_calls(38) [OF p that])
  have timed: "inv p J (xbind (xcall (x_times X)) (\<lambda>(treal, tusr, tsys) s. xbind (rec t ((states (sh_onstate SH_TIMING s) AND sh_state SH_ERREXIT) OR (fl AND ARG_OPTIMIZE))) (\<lambda>_ s'.
      xbind (xcall (x_times X)) (\<lambda>(areal, ausr, asys). x_p_time X (Some (areal - treal)) (ausr - tusr) (asys - tsys))
        (if sh_isstate SH_TIMING s then s' else sh_offstate SH_TIMING s')) (sh_onstate SH_TIMING s)) s)"
    by (rule inv_bind, rule l, rule s) (auto intro!: inv_bind [OF b(2)] e split: prod.splits)
  show ?thesis
  proof (cases "ty = TTIME")
    case True
    then show ?thesis using timed e [OF s] by (simp add: exec_time_def Let_def)
  next
    case False
    have "inv p J (xbind (rec t (fl AND ARG_OPTIMIZE)) (\<lambda>_. xupd h) s)" if "\<And>u. p (ctl_view u) \<Longrightarrow> p (ctl_view (h u))" for h
      by (rule inv_bind, rule b(1) [OF s]) (simp add: that)
    then show ?thesis using False by (simp add: exec_time_def)
  qed
qed

text \<open>Every case keeps \<open>p\<close>, when \<open>q\<close> is kept within loops.\<close>

lemma inv_case:
  assumes p: "calls_keep X p J" and q: "calls_keep X q J" and loop: "loop_pair p q"
    and J: "\<And>j. J j \<Longrightarrow> SH_JMPIO <s j" and off: "\<And>l b e. z \<Longrightarrow> p (l, b, e) \<Longrightarrow> \<not> e"
    and r: "rec_keeps m z p J rec" "rec_keeps m z q J rec" and t: "size t \<le> m"
    and fl: "z \<Longrightarrow> fl AND sh_state SH_ERREXIT = 0" and s: "p (ctl_view s)"
  shows "inv p J (exec_case X rec k fl t s)"
proof -
  let ?e = "(fl AND sh_state SH_ERREXIT) OR (fl AND ARG_OPTIMIZE)"
  have e: "?e AND sh_state SH_ERREXIT = 0" if z using fl [OF that] by simp
  have leaf: "inv p J (xbind (x_leaf X t fl) (\<lambda>c. xret (i c)) s)" for i
    using s by (auto intro!: inv_intros keep_calls(1) [OF p])
  have rec: "inv p J (rec u f v)" if "size u < size t" "z \<Longrightarrow> f AND sh_state SH_ERREXIT = 0" "p (ctl_view v)" for u f v
    by (rule rec_keepsD [OF r(1) _ that(2,3)]) (use that(1) t in simp)
  show ?thesis
  proof (cases t)
    case (LstNod ty l rr)
    then show ?thesis
      using s t leaf fl by (auto simp: exec_case_def Let_def exec_andor_def simp del: exec_list.simps
          intro!: inv_intros inv_list [OF r(1) fl e] rec keep_calls(1) [OF p])
  next
    case (ForkNod ty io tre line)
    then show ?thesis
      using t s fl by (auto simp: exec_case_def Let_def intro!: inv_intros inv_setio [OF p J r(1)] keep_calls(1) [OF p])
  next
    case (ForNod ty nam body lst line)
    then show ?thesis
      using t s e by (auto simp: exec_case_def Let_def intro!: inv_end inv_for [OF p q loop r(2)])
  next
    case (WhNod ty tt body inc)
    then show ?thesis
      using t s e by (auto simp: exec_case_def Let_def intro!: inv_end inv_while_cmd [OF p q loop r(2)])
  next
    case (ParNod ty u)
    then show ?thesis
      using t s by (auto simp: exec_case_def Let_def intro!: inv_intros inv_time [OF p r(1) _ off] keep_calls(1) [OF p])
  next
    case (SwNod ty a regs io line)
    have "inv p J (exec_switch X rec fl a regs line s)"
      unfolding exec_switch_def using s t SwNod fl
      by (auto intro!: inv_intros keep_calls(15) [OF p] inv_debug [OF p] inv_regs [OF p r(1)])
    then show ?thesis using SwNod by (auto simp: exec_case_def intro!: inv_end)
  qed (use s t leaf fl rec in \<open>auto simp: exec_case_def Let_def exec_if_def exec_testpar_def
      intro!: inv_intros inv_test [OF p] inv_arith [OF p] keep_calls(1) [OF p]\<close>)
qed

end
