(* ===== verification/XecLoops.thy ===== *)
theory XecLoops
  imports XecHoare
begin

text \<open>
  What \<open>sh_exec\<close> keeps: the level of loops that \<open>break\<close> and \<open>continue\<close> count, and the state in which \<open>set -e\<close> is
  obeyed.
\<close>

section \<open>One call\<close>


section \<open>Levels of loops\<close>









section \<open>\<open>set -e\<close>\<close>



lemma shortcut_bit [simp]:
  "sh_isstate x (shortcut_effect fp s) = sh_isstate x s" "trapnote (shortcut_effect fp s) = trapnote s"
  "sh_isstate x (exitset s) = sh_isstate x s" "trapnote (exitset s) = trapnote s"
  by (simp_all add: sh_isstate_def shortcut_effect_def exitset_def split: bltin.splits)



end
