(* ===== verification/XecFuel.thy ===== *)
theory XecFuel
  imports XecExec
begin

text \<open>
  Fuel of \<open>sh_exec\<close>: more of it never changes a result, and trees without \<open>while\<close>, \<open>until\<close>,
  \<open>select\<close> need no more than their height.
\<close>

section \<open>More fuel\<close>

text \<open>A result is kept.\<close>

definition kept_result :: "'r option \<Rightarrow> 'r option \<Rightarrow> bool" where
  "kept_result x y = (x = None \<or> x = y)"

named_theorems kept_intros

lemma kept_basic [kept_intros]: "kept_result x x" "kept_result None y"
  by (simp_all add: kept_result_def)

lemma kept_bind [kept_intros]:
  "kept_result (f s) (f' s) \<Longrightarrow> (\<And>a s'. kept_result (g a s') (g' a s')) \<Longrightarrow> kept_result (xbind f g s) (xbind f' g' s)"
  unfolding kept_result_def xbind_def by (cases "f s") (fastforce split: xresult.splits)+

lemma kept_try [kept_intros]: "kept_result (f s) (f' s) \<Longrightarrow> kept_result (xtry f s) (xtry f' s)"
  by (auto simp: kept_result_def xtry_def)

lemma kept_if [kept_intros]:
  "(b \<Longrightarrow> kept_result x x') \<Longrightarrow> (\<not> b \<Longrightarrow> kept_result y y') \<Longrightarrow> kept_result (if b then x else y) (if b then x' else y')"
  "(b \<Longrightarrow> kept_result (f s) (f' s)) \<Longrightarrow> (\<not> b \<Longrightarrow> kept_result (g s) (g' s)) \<Longrightarrow> kept_result ((if b then f else g) s) ((if b then f' else g') s)"
  by simp_all

lemma kept_end [kept_intros]: "kept_result (f s) (f' s) \<Longrightarrow> kept_result (end_with i f s) (end_with i f' s)"
  unfolding end_with_def by (intro kept_intros)

lemma kept_in_loop:
  assumes "\<And>s. kept_result (f s) (f' s)"
  shows "kept_result (in_loop X ts f after s) (in_loop X ts f' after s)"
  using assms unfolding in_loop_def
  by (auto simp: Let_def split: prod.splits intro!: kept_intros)

definition keeps_results :: "('t \<Rightarrow> 'f \<Rightarrow> ('s, 'a) xm) \<Rightarrow> ('t \<Rightarrow> 'f \<Rightarrow> ('s, 'a) xm) \<Rightarrow> bool" where
  "keeps_results rec rec' = (\<forall>t fl s. kept_result (rec t fl s) (rec' t fl s))"

lemma kept_list: "keeps_results rec rec' \<Longrightarrow> kept_result (exec_list rec e fl t s) (exec_list rec' e fl t s)"
  by (induction rec e fl t arbitrary: s rule: exec_list.induct) (auto simp: keeps_results_def intro!: kept_intros)

lemma kept_words:
  "keeps_results rec rec' \<Longrightarrow> kept_result (for_words X rec nam np nr body fl args s) (for_words X rec' nam np nr body fl args s)"
  by (induction X rec nam np nr body fl args arbitrary: s rule: for_words.induct)
    (auto simp: keeps_results_def for_round_def intro!: kept_intros)

lemma kept_select:
  "keeps_results rec rec' \<Longrightarrow> k \<le> k' \<Longrightarrow>
   kept_result (select_loop X rec nam np nr body args k fl cp rf s) (select_loop X rec' nam np nr body args k' fl cp rf s)"
proof (induction k arbitrary: k' fl cp rf s)
  case (Suc k)
  then obtain n where n: "k' = Suc n" "k \<le> n" by (cases k') auto
  have "kept_result (select_loop X rec nam np nr body args k fl cp rf s) (select_loop X rec' nam np nr body args n fl cp rf s)" for fl cp rf s
    by (rule Suc.IH [OF Suc.prems(1) n(2)])
  with Suc.prems(1) show ?case
    unfolding n(1) select_loop.simps Let_def for_round_def keeps_results_def
    by (auto split: option.splits prod.splits intro!: kept_intros)
qed (simp add: kept_intros)

lemma kept_while:
  "keeps_results rec rec' \<Longrightarrow> k \<le> k' \<Longrightarrow>
   kept_result (while_loop X rec type tt body inc iop always k first e r s) (while_loop X rec' type tt body inc iop always k' first e r s)"
proof (induction k arbitrary: k' first e r s)
  case (Suc k)
  then obtain n where n: "k' = Suc n" "k \<le> n" by (cases k') auto
  have "kept_result (while_loop X rec type tt body inc iop always k first e r s) (while_loop X rec' type tt body inc iop always n first e r s)"
    for first e r s by (rule Suc.IH [OF Suc.prems(1) n(2)])
  with Suc.prems(1) show ?case
    unfolding n(1) while_loop.simps while_test_def Let_def keeps_results_def
    by (auto split: option.splits intro!: kept_intros)
qed (simp add: kept_intros)

lemma kept_regs: "keeps_results rec rec' \<Longrightarrow> kept_result (case_regs X rec r fl th regs s) (case_regs X rec' r fl th regs s)"
  by (induction X rec r fl th regs arbitrary: s rule: case_regs.induct) (auto simp: keeps_results_def intro!: kept_intros)

lemmas kept_defs = exec_andor_def exec_if_def exec_for_def exec_while_def exec_setio_def exec_switch_def exec_time_def exec_testpar_def

lemma kept_case:
  assumes r: "keeps_results rec rec'" and k: "k \<le> k'"
  shows "kept_result (exec_case X rec k fl t s) (exec_case X rec' k' fl t s)"
proof -
  note rec = r [unfolded keeps_results_def, rule_format]
  have t: "kept_result (exec_list rec e fl u s) (exec_list rec' e fl u s)"
    "kept_result (exec_andor rec b fl l rt s) (exec_andor rec' b fl l rt s)"
    "kept_result (exec_if rec fl c th el s) (exec_if rec' fl c th el s)"
    "kept_result (exec_testpar rec fl ty l line s) (exec_testpar rec' fl ty l line s)" for e b l rt c th el ty line s u
    using rec by (auto simp: exec_andor_def exec_if_def exec_testpar_def intro!: kept_intros kept_list r)
  have l: "kept_result (exec_for X rec k e ty nam body lst line s) (exec_for X rec' k' e ty nam body lst line s)" for e ty nam body lst line s
    unfolding exec_for_def by (intro kept_in_loop) (auto simp: Let_def split: prod.splits intro!: kept_intros kept_select kept_words r k)
  have w: "kept_result (exec_while X rec k e ty tt body inc s) (exec_while X rec' k' e ty tt body inc s)" for e ty tt body inc s
    unfolding exec_while_def by (intro kept_in_loop) (auto intro!: kept_intros kept_while r k)
  have i: "kept_result (exec_setio X rec fl ty io tre line s) (exec_setio X rec' fl ty io tre line s)" for ty io tre line s
    unfolding exec_setio_def Let_def using rec by (auto intro!: kept_intros)
  have c: "kept_result (exec_switch X rec fl a regs line s) (exec_switch X rec' fl a regs line s)" for a regs line s
    unfolding exec_switch_def by (auto intro!: kept_intros kept_regs r)
  have m: "kept_result (exec_time X rec fl ty p s) (exec_time X rec' fl ty p s)" for ty p s
    unfolding exec_time_def using rec by (auto simp: Let_def split: prod.splits intro!: kept_intros)
  show ?thesis
    unfolding exec_case_def Let_def by (cases t) (auto simp del: exec_list.simps intro!: kept_intros t l w i c m)
qed

lemma kept_body:
  assumes "keeps_results rec rec'" "k \<le> k'"
  shows "kept_result (exec_body X rec k t fl s) (exec_body X rec' k' t fl s)"
  unfolding exec_body_def exec_normal_def Let_def
  by (auto split: option.splits intro!: kept_intros kept_case assms)

lemma sh_exec_kept: "k \<le> k' \<Longrightarrow> kept_result (sh_exec X k t fl s) (sh_exec X k' t fl s)"
proof (induction k arbitrary: k' t fl s)
  case (Suc k)
  then obtain n where "k' = Suc n" "k \<le> n" by (cases k') auto
  then show ?case using Suc.IH [of n] by (auto simp: keeps_results_def intro!: kept_body)
qed (simp add: kept_intros)

lemma sh_exec_mono: "sh_exec X k t fl s = Some r \<Longrightarrow> k \<le> k' \<Longrightarrow> sh_exec X k' t fl s = Some r"
  using sh_exec_kept [of k k' X t fl s] by (simp add: kept_result_def)

section \<open>Commands that finish\<close>

definition got :: "'r option \<Rightarrow> bool" where
  "got x = (x \<noteq> None)"

named_theorems got_intros

lemma got_basic [got_intros]: "got (Some x)" "got (xcall h s)"
  by (simp_all add: got_def xcall_def split: prod.splits)

lemma got_bind [got_intros]: "got (f s) \<Longrightarrow> (\<And>a s'. got (g a s')) \<Longrightarrow> got (xbind f g s)"
  unfolding got_def xbind_def by (cases "f s") (auto split: xresult.splits)

lemma got_try [got_intros]: "got (f s) \<Longrightarrow> got (xtry f s)"
  by (auto simp: got_def xtry_def split: xresult.splits)

lemma got_if [got_intros]:
  "(b \<Longrightarrow> got x) \<Longrightarrow> (\<not> b \<Longrightarrow> got y) \<Longrightarrow> got (if b then x else y)"
  "(b \<Longrightarrow> got (f s)) \<Longrightarrow> (\<not> b \<Longrightarrow> got (g s)) \<Longrightarrow> got ((if b then f else g) s)"
  by simp_all

lemma got_end [got_intros]: "got (f s) \<Longrightarrow> got (end_with i f s)"
  unfolding end_with_def by (intro got_intros) (simp_all add: got_intros)

text \<open>Everything the executor calls returns.\<close>

definition calls_return :: "('d, 'n, 'a, 'w, 'm) xshell \<Rightarrow> bool" where
  "calls_return X =
    ((\<forall>t fl s. got (x_leaf X t fl s)) \<and> (\<forall>s. got (x_chktrap X s)) \<and> (\<forall>v s. got (x_exit X v s)) \<and>
     (\<forall>tr argv fl s. got (x_debug X tr argv fl s)) \<and> (\<forall>s. got (x_lastarg X s)) \<and> (\<forall>s. got (x_subfork X s)) \<and>
     (\<forall>io fl s. got (x_redirect X io fl s)) \<and> (\<forall>pid s. got (x_job_wait X pid s)) \<and> (\<forall>t s. got (x_argbuild X t s)) \<and>
     (\<forall>n s. got (x_nv_open X n s)) \<and> (\<forall>p s. got (x_nv_putsub X p s)) \<and> (\<forall>p v s. got (x_nv_putval X p v s)) \<and>
     (\<forall>p s. got (x_nv_setref X p s)) \<and> (\<forall>a fl s. got (x_macpat X a fl s)) \<and> (\<forall>s. got (x_sh_trace X s)) \<and>
     (\<forall>e s. got (x_arith_exec X e s)) \<and> (\<forall>w s. got (x_sh_arith X w s)) \<and> (\<forall>r u y s. got (x_p_time X r u y s)))"

text \<open>Trees without \<open>while\<close>, \<open>until\<close>, arithmetic \<open>for\<close> and \<open>select\<close>.\<close>

fun bounded :: "('d, 'n, 'a) shnode \<Rightarrow> bool" and bounded_regs :: "('d, 'n, 'a) regnod \<Rightarrow> bool" where
  "bounded (ParNod ty t) = (ty AND COMMSK = TTIME \<longrightarrow> bounded t)"
| "bounded (ForkNod ty io t line) = (ty AND COMMSK = TSETIO \<longrightarrow> bounded t)"
| "bounded (IfNod ty c t e) = (bounded c \<and> bounded t \<and> bounded e)"
| "bounded (WhNod ty c d i) = False"
| "bounded (LstNod ty l r) = (bounded l \<and> bounded r)"
| "bounded (ForNod ty nam t l line) = (ty AND COMSCAN = 0 \<and> bounded t)"
| "bounded (SwNod ty a regs io line) = bounded_regs regs"
| "bounded (TstParNod ty t line) = bounded t"
| "bounded t = True"
| "bounded_regs RegNil = True"
| "bounded_regs (RegNod fl pat com nxt) = (bounded com \<and> bounded_regs nxt)"

lemma showme_mask: "(x OR (f AND FSHOWME)) AND 15 = x AND (15 :: cint)" "(x OR (f AND FSHOWME)) AND 16 = x AND (16 :: cint)"
  by (simp_all add: bit.conj_disj_distrib2 and.assoc)

lemma or_tretyp_bounded [simp]:
  "bounded (or_tretyp (f AND FSHOWME) t) = bounded t"
  by (cases t) (simp_all add: or_tretyp_def COMMSK_def COMSCAN_def showme_mask)

text \<open>Every tree of size below \<open>k\<close> finishes under \<open>rec\<close>.\<close>

definition finishes :: "(('d, 'n, 'a) shnode \<Rightarrow> cint \<Rightarrow> ('s, unit) xm) \<Rightarrow> nat \<Rightarrow> bool" where
  "finishes rec k = (\<forall>t fl s. bounded t \<longrightarrow> size t < k \<longrightarrow> got (rec t fl s))"

lemma finishesD: "finishes rec k \<Longrightarrow> bounded t \<Longrightarrow> size t < k \<Longrightarrow> got (rec t fl s)"
  by (simp add: finishes_def)

lemma finish_list:
  "finishes rec k \<Longrightarrow> bounded t \<Longrightarrow> size t \<le> k \<Longrightarrow> got (exec_list rec e fl t s)"
proof (induction rec e fl t arbitrary: s rule: exec_list.induct)
  case (1 rec e fl ty l r)
  then show ?case by (auto intro!: got_intros finishesD [OF 1(2)] 1(1))
qed (simp_all add: got_intros)

lemma finish_debug: "calls_return X \<Longrightarrow> got (debug_trap X words fl s)"
  unfolding debug_trap_def calls_return_def by (auto split: option.splits intro!: got_intros)

lemma finish_assign: "calls_return X \<Longrightarrow> got (assign_loopvar X np nr cp s)"
  unfolding assign_loopvar_def calls_return_def by (auto intro!: got_intros)

lemma finish_round:
  "calls_return X \<Longrightarrow> (\<And>s. got (rec body fl s)) \<Longrightarrow> got (for_round X rec word nam np nr body fl cp s)"
  unfolding for_round_def by (intro got_intros finish_debug finish_assign)

lemma finish_words:
  assumes "calls_return X" "\<And>fl s. got (rec body fl s)"
  shows "got (for_words X rec nam np nr body fl args s)"
  by (induction args arbitrary: fl s) (auto intro!: got_intros finish_round assms)

lemma finish_pats: "calls_return X \<Longrightarrow> got (pats_match X r fl a s)"
  by (induction X r fl a arbitrary: s rule: pats_match.induct) (auto simp: calls_return_def intro!: got_intros)

lemma finish_regs:
  "calls_return X \<Longrightarrow> finishes rec k \<Longrightarrow> bounded_regs regs \<Longrightarrow> size regs \<le> k \<Longrightarrow> got (case_regs X rec r fl th regs s)"
  by (induction X rec r fl th regs arbitrary: s rule: case_regs.induct)
    (auto intro!: got_intros finish_pats dest: finishesD)

lemma finish_loop:
  "(\<And>s. got (body s)) \<Longrightarrow> (\<And>b s. got (after b s)) \<Longrightarrow> got (in_loop X ts body after s)"
  unfolding in_loop_def Let_def by (auto split: prod.splits sum.splits intro!: got_intros)

lemma finish_case:
  assumes X: "calls_return X" and r: "finishes rec k" and t: "bounded t" "size t \<le> k"
  shows "got (exec_case X rec j fl t s)"
proof -
  note calls = X [unfolded calls_return_def]
  note rec = finishesD [OF r]
  show ?thesis
  proof (cases t)
    case (ForNod ty nam body lst line)
    have b: "got (rec body fl s)" for fl s using ForNod t rec by simp
    show ?thesis
      using ForNod t calls
      by (auto simp: exec_case_def exec_for_def Let_def split: prod.splits intro!: got_intros finish_loop finish_words [OF X, where rec = rec and body = body] b)
  next
    case (ForkNod ty io tre line)
    then show ?thesis using t calls rec
      by (auto simp: exec_case_def exec_setio_def pipe_wait_def Let_def split: sum.splits intro!: got_intros)
  next
    case (ParNod ty p)
    then show ?thesis using t calls rec
      by (auto simp: exec_case_def exec_time_def Let_def split: prod.splits intro!: got_intros)
  next
    case (SwNod ty a regs io line)
    then show ?thesis using t calls
      by (auto simp: exec_case_def exec_switch_def intro!: got_intros finish_debug [OF X] finish_regs [OF X r])
  next
    case (TstNod ty l rr line)
    have "got (xtest X f s)" for f s by (simp add: xtest_def got_def split: prod.splits sum.splits)
    then show ?thesis using TstNod t calls
      by (auto simp: exec_case_def exec_test_def unary_test_def binary_test_def Let_def split: option.splits intro!: got_intros)
  next
    case (ArithNod ty line a ax)
    have "got (arg_word X fl a s)" for s using calls by (cases a) (auto simp: arg_word_def intro!: got_intros)
    then show ?thesis using ArithNod t calls
      by (auto simp: exec_case_def exec_arith_def split: option.splits intro!: got_intros finish_debug [OF X])
  next
    case (LstNod ty l rr)
    then show ?thesis using t calls rec
      by (auto simp: exec_case_def Let_def exec_andor_def simp del: exec_list.simps intro!: got_intros finish_list [OF r])
  qed (use t calls rec in \<open>auto simp: exec_case_def exec_if_def exec_testpar_def intro!: got_intros\<close>)
qed

lemma sh_exec_finishes: "calls_return X \<Longrightarrow> finishes (sh_exec X k) k"
proof (induction k)
  case (Suc k)
  then have X: "calls_return X" and r: "finishes (sh_exec X k) k" by simp_all
  note calls = X [unfolded calls_return_def]
  have "got (sh_sigcheck X s)" "got (run_shortcut X fp s)" for fp s
    using calls by (auto simp: sh_sigcheck_def run_shortcut_def Let_def intro!: got_intros)
  moreover have "got (exec_end X m wm we i s)" for m wm we i s
    unfolding exec_end_def using calls by (auto intro!: got_intros)
  ultimately show ?case
    unfolding finishes_def
    by (auto simp: exec_body_def exec_normal_def Let_def split: option.splits intro!: got_intros finish_case [OF X r])
qed (simp add: finishes_def)

text \<open>
  C31. Commands without unbounded loops finish: when simple commands and the other calls out of the executor
  return, \<open>sh_exec\<close> returns for every tree without \<open>while\<close>, \<open>until\<close> and \<open>select\<close>, whatever the words a \<open>for\<close> loop
  gets, with fuel for the size of the tree; and more fuel never changes what it returns.
\<close>

theorem sh_exec_returns:
  assumes "calls_return X" "bounded t" "size t < k"
  shows "\<exists>r. sh_exec X k t fl s = Some r \<and> (\<forall>j \<ge> k. sh_exec X j t fl s = Some r)"
proof -
  obtain r where "sh_exec X k t fl s = Some r"
    using finishesD [OF sh_exec_finishes [OF assms(1)] assms(2,3)] by (auto simp: got_def)
  then show ?thesis using sh_exec_mono by blast
qed

end
