(* ===== verification/XecSwitch.thy ===== *)
theory XecSwitch
  imports XecExec
begin

text \<open>
  Which commands a \<open>case\<close> runs, by their places: the reference for the loop of \<open>sh_exec\<close>.
\<close>

section \<open>Blocks\<close>

text \<open>The blocks of a \<open>case\<close>: how each ends (0 for \<open>;;\<close>, 1 for \<open>;&\<close>, 2 for \<open>;;&\<close>), patterns and command.\<close>

primrec blocks :: "('d, 'n, 'a) regnod \<Rightarrow> (byte \<times> ('d, 'n, 'a) argnod \<times> ('d, 'n, 'a) shnode) list" where
  "blocks RegNil = []"
| "blocks (RegNod regflag pat com nxt) = (regflag, pat, com) # blocks nxt"

text \<open>Patterns without expansions, and whether one of them matches.\<close>

primrec literal_pats :: "('d, 'n, 'a) argnod \<Rightarrow> bool" where
  "literal_pats ArgNil = True"
| "literal_pats (ArgNod fl val chn nxt) = (fl AND ARG_MAC = 0 \<and> literal_pats nxt)"

primrec hit :: "(byte list \<Rightarrow> byte list \<Rightarrow> bool) \<Rightarrow> byte list \<Rightarrow> ('d, 'n, 'a) argnod \<Rightarrow> bool" where
  "hit glob r ArgNil = False"
| "hit glob r (ArgNod fl val chn nxt) = ((if fl AND ARG_RAW \<noteq> 0 then r = val else glob r val) \<or> hit glob r nxt)"

lemma pats_match_hit: "literal_pats a \<Longrightarrow> pats_match X r fl a = xret (hit (x_strmatch X) r a)"
  by (induction X r fl a rule: pats_match.induct) (auto simp: strcmp_eq)

text \<open>Running commands one after the other.\<close>

fun run_all :: "(('d, 'n, 'a) shnode \<Rightarrow> cint \<Rightarrow> ('s, unit) xm) \<Rightarrow> (('d, 'n, 'a) shnode \<times> cint) list \<Rightarrow> ('s, unit) xm" where
  "run_all rec [] = xret ()"
| "run_all rec ((c, f) # cs) = xbind (rec c f) (\<lambda>_. run_all rec cs)"

definition block_run :: "cint \<Rightarrow> byte \<times> ('d, 'n, 'a) argnod \<times> ('d, 'n, 'a) shnode \<Rightarrow> ('d, 'n, 'a) shnode \<times> cint" where
  "block_run flags = (\<lambda>(regflag, pat, com). (com, if regflag \<noteq> 0 then flags AND sh_state SH_ERREXIT else flags))"

text \<open>
  The set \<open>E\<close> of the places that are run: no block before ended with \<open>;;\<close>, and either the patterns match or the
  block just before was run and ended with \<open>;&\<close> (with \<open>through\<close> for the first).
\<close>

definition chosen :: "(byte list \<Rightarrow> byte list \<Rightarrow> bool) \<Rightarrow> byte list \<Rightarrow> bool \<Rightarrow>
    (byte \<times> ('d, 'n, 'a) argnod \<times> ('d, 'n, 'a) shnode) list \<Rightarrow> nat set \<Rightarrow> bool" where
  "chosen glob r through bs E =
    (\<forall>i < length bs. i \<in> E \<longleftrightarrow>
      (\<forall>j < i. j \<in> E \<longrightarrow> fst (bs ! j) \<noteq> 0) \<and>
      (hit glob r (fst (snd (bs ! i))) \<or> (if i = 0 then through else i - 1 \<in> E \<and> fst (bs ! (i - 1)) = 1)))"

lemma chosen_stop:
  "through \<or> hit glob r (fst (snd b)) \<Longrightarrow> fst b = 0 \<Longrightarrow> chosen glob r through (b # bs) {0}"
  by (auto simp: chosen_def nth_Cons split: nat.splits)

lemma chosen_go:
  assumes E: "chosen glob r (x \<and> fst b = 1) bs E" and x: "x \<longleftrightarrow> through \<or> hit glob r (fst (snd b))" "x \<Longrightarrow> fst b \<noteq> 0"
  shows "chosen glob r through (b # bs) ((if x then {0} else {}) \<union> Suc ` E)" (is "chosen _ _ _ _ ?F")
  unfolding chosen_def
proof (intro allI impI)
  fix i assume i: "i < length (b # bs)"
  have F: "Suc n \<in> ?F \<longleftrightarrow> n \<in> E" "0 \<in> ?F \<longleftrightarrow> x" for n by auto
  show "i \<in> ?F \<longleftrightarrow> (\<forall>j<i. j \<in> ?F \<longrightarrow> fst ((b # bs) ! j) \<noteq> 0) \<and>
      (hit glob r (fst (snd ((b # bs) ! i))) \<or> (if i = 0 then through else i - 1 \<in> ?F \<and> fst ((b # bs) ! (i - 1)) = 1))"
  proof (cases i)
    case 0
    then show ?thesis using x by (simp only: F) auto
  next
    case (Suc n)
    have a: "(\<forall>j<Suc n. j \<in> ?F \<longrightarrow> fst ((b # bs) ! j) \<noteq> 0) \<longleftrightarrow> (\<forall>j<n. j \<in> E \<longrightarrow> fst (bs ! j) \<noteq> 0)"
      unfolding All_less_Suc2 F using x(2) by simp
    have c: "(n \<in> ?F \<and> fst ((b # bs) ! n) = 1) \<longleftrightarrow> (if n = 0 then x \<and> fst b = 1 else n - 1 \<in> E \<and> fst (bs ! (n - 1)) = 1)"
      by (cases n) (simp_all only: F, simp_all)
    show ?thesis using E i unfolding Suc chosen_def F a by (simp add: c del: Un_iff)
  qed
qed

lemma places_Suc:
  "filter (\<lambda>i. i \<in> (if x then {0} else {}) \<union> Suc ` E) [0..<Suc n] = (if x then [0] else []) @ map Suc (filter (\<lambda>i. i \<in> E) [0..<n])"
proof -
  have "[0..<Suc n] = 0 # map Suc [0..<n]" by (simp add: upt_conv_Cons map_Suc_upt)
  moreover have "filter (\<lambda>i. i \<in> (if x then {0} else {}) \<union> Suc ` E) (map Suc ns) = map Suc (filter (\<lambda>i. i \<in> E) ns)" for ns
    by (induction ns) auto
  ultimately show ?thesis by simp
qed

lemma places_stop: "filter (\<lambda>i. i \<in> {0}) [0..<Suc n] = [0]"
  using places_Suc [of True "{}" n] by simp

lemma blocks_induct [case_names nil block]:
  assumes "P RegNil" "\<And>regflag pat com nxt. P nxt \<Longrightarrow> P (RegNod regflag pat com nxt)"
  shows "P regs"
proof (induction "blocks regs" arbitrary: regs)
  case Nil
  then show ?case using assms(1) by (cases regs) auto
next
  case (Cons b bs)
  then show ?case using assms(2) by (cases regs) auto
qed

lemma case_regs_step:
  assumes "literal_pats pat"
  shows "case_regs X rec r flags through (RegNod regflag pat com nxt) =
    (if through \<or> hit (x_strmatch X) r pat then
       xbind (rec com (if regflag \<noteq> 0 then flags AND sh_state SH_ERREXIT else flags))
         (\<lambda>_. if regflag = 0 then xret () else case_regs X rec r flags (regflag = 1) nxt)
     else case_regs X rec r flags False nxt)"
  using assms by (cases through; cases "hit (x_strmatch X) r pat") (simp_all add: pats_match_hit x_simps(4))

text \<open>The commands at the places \<open>E\<close>.\<close>

abbreviation run_places :: "(('d, 'n, 'a) shnode \<Rightarrow> cint \<Rightarrow> ('s, unit) xm) \<Rightarrow> cint \<Rightarrow>
    (byte \<times> ('d, 'n, 'a) argnod \<times> ('d, 'n, 'a) shnode) list \<Rightarrow> nat set \<Rightarrow> ('s, unit) xm" where
  "run_places rec flags bs E \<equiv> run_all rec (map (\<lambda>i. block_run flags (bs ! i)) (filter (\<lambda>i. i \<in> E) [0..<length bs]))"

lemma xbind_ret: "xbind f (\<lambda>_. xret ()) = f" "xbind f xret = f"
  by (auto simp: fun_eq_iff xbind_def split: option.split xresult.split)

lemma run_places_stop:
  "run_places rec flags ((regflag, pat, com) # bs) {0} =
    rec com (if regflag \<noteq> 0 then flags AND sh_state SH_ERREXIT else flags)"
  by (simp only: list.size(4) add_0_right add_Suc_right places_stop list.map nth_Cons_0 block_run_def prod.case run_all.simps xbind_ret)

lemma run_places_go:
  "run_places rec flags ((regflag, pat, com) # bs) ((if x then {0} else {}) \<union> Suc ` E) =
    (if x then xbind (rec com (if regflag \<noteq> 0 then flags AND sh_state SH_ERREXIT else flags)) (\<lambda>_. run_places rec flags bs E)
     else run_places rec flags bs E)"
proof -
  have m: "map (\<lambda>i. block_run flags (((regflag, pat, com) # bs) ! i)) (map Suc ns) = map (\<lambda>i. block_run flags (bs ! i)) ns" for ns
    by (induction ns) simp_all
  have b: "block_run flags (((regflag, pat, com) # bs) ! 0) = (com, if regflag \<noteq> 0 then flags AND sh_state SH_ERREXIT else flags)"
    by (simp add: block_run_def)
  have l: "length ((regflag, pat, com) # bs) = Suc (length bs)" by simp
  show ?thesis
    unfolding l places_Suc map_append m
    by (cases x) (simp_all only: if_True if_False list.map append.simps run_all.simps b)
qed

lemma case_regs_chosen:
  assumes "\<forall>b \<in> set (blocks regs). literal_pats (fst (snd b))"
  shows "\<exists>E. chosen (x_strmatch X) r through (blocks regs) E \<and>
    case_regs X rec r flags through regs = run_places rec flags (blocks regs) E"
  using assms
proof (induction regs arbitrary: through rule: blocks_induct)
  case nil
  show ?case by (simp add: chosen_def)
next
  case (block regflag pat com nxt)
  let ?b = "(regflag, pat, com)" and ?bs = "blocks nxt"
  define x where "x \<longleftrightarrow> through \<or> hit (x_strmatch X) r pat"
  have p: "literal_pats pat" using block.prems by simp
  note step = case_regs_step [where X = X and rec = rec and r = r and flags = flags and through = through, OF p, folded x_def]
  show ?case
  proof (cases "x \<and> regflag = 0")
    case True
    have "chosen (x_strmatch X) r through (?b # ?bs) {0}" using True by (intro chosen_stop) (auto simp: x_def)
    moreover have "case_regs X rec r flags through (RegNod regflag pat com nxt) = run_places rec flags (?b # ?bs) {0}"
      unfolding step run_places_stop using True by (simp add: xbind_ret)
    ultimately show ?thesis unfolding blocks.simps by blast
  next
    case False
    have "\<forall>b \<in> set ?bs. literal_pats (fst (snd b))" using block.prems by simp
    from block.IH [OF this] obtain E where E: "chosen (x_strmatch X) r (x \<and> regflag = 1) ?bs E"
      "case_regs X rec r flags (x \<and> regflag = 1) nxt = run_places rec flags ?bs E"
      by blast
    let ?F = "(if x then {0} else {}) \<union> Suc ` E"
    have "chosen (x_strmatch X) r through (?b # ?bs) ?F" using E(1) False by (intro chosen_go) (auto simp: x_def)
    moreover have "case_regs X rec r flags through (RegNod regflag pat com nxt) = run_places rec flags (?b # ?bs) ?F"
      unfolding step run_places_go E(2) [symmetric] using False by (cases x) simp_all
    ultimately show ?thesis unfolding blocks.simps by blast
  qed
qed

lemma chosen_cong:
  assumes E: "chosen glob r through bs E" and same: "\<And>i. i < length bs \<Longrightarrow> i \<in> G \<longleftrightarrow> i \<in> E"
  shows "chosen glob r through bs G"
  unfolding chosen_def
proof (intro allI impI)
  fix i assume i: "i < length bs"
  have *: "(\<forall>j < i. j \<in> G \<longrightarrow> fst (bs ! j) \<noteq> 0) \<longleftrightarrow> (\<forall>j < i. j \<in> E \<longrightarrow> fst (bs ! j) \<noteq> 0)"
    using same i by (meson order.strict_trans)
  have **: "i - 1 \<in> G \<longleftrightarrow> i - 1 \<in> E" using same [of "i - 1"] i by simp
  show "i \<in> G \<longleftrightarrow> (\<forall>j < i. j \<in> G \<longrightarrow> fst (bs ! j) \<noteq> 0) \<and>
      (hit glob r (fst (snd (bs ! i))) \<or> (if i = 0 then through else i - 1 \<in> G \<and> fst (bs ! (i - 1)) = 1))"
    unfolding same [OF i] * ** by (rule E [unfolded chosen_def, rule_format, OF i])
qed

lemma chosen_unique:
  assumes "chosen glob r through bs E" "chosen glob r through bs F" "i < length bs"
  shows "i \<in> E \<longleftrightarrow> i \<in> F"
  using assms(3)
proof (induction i rule: less_induct)
  case (less i)
  have IH: "j \<in> E \<longleftrightarrow> j \<in> F" if "j < i" for j using less that by simp
  have *: "(\<forall>j < i. j \<in> E \<longrightarrow> fst (bs ! j) \<noteq> 0) \<longleftrightarrow> (\<forall>j < i. j \<in> F \<longrightarrow> fst (bs ! j) \<noteq> 0)"
    using IH by blast
  have **: "(if i = 0 then through else i - 1 \<in> E \<and> fst (bs ! (i - 1)) = 1) \<longleftrightarrow>
      (if i = 0 then through else i - 1 \<in> F \<and> fst (bs ! (i - 1)) = 1)"
    using IH [of "i - 1"] by (cases i) simp_all
  show ?case
    using assms(1) [unfolded chosen_def, rule_format, OF less.prems] assms(2) [unfolded chosen_def, rule_format, OF less.prems] * **
    by argo
qed

text \<open>
  C11. What \<open>case\<close> runs: with patterns that need no expansion, the commands run are those at the places that \<open>chosen\<close>
  describes, in their order, each with the flags of the whole command if it is the last one by \<open>;;\<close> and else only
  with those for \<open>set -e\<close>; and there is exactly one such choice of places.
\<close>

theorem case_runs_chosen:
  assumes "\<forall>b \<in> set (blocks regs). literal_pats (fst (snd b))"
  shows "\<exists>!E. E \<subseteq> {..<length (blocks regs)} \<and> chosen (x_strmatch X) r False (blocks regs) E \<and>
    case_regs X rec r flags False regs =
      run_all rec (map (\<lambda>i. block_run flags (blocks regs ! i)) (filter (\<lambda>i. i \<in> E) [0..<length (blocks regs)]))"
proof -
  obtain E where E: "chosen (x_strmatch X) r False (blocks regs) E"
    "case_regs X rec r flags False regs = run_places rec flags (blocks regs) E"
    using case_regs_chosen [OF assms] by blast
  define G where "G = {i \<in> E. i < length (blocks regs)}"
  have "filter (\<lambda>i. i \<in> G) [0..<length (blocks regs)] = filter (\<lambda>i. i \<in> E) [0..<length (blocks regs)]"
    by (rule filter_cong) (auto simp: G_def)
  moreover have "chosen (x_strmatch X) r False (blocks regs) G"
    by (rule chosen_cong [OF E(1)]) (simp add: G_def)
  ultimately have G: "chosen (x_strmatch X) r False (blocks regs) G"
      "case_regs X rec r flags False regs = run_places rec flags (blocks regs) G"
    using E(2) by simp_all
  have sub: "G \<subseteq> {..<length (blocks regs)}"
    unfolding G_def by blast
  have "F = G" if "F \<subseteq> {..<length (blocks regs)}" "chosen (x_strmatch X) r False (blocks regs) F" for F
    using that chosen_unique [OF E(1) that(2)] unfolding G_def by blast
  then show ?thesis by (intro ex1I [of _ G] conjI sub G) (elim conjE)
qed

end
