(* ===== verification/XecWitness.thy ===== *)
theory XecWitness
  imports XecLoops XecFuel XecSwitch
begin

text \<open>
  The properties of \<open>sh_exec\<close> at concrete inputs: a shell whose commands write the number of their line into a
  log, and two scripts whose loops leave the counters wrong.
\<close>

section \<open>Tests that leave the state alone\<close>






definition plain_tests :: "('s, int, ptr) tenv" where
  "plain_tests = \<lparr>
    posix = False, shopt_test_l = False, in_test = False, past = (\<lambda>_. 0),
    os_stat = (\<lambda>f s. None), os_lstat = (\<lambda>f s. None), os_fstat = (\<lambda>n s. None), os_access = (\<lambda>f m s. -1),
    os_setregid = (\<lambda>r e s. (0, s)), os_setreuid = (\<lambda>r e s. (0, s)),
    os_getgroups = (\<lambda>s. []), pipe_socketpair = False, socketpair_shutdown_mode = False,
    userid = 7, euserid = 7, groupid = 10, egroupid = 10, pwdfd = -1, sfsync_stdout = (\<lambda>s. s),
    ioaccess = (\<lambda>n m s. -1), tty_check = (\<lambda>n s. 0), lookopt = (\<lambda>p b. (0, b)), isoption = (\<lambda>n s. False),
    strtold = (\<lambda>p. strtol10 p), sh_arith = (\<lambda>p s. (Inr (fst (strtol10 p)), s)),
    ld_eq = (=), ld_lt = (<), ld_le = (\<le>), strgrpmatch = (\<lambda>s p n. (0, [])), setmatch = (\<lambda>p n ms s. s),
    collate = strcmp, nv_open = (\<lambda>p s. (Inr None, s)), nv_isref = (\<lambda>v s. 0), nv_hasvalue = (\<lambda>v s. False),
    nv_refnode = (\<lambda>v s. v), nv_arrayisset = (\<lambda>v s. None), nv_isnull = (\<lambda>v s. True),
    optget = (\<lambda>p. False), optdoc = (\<lambda>s. s)\<rparr>"





section \<open>A shell\<close>

type_synonym cmd = "(nat, bltin option, unit option) shnode"
type_synonym log = "cint list"

text \<open>A command, and one whose error returns to the innermost checkpoint with its mode.\<close>

definition write_line :: "cmd \<Rightarrow> cint \<Rightarrow> (log xst, bool) xm" where
  "write_line t fl s =
    (case t of ComNod typ io arg cs np line \<Rightarrow> xret True (s\<lparr>world := world s @ [line]\<rparr>) | _ \<Rightarrow> xret False s)"

definition fails :: "cmd \<Rightarrow> cint \<Rightarrow> (log xst, bool) xm" where
  "fails t fl s = xjump (jmpmode s) s"

definition plain_shell :: "(cmd \<Rightarrow> cint \<Rightarrow> (log xst, bool) xm) \<Rightarrow> (nat, bltin, unit, log, int) xshell" where
  "plain_shell leaf = \<lparr>
    x_leaf = leaf, x_option = (\<lambda>n s. False), x_dont_optimize = (\<lambda>s. False), x_funptr = (\<lambda>n s. n),
    x_trap = (\<lambda>n s. None), x_job_unlock = (\<lambda>s. s), x_chktrap = xret (), x_exit = (\<lambda>v. xret ()),
    x_debug = (\<lambda>tr argv fl. xret ()), x_lastarg = xret (), x_fn_depth = (\<lambda>s. 0), x_trapdontexec = (\<lambda>s. False),
    x_subshell = (\<lambda>s. False), x_subshare = (\<lambda>s. False), x_comsub = (\<lambda>s. False), x_subfork = xret (),
    x_pipe_in = (\<lambda>b s. s), x_job_parent = (\<lambda>s. 0), x_redirect = (\<lambda>io fl. xret ()), x_topfd = (\<lambda>s. 0),
    x_iorestore = (\<lambda>fd j s. s), x_sync_outpool = (\<lambda>s. s), x_job_wait = (\<lambda>pid. xret ()),
    x_loop_enter = (\<lambda>ts s. (0, s)), x_loop_leave = (\<lambda>ts p s. s), x_arguse = (\<lambda>s. (([], 0), s)),
    x_argbuild = (\<lambda>t. xret [str ''a'', str ''b'']), x_argfree = (\<lambda>p s. s), x_nv_open = (\<lambda>n. xret 0),
    x_nv_isref = (\<lambda>p s. False), x_nv_isarray = (\<lambda>p s. False), x_nv_offref = (\<lambda>p s. s), x_nv_putsub = (\<lambda>p. xret ()),
    x_nv_putval = (\<lambda>p v. xret ()), x_nv_setref = (\<lambda>p. xret ()), x_nv_optimize = (\<lambda>p b s. s), x_menu = (\<lambda>w s. s),
    x_readline = xret (1, True), x_reply = (\<lambda>s. None), x_openstream = (\<lambda>io. xret None), x_getline = (\<lambda>f s. (False, s)),
    x_reset_offsets = (\<lambda>s. s), x_closestream = (\<lambda>f s. s), x_macpat = (\<lambda>a fl. xret (str ''a'')),
    x_strmatch = (=), x_sh_trace = xret False, x_errput = (\<lambda>b s. s), x_errpattern = (\<lambda>b s. s), x_fmtq = (\<lambda>b. b),
    x_arith_exec = (\<lambda>a. xret True), x_sh_arith = (\<lambda>b. xret True), x_tests = plain_tests,
    x_test_error = (\<lambda>e s. (SH_JMPFUN, s)), x_times = (\<lambda>s. ((0, 0, 0), s)), x_p_time = (\<lambda>r u y. xret ())\<rparr>"

definition start :: "log xst" where
  "start = \<lparr>exitval = 0, savexit = 0, lastsig = 0, chldexitsig = 0, trapnote = 0, breakcnt = 0, loopcnt = 0, states = 0,
    jmplist = [], errline = 0, firstline = 0, pipepid = 0, waitall = 0, pipejob = 0, nlock = 0, curpgid = 0, curjobid = 0,
    ioset = 0, nextprompt = 0, timeout = 0, world = []\<rparr>"

text \<open>Simple commands without arguments on a line, \<open>break\<close> and \<open>continue\<close>.\<close>

definition simple :: "bltin option \<Rightarrow> cint \<Rightarrow> cmd" where
  "simple np line = ComNod TCOM IoNil (ComDp 1 []) ArgNil np line"

text \<open>\<open>for i in a b; do body; done\<close>\<close>

definition for_two :: "cmd \<Rightarrow> cmd" where
  "for_two body = ForNod TFOR (Some (str ''i'')) body (simple None 1) 1"

lemma plain_returns: "calls_return (plain_shell write_line)"
  by (simp add: calls_return_def plain_shell_def got_def write_line_def split: shnode.splits)


section \<open>Witnesses\<close>

lemma sh_exec_returns_witness:
  "\<exists>r. sh_exec (plain_shell write_line) 20 (for_two (simple None 2)) 0 start = Some r \<and>
    (\<forall>j \<ge> 20. sh_exec (plain_shell write_line) j (for_two (simple None 2)) 0 start = Some r)"
  by (rule sh_exec_returns [OF plain_returns]) (simp_all add: for_two_def simple_def tag_defs COMSCAN_def)



text \<open>\<open>case a in b) 1 ;; a) 2 ;& c) 3 ;; a) 4 ;; esac\<close>\<close>

definition four_blocks :: "(nat, bltin option, unit option) regnod" where
  "four_blocks =
    RegNod 0 (ArgNod ARG_RAW (str ''b'') ChnNil ArgNil) (simple None 1)
      (RegNod 1 (ArgNod ARG_RAW (str ''a'') ChnNil ArgNil) (simple None 2)
        (RegNod 0 (ArgNod ARG_RAW (str ''c'') ChnNil ArgNil) (simple None 3)
          (RegNod 0 (ArgNod ARG_RAW (str ''a'') ChnNil ArgNil) (simple None 4) RegNil)))"

lemma case_runs_chosen_witness:
  "\<exists>!E. E \<subseteq> {..<length (blocks four_blocks)} \<and> chosen (x_strmatch (plain_shell write_line)) (str ''a'') False (blocks four_blocks) E \<and>
    case_regs (plain_shell write_line) (sh_exec (plain_shell write_line) 9) (str ''a'') 0 False four_blocks =
      run_all (sh_exec (plain_shell write_line) 9)
        (map (\<lambda>i. block_run 0 (blocks four_blocks ! i)) (filter (\<lambda>i. i \<in> E) [0..<length (blocks four_blocks)]))"
  by (rule case_runs_chosen) (simp add: four_blocks_def ARG_RAW_def)

section \<open>Loops that leave the counters wrong\<close>

lemma list_skips:
  "breakcnt s \<noteq> 0 \<Longrightarrow> trapnote s = 0 \<Longrightarrow> sh_exec X (Suc k) t fl s = Some (Done () s)"
  "breakcnt s \<noteq> 0 \<Longrightarrow> trapnote s = 0 \<Longrightarrow> exec_list (sh_exec X (Suc k)) e fl t s = Some (Done () s)"
proof -
  show one: "sh_exec X (Suc k) t fl s = Some (Done () s)" if "breakcnt s \<noteq> 0" "trapnote s = 0" for t fl
    using that by (simp add: exec_body_def xbind_def sh_sigcheck_def)
  show "exec_list (sh_exec X (Suc k)) e fl t s = Some (Done () s)" if "breakcnt s \<noteq> 0" "trapnote s = 0"
    using that by (induction "sh_exec X (Suc k)" e fl t rule: exec_list.induct) (simp_all add: xbind_def one del: sh_exec.simps)
qed

lemma continue_short:
  "sh_exec (plain_shell leaf) (Suc k) (simple (Some (BBreak True)) line) fl s =
    Some (Done () (s\<lparr>exitval := 0, lastsig := 0, chldexitsig := 0, breakcnt := -1, savexit := 0\<rparr>))"
  if "loopcnt s \<noteq> 0" "trapnote s = 0" "breakcnt s = 0" "fl AND sh_state SH_INTERACTIVE = 0"
  using that by (simp add: exec_body_def xbind_def sh_sigcheck_def shortcut_def run_shortcut_def shortcut_effect_def
    simple_def plain_shell_def exitset_def Let_def)

lemma plain_fields:
  "x_option (plain_shell leaf) n s = False" "x_dont_optimize (plain_shell leaf) s = False" "x_trap (plain_shell leaf) n s = None"
  "x_loop_enter (plain_shell leaf) ts s = (0, s)" "x_loop_leave (plain_shell leaf) ts p s = s" "x_leaf (plain_shell leaf) = leaf"
  "x_subshell (plain_shell leaf) s = False" "x_topfd (plain_shell leaf) s = 0" "x_job_parent (plain_shell leaf) s = 0"
  "x_redirect (plain_shell leaf) io fl = xret ()" "x_sync_outpool (plain_shell leaf) s = s" "x_iorestore (plain_shell leaf) fd j s = s"
  "x_argbuild (plain_shell leaf) t = xret [str ''a'', str ''b'']" "x_nv_open (plain_shell leaf) v = xret 0"
  "x_nv_isref (plain_shell leaf) p s = False" "x_nv_isarray (plain_shell leaf) p s = False" "x_nv_putval (plain_shell leaf) p b = xret ()"
  "x_argfree (plain_shell leaf) q s = s"
  by (simp_all add: plain_shell_def)

lemma body_case:
  assumes "exec_case (plain_shell leaf) rec k fl t s = Some (Done i s')"
    and "fl AND sh_state SH_INTERACTIVE = 0" "t \<noteq> NullT" "\<And>ty io a cs np l. t \<noteq> ComNod ty io a cs np l"
    and "states s = 0" "exitval s = 0" "lastsig s = 0" "chldexitsig s = 0" "trapnote s = 0" "breakcnt s = 0"
    and "states s' = 0" "trapnote s' = 0" "\<not> skipexitset i" "\<not> was_interactive i"
  shows "exec_body (plain_shell leaf) rec k t fl s = Some (Done () (s'\<lparr>savexit := exitval s'\<rparr>))"
proof -
  have s: "s\<lparr>exitval := 0, lastsig := 0, chldexitsig := 0\<rparr> = s" using assms(6-8) by simp
  have off: "sh_offstate x s = s" for x using assms(5) by (simp add: sh_offstate_def)
  have "shortcut (plain_shell leaf) t s = None" using assms(4) by (simp add: shortcut_def split: shnode.splits)
  then show ?thesis
    using assms(2,3,5-) by (simp add: exec_body_def exec_normal_def sh_sigcheck_def xbind_def s off assms(1) Let_def exec_end_def
      sh_isstate_def plain_fields exitset_def)
qed

lemma body_jump:
  assumes "exec_case (plain_shell leaf) rec k fl t s = Some (Jump j s')"
    and "fl AND sh_state SH_INTERACTIVE = 0" "t \<noteq> NullT" "shortcut (plain_shell leaf) t s = None"
    and "states s = 0" "exitval s = 0" "lastsig s = 0" "chldexitsig s = 0" "trapnote s = 0" "breakcnt s = 0"
  shows "exec_body (plain_shell leaf) rec k t fl s = Some (Jump j s')"
proof -
  have s: "s\<lparr>exitval := 0, lastsig := 0, chldexitsig := 0\<rparr> = s" using assms(6-8) by simp
  have off: "sh_offstate x s = s" for x using assms(5) by (simp add: sh_offstate_def)
  show ?thesis
    using assms by (simp add: exec_body_def exec_normal_def sh_sigcheck_def xbind_def s off Let_def plain_fields)
qed

text \<open>
  C32. \<open>until continue; do body; done; rest\<close>: the condition leaves the loop with \<open>breakcnt\<close> at -1, which is only
  brought back at the end of a body and not at the end of the loop, so that outside of every loop one level is left to
  \<open>continue\<close> and the rest of the list is not executed, whatever it is.
\<close>

theorem until_continue_skips_rest:
  "\<exists>s'. sh_exec (plain_shell write_line) (Suc (Suc (Suc k))) (LstNod TLST (WhNod TUN (simple (Some (BBreak True)) 1) body NullT) rest) 0 start =
      Some (Done () s') \<and> breakcnt s' = -1 \<and> loopcnt s' = 0 \<and> world s' = []"
proof -
  let ?X = "plain_shell write_line" and ?c = "simple (Some (BBreak True)) 1"
  let ?t = "WhNod TUN ?c body NullT" and ?s = "start\<lparr>loopcnt := 1, jmplist := [0]\<rparr>"
  have c: "sh_exec ?X (Suc k) ?c ARG_OPTIMIZE ?s = Some (Done () (?s\<lparr>breakcnt := -1\<rparr>))"
    using continue_short [of ?s ARG_OPTIMIZE write_line k 1] by (simp add: start_def sh_state_def)
  have loop: "while_loop ?X (sh_exec ?X (Suc k)) TUN ?c body NullT None False (Suc k) ARG_OPTIMIZE e 0 ?s =
      Some (Done 0 (?s\<lparr>breakcnt := -1\<rparr>))" for e
    unfolding while_loop.simps while_test_def
    by (simp add: xbind_def c del: sh_exec.simps) (simp add: start_def TWH_def)
  have io: "filescan ?X TUN ?c s = None" "always_true ?X TUN ?c s = False" for s
    by (simp_all add: filescan_def always_true_def simple_def plain_shell_def)
  have st: "(sh_pushcontext (jmpmode start) start)\<lparr>loopcnt := loopcnt (sh_pushcontext (jmpmode start) start) + 1\<rparr> = ?s"
    by (simp add: start_def sh_pushcontext_def jmpmode_def)
  have one: "exec_while ?X (sh_exec ?X (Suc k)) (Suc k) e TUN ?c body NullT start = Some (Done () (start\<lparr>breakcnt := -1\<rparr>))" for e
    unfolding exec_while_def in_loop_def plain_fields Let_def prod.case xtry_def
    by (simp add: xbind_def io st loop del: while_loop.simps)
      (simp add: start_def sh_popcontext_def loop_done_def)
  have two: "sh_exec ?X (Suc (Suc k)) ?t fl start = Some (Done () (start\<lparr>breakcnt := -1\<rparr>))" if "fl AND sh_state SH_INTERACTIVE = 0" for fl
    unfolding sh_exec.simps(2) [of ?X "Suc k"]
    using body_case [where leaf = write_line and rec = "sh_exec ?X (Suc k)" and k = "Suc k" and t = ?t and fl = fl and s = start and
        i = plain_end and s' = "start\<lparr>breakcnt := -1\<rparr>"] that one
    by (simp add: exec_case_def end_with_def xbind_def) (simp add: start_def plain_end_def)
  have "sh_exec ?X (Suc (Suc (Suc k))) (LstNod TLST ?t rest) 0 start = Some (Done () (start\<lparr>breakcnt := -1\<rparr>))"
    unfolding sh_exec.simps(2) [of ?X "Suc (Suc k)"]
    using body_case [where leaf = write_line and rec = "sh_exec ?X (Suc (Suc k))" and k = "Suc (Suc k)" and t = "LstNod TLST ?t rest"
        and fl = 0 and s = start and i = plain_end and s' = "start\<lparr>breakcnt := -1\<rparr>"] two [of 0]
      list_skips [of "start\<lparr>breakcnt := -1\<rparr>" ?X "Suc k"]
    by (simp add: exec_case_def end_with_def xbind_def TLST_def COMMSK_def del: sh_exec.simps) (simp add: start_def plain_end_def)
  then show ?thesis by (simp add: start_def)
qed

text \<open>
  C33. \<open>{ for i in a b; do command; done; } > x\<close> where the command fails in a way that returns to the innermost
  checkpoint: the loop has a checkpoint of its own with the mode of the one around it, from which it jumps on
  without taking its level back; the redirection stops the jump, and \<open>sh_exec\<close> returns with one level of loops too
  many, so that a later \<open>break\<close> outside of every loop takes effect.
\<close>

theorem failed_loop_keeps_level:
  "\<exists>s'. sh_exec (plain_shell fails) (Suc (Suc (Suc (Suc k)))) (ForkNod TSETIO io (for_two (simple None 2)) 1) 0 start =
      Some (Done () s') \<and> loopcnt s' = 1"
proof -
  let ?X = "plain_shell fails" and ?c = "simple None 2"
  define s0 where "s0 = start\<lparr>jmplist := [5], errline := 1\<rparr>"
  define s1 where "s1 = start\<lparr>loopcnt := 1, jmplist := [5, 5], errline := 1\<rparr>"
  define s2 where "s2 = start\<lparr>loopcnt := 1, jmplist := [5], errline := 1\<rparr>"
  have c: "sh_exec ?X (Suc (Suc k)) ?c ARG_OPTIMIZE s1 = Some (Jump 5 s1)"
    unfolding sh_exec.simps
    by (rule body_jump) (simp_all add: exec_case_def simple_def plain_fields fails_def shortcut_def s1_def start_def sh_state_def
      jmpmode_def xbind_def)
  have st: "sh_pushcontext (jmpmode s0) s0 = start\<lparr>jmplist := [5, 5], errline := 1\<rparr>"
    by (simp add: s0_def start_def sh_pushcontext_def jmpmode_def)
  have round: "for_round ?X (sh_exec ?X (Suc (Suc k))) w v p b ?c ARG_OPTIMIZE x s1 = Some (Jump 5 s1)" if "\<not> b" for w v p b x
    using that by (simp add: for_round_def assign_loopvar_def plain_fields debug_trap_def xbind_def c del: sh_exec.simps)
  have line: "(set_line 1 (start\<lparr>jmplist := [5, 5], errline := 1\<rparr>))\<lparr>loopcnt := loopcnt (set_line 1 (start\<lparr>jmplist := [5, 5], errline := 1\<rparr>)) + 1\<rparr> = s1"
    by (simp add: s1_def start_def set_line_def)
  have for1: "exec_for ?X (sh_exec ?X (Suc (Suc k))) (Suc (Suc k)) 0 TFOR (Some (str ''i'')) ?c (simple None 1) 1 s0 = Some (Jump 5 s2)"
  proof -
    have l: "set_line 1 (start\<lparr>jmplist := [5, 5], errline := 1\<rparr>) = start\<lparr>jmplist := [5, 5], errline := 1\<rparr>"
      and u: "start\<lparr>jmplist := [5, 5], errline := 1, loopcnt := 1\<rparr> = s1" and z: "loopcnt start = 0" "breakcnt start = 0"
      and n: "simple None 1 \<noteq> NullT"
      by (simp_all add: s1_def start_def set_line_def simple_def)
    have "sh_popcontext s1 = s2" by (simp add: s1_def s2_def sh_popcontext_def)
    then show ?thesis
      unfolding exec_for_def in_loop_def plain_fields Let_def prod.case xtry_def st
      by (simp add: xbind_def l u z n round TFOR_def COMSCAN_def del: sh_exec.simps)
  qed
  have for2: "sh_exec ?X (Suc (Suc (Suc k))) (for_two ?c) 0 s0 = Some (Jump 5 s2)"
    unfolding sh_exec.simps(2) [of ?X "Suc (Suc k)"]
    using for1 by (intro body_jump) (simp_all add: exec_case_def for_two_def end_with_def xbind_def shortcut_def s0_def start_def)
  have io: "exec_setio ?X (sh_exec ?X (Suc (Suc (Suc k)))) 0 TSETIO io (for_two ?c) 1 start = Some (Done plain_end (s2\<lparr>jmplist := []\<rparr>))"
  proof -
    have t: "tretyp (for_two ?c) AND COMMSK \<noteq> TCOM" "or_tretyp (TSETIO AND FSHOWME) (for_two ?c) = for_two ?c" "TSETIO AND FPIN = 0"
      by (simp_all add: for_two_def TFOR_def COMMSK_def TCOM_def TSETIO_def or_tretyp_def)
    have "set_line 1 (sh_pushcontext SH_JMPIO start) = s0" "sh_popcontext s2 = s2\<lparr>jmplist := []\<rparr>"
      by (simp_all add: s0_def s2_def start_def set_line_def sh_pushcontext_def sh_popcontext_def)
    then show ?thesis
      unfolding exec_setio_def plain_fields Let_def xtry_def
      by (simp add: xbind_def t for2 plain_end_def word_sless_alt del: sh_exec.simps)
  qed
  have "sh_exec ?X (Suc (Suc (Suc (Suc k)))) (ForkNod TSETIO io (for_two ?c) 1) 0 start = Some (Done () (s2\<lparr>jmplist := [], savexit := 0\<rparr>))"
    unfolding sh_exec.simps(2) [of ?X "Suc (Suc (Suc k))"]
    using body_case [where leaf = fails and rec = "sh_exec ?X (Suc (Suc (Suc k)))" and k = "Suc (Suc (Suc k))" and
        t = "ForkNod TSETIO io (for_two ?c) 1" and fl = 0 and s = start and i = plain_end and s' = "s2\<lparr>jmplist := []\<rparr>"]
    by (simp add: exec_case_def TSETIO_def COMMSK_def io [unfolded TSETIO_def] del: sh_exec.simps)
      (simp add: s2_def start_def plain_end_def)
  then show ?thesis by (simp add: s2_def)
qed

end
