(* ===== verification/Spec2Isabelle.thy ===== *)
theory Spec2Isabelle
  imports TRoundTrip TRestoreTotal ArithWitness DtWitness TestWitness QuoteTrip XecWitness
begin

text \<open>
  A verification library for the shell in \<open>src/src/cmd/ksh26\<close> and the parts of \<open>src/src/lib/libast\<close> that
  it stands on.

  \<^bold>\<open>The program.\<close> The shell reads commands (\<open>sh/lex.c\<close>, \<open>sh/parse.c\<close>) into trees of nodes
  (\<open>include/shnodes.h\<close>), expands words (\<open>sh/macro.c\<close>) and executes the trees (\<open>sh/xec.c\<close>).  \<open>shcomp\<close> stores
  trees in files (\<open>sh/tdump.c\<close>), which the shell loads again (\<open>sh/trestore.c\<close>).  Arithmetic expressions are
  compiled to code for a stack machine (\<open>sh/streval.c\<close>).  Variables, functions and aliases live in
  ordered dictionaries (\<open>libast/cdt\<close>); the scopes of functions are dictionaries whose view paths lead to
  the enclosing scopes (\<open>sh/nvdisc.c\<close>, \<open>sh/name.c\<close>).  \<open>test\<close> and \<open>[[ ]]\<close> share \<open>bltins/test.c\<close>.

  \<^bold>\<open>Theories.\<close> Each definition translates the function it is named after; the map of the manifest gives the
  lines.
    \<^item> \<open>KshPrelude\<close>: machine types, C truth values and strings, \<open>strcmp\<close>, facts on words.
    \<^item> \<open>SfioNum\<close> (\<open>libast/sfio\<close>: \<open>sfputl\<close>, \<open>sfputu\<close>, \<open>sfgetl\<close>, \<open>sfgetu\<close>): the portable integers of a stream.
      \<open>ShNodes\<close>: the nodes of parse trees.  \<open>TDump\<close>, \<open>TRestore\<close>: writer and loader of compiled scripts.
      \<open>TDumpFormat\<close>, \<open>TRoundTrip\<close>, \<open>TRestoreTotal\<close>: the bytes of a tree, reading them back, and the loader on
      arbitrary bytes.
    \<^item> \<open>ArithTables\<close>, \<open>ArithCompile\<close>, \<open>ArithExec\<close> (\<open>sh/streval.c\<close>, \<open>data/streval.c\<close>, \<open>include/streval.h\<close>): the
      tokens, the compiler and the stack machine, every branch.  \<open>ArithVerify\<close>: a type system of code
      segments and that typed code runs without leaving its segment or its stack.  \<open>ArithEmit\<close>,
      \<open>ArithSafe\<close>, \<open>ArithTyped\<close>: the compiler writes typed code, for texts of at most 255 bytes (its counts of
      parentheses and arguments are bytes and its jump targets shorts) without \<open>:==\<close> and without a function next to \<open>?\<close>.
      \<open>ArithRun\<close>: so compiled code runs safely.  \<open>ArithEnds\<close>: the compiler returns for every text.
      \<open>ArithWitness\<close>: a text on integers, and the value of \<open>?:\<close>.
    \<^item> \<open>DtTree\<close> (\<open>cdt/dttree.c\<close>, \<open>dtopen.c\<close>): splay trees and all operations of \<open>Dtoset\<close> and \<open>Dtobag\<close>.
      \<open>DtOrder\<close>, \<open>DtSet\<close>: the contract of an ordered set on sorted lists, in the locale \<open>discipline\<close>, and that
      \<open>dttree\<close> meets it.  \<open>DtStat\<close>: sizes, statistics, balancing, flattening.  \<open>DtView\<close>, \<open>DtOverlay\<close>
      (\<open>cdt/dtview.c\<close>): view paths over a store of dictionaries; a path answers like one dictionary
      in which nearer objects hide farther ones, for every method that meets the locale
      \<open>ordered_method\<close>.
    \<^item> \<open>NvScope\<close> (\<open>sh/nvdisc.c\<close>, \<open>sh/name.c\<close>, \<open>sh/defs.c\<close>): the discipline of the shell's dictionaries, an
      interpretation of \<open>discipline\<close>, and what a name means in nested scopes.  \<open>DtWitness\<close>: two scopes
      with a hidden variable, at which the properties are applied.
    \<^item> \<open>TestOps\<close>, \<open>TestFile\<close>, \<open>TestExpr\<close> (\<open>bltins/test.c\<close>, \<open>data/testops.c\<close>, \<open>sh_locate\<close> of \<open>sh/string.c\<close>): the
      operators, \<open>sh_access\<close> and the expressions of \<open>test\<close>.  \<open>TestSafe\<close>: the command always
      returns a status.  \<open>TestGrammar\<close>: it evaluates the language of expressions.  \<open>TestRules\<close>: the rules
      of POSIX for up to four arguments, ids of the process.  \<open>TestWitness\<close>: a small system.
    \<^item> \<open>ShQuote\<close> (\<open>sh/string.c\<close>: \<open>sh_fmtq\<close>, \<open>sh_checkid\<close>), \<open>ChrEsc\<close> (\<open>libast/string/chresc.c\<close>, \<open>stresc.c\<close>),
      \<open>LexStates\<close> (\<open>data/lexstates.c\<close>) and \<open>EndWord\<close> (\<open>endword\<close> of \<open>sh/lex.c\<close>): how words are quoted and how quotes
      are taken away again.  \<open>QuoteRead\<close>, \<open>QuoteTrip\<close>: what was quoted is read back.
    \<^item> \<open>XecState\<close>, \<open>XecCases\<close>, \<open>XecExec\<close> (\<open>sh/xec.c\<close>: \<open>sh_exec\<close>, \<open>check_exec_optimization\<close>): the fields of \<open>sh\<close>, \<open>sh.st\<close>
      and \<open>job\<close> that \<open>sh_exec\<close> uses, computations that may leave by \<open>siglongjmp\<close>, one definition per case of the switch, and
      the function.  \<open>XecFuel\<close>: it returns, and fuel does not change results.  \<open>XecHoare\<close>, \<open>XecLoops\<close>: assertions, the
      counters of \<open>break\<close> and \<open>continue\<close>, where \<open>set -e\<close> is obeyed.  \<open>XecSwitch\<close>: which blocks \<open>case\<close> runs.
      \<open>XecWitness\<close>: a small shell, and two scripts that leave the counters wrong.
  \<^bold>\<open>How it is modelled.\<close> State is passed explicitly; errors are values of sum or option types.  Machine
  integers are words where they can wrap.  A store of dictionaries is a map from addresses.  What the
  code asks of parts that are not modelled (system calls, the C library, pattern matching, locale,
  floating point) is a parameter: a field of a record or an argument, with the hypotheses of a theorem
  saying what it relies on.

  \<^bold>\<open>Fuel.\<close> The loader \<open>r_tree\<close> has one unit per byte of input and a unit for the end, because every node is
  read from at least one byte.  \<open>test\<close> has \<open>2 * argc + 2\<close> units, because every call of \<open>e3\<close> takes an
  argument.  The stack machine runs with any fuel, and \<open>ArithVerify\<close> bounds what a typed segment needs by its
  length, as all its jumps lead forward.  \<open>expr\<close> has the length of the text plus two units, as every round of its loop and
  every call of itself comes after a character that was read.  Walks over view paths are partial functions in the option
  monad; the theorems show that they return.  \<open>endword\<close> has the length of the word plus two units, one for each character
  and for the end.  The fuel of \<open>sh_exec\<close> bounds the depth of its calls and the rounds of \<open>while\<close>, \<open>until\<close> and \<open>select\<close>, which
  may go on forever; the size of the tree is enough for trees without these.

  \<^bold>\<open>Not modelled.\<close> The lexer but for \<open>endword\<close>, the parser and word expansion; the cases of \<open>sh_exec\<close> that run simple
  commands, forks, pipelines and subshells or define functions, which create processes (the parameter \<open>x_leaf\<close>); attributes, arrays, types and disciplines of variables; input and output, jobs, signals,
  line editing and history, whose substance is in system calls and terminals; the generic libraries for
  regular expressions, option parsing, locales and streams; unordered dictionaries; the vendored build
  tool and the build scripts.
\<close>

section \<open>Compiled scripts\<close>

text \<open>
  C1. A well-formed parse tree dumped by \<open>sh_tdump\<close> onto a stream with room for it is read back by
  \<open>sh_trestore\<close>: the loader consumes exactly the bytes written, whatever follows them, and returns
  the same tree, here-document texts included, up to the two fields it recomputes.
\<close>

theorem shcomp_round_trip:
  fixes t :: "(docpos, 'n option, 'a option) shnode" and L :: "('n, 'a) loader"
  assumes "wf_tree (doc_ok H) t" and "length (enc_tree H t) \<le> oroom f"
  shows "\<exists>r out t' D'. 0 \<le> r \<and> sh_tdump H t f = Some (r, oput out f) \<and>
    sh_trestore L \<lparr>rin = out @ rest, rdocs = D\<rparr> = Inr (t', \<lparr>rin = rest, rdocs = D'\<rparr>) \<and>
    tree_view (docs_text D') t' = tree_view H t"
proof -
  obtain r where r: "0 \<le> r" "sh_tdump H t f = Some (r, oput (enc_tree H t) f)"
    using emits_tree(1) [OF assms(1)] assms(2) by (auto simp: emits_def sh_tdump_def)
  let ?t = "reload_tree L H t D"
  have "sh_trestore L \<lparr>rin = enc_tree H t @ rest, rdocs = D\<rparr> =
      Inr (fst ?t, \<lparr>rin = rest, rdocs = snd ?t\<rparr>)"
    using reads_tree(1) [OF assms(1), of "Suc (length (enc_tree H t @ rest))" L D]
    by (simp add: reads_def sh_trestore_def)
  with r tree_view_reload [OF assms(1), of L D] show ?thesis by blast
qed

text \<open>A here-document, an \<open>if\<close>, a process substitution and a compound assignment.\<close>

definition sample_text :: "byte list" where
  "sample_text = [104, 105, 10]"

definition sample_tree :: "(docpos, unit option, unit option) shnode" where
  "sample_tree =
     IfNod 4
       (ComNod 0 (IoNod 0x100 (IoStr (Some [69])) (Some ([69, 79, 70], (0, 3))) None IoNil)
          (ComDp 1 [[99, 97, 116]]) ArgNil None 7)
       (ComNod 16 IoNil
          (ComAp (ArgNod 8 [] (ChnTree (ForkNod 10 IoNil (ComNod 0 IoNil ComNone ArgNil None 8) 8)) ArgNil))
          (ArgNod 0 [] (ChnFor 0 [120] (LstNod 3 NullT NullT)) ArgNil) None 8)
       NullT"

lemma shcomp_round_trip_witness:
  "\<exists>r out t' D'. 0 \<le> r \<and>
    sh_tdump sample_text sample_tree \<lparr>obytes = [], oroom = 400\<rparr> =
      Some (r, oput out \<lparr>obytes = [], oroom = 400\<rparr>) \<and>
    sh_trestore \<lparr>nv_search_fun = \<lambda>_. Some (), nv_open_var = \<lambda>_. None, arithcomp = \<lambda>_. ()\<rparr>
      \<lparr>rin = out @ [1, 2], rdocs = None\<rparr> = Inr (t', \<lparr>rin = [1, 2], rdocs = D'\<rparr>) \<and>
    tree_view (docs_text D') t' = tree_view sample_text sample_tree"
proof (rule shcomp_round_trip)
  show "wf_tree (doc_ok sample_text) sample_tree"
    by (simp add: sample_tree_def sample_text_def doc_ok_def tag_in_def tag_defs wf_str_def wf_name_def
        COMSCAN_def IOVNM_def io_is_tree_def IOPROCSUB_def IOLSEEK_def ARG_EXP_def arg_plain_flags_def
        ARG_ARRAY_def ARG_QUOTED_def ARG_MESSAGE_def ARG_APPEND_def word_sle_eq)
  have "length (enc_tree sample_text sample_tree) \<le> 400"
    by code_simp
  then show "length (enc_tree sample_text sample_tree) \<le> oroom \<lparr>obytes = [], oroom = 400\<rparr>"
    by simp
qed

text \<open>
  C7. The loader returns on every input: it never runs out of fuel, and what it leaves is no longer
  than what it was given.
\<close>

theorem sh_trestore_total:
  "case sh_trestore L s of Inl e \<Rightarrow> e = Undef | Inr (t, s') \<Rightarrow> length (rin s') \<le> length (rin s)"
  by (rule sh_trestore_safe)

text \<open>
  C16. A stream of compiled commands is read in one way only: when two streams that start with a
  dumped well-formed tree are equal, the trees are the same (up to where their here-documents are
  stored and the recomputed fields) and so is what follows them.
\<close>

theorem dump_unambiguous:
  fixes t u :: "(docpos, 'n option, 'a option) shnode"
  assumes "wf_tree (doc_ok H) t" "wf_tree (doc_ok K) u"
    and "sh_tdump H t f = Some (r, oput bs f)" "sh_tdump K u f = Some (q, oput cs f)"
    and "length (enc_tree H t) \<le> oroom f" "length (enc_tree K u) \<le> oroom f"
    and "bs @ xs = cs @ ys"
  shows "tree_view H t = tree_view K u \<and> xs = ys"
proof -
  obtain L :: "('n, 'a) loader" where True by simp
  have "bs = enc_tree H t" "cs = enc_tree K u"
    using emits_unique [OF emits_tree(1) [OF assms(1)]] emits_unique [OF emits_tree(1) [OF assms(2)]]
      assms(3-6) by (simp_all add: sh_tdump_def)
  moreover obtain n where n: "length (enc_tree H t) \<le> n" "length (enc_tree K u) \<le> n"
    using nat_le_linear by blast
  moreover have "r_tree L n \<lparr>rin = enc_tree H t @ xs, rdocs = None\<rparr> =
      Inr (fst (reload_tree L H t None), \<lparr>rin = xs, rdocs = snd (reload_tree L H t None)\<rparr>)"
    using reads_tree(1) [OF assms(1) n(1)] by (simp add: reads_def)
  moreover have "r_tree L n \<lparr>rin = enc_tree K u @ ys, rdocs = None\<rparr> =
      Inr (fst (reload_tree L K u None), \<lparr>rin = ys, rdocs = snd (reload_tree L K u None)\<rparr>)"
    using reads_tree(1) [OF assms(2) n(2)] by (simp add: reads_def)
  ultimately show ?thesis
    using tree_view_reload [OF assms(1), of L None] tree_view_reload [OF assms(2), of L None] assms(7)
    by simp
qed

definition small_tree :: "(docpos, unit option, unit option) shnode" where
  "small_tree = LstNod 3 NullT NullT"

lemma dump_unambiguous_witness:
  "tree_view [] small_tree = tree_view [1] small_tree \<and> [7 :: byte] = [7]"
proof -
  let ?f = "\<lparr>obytes = [], oroom = 20\<rparr>"
  have w: "wf_tree (doc_ok H) small_tree" for H
    by (simp add: small_tree_def tag_in_def tag_defs word_sle_eq)
  have d: "sh_tdump [] small_tree ?f = Some (1, oput [3, 64, 64] ?f)"
    "sh_tdump [1] small_tree ?f = Some (1, oput [3, 64, 64] ?f)"
    by code_simp+
  have l: "length (enc_tree [] small_tree) \<le> oroom ?f" "length (enc_tree [1] small_tree) \<le> oroom ?f"
    by code_simp+
  show ?thesis
    using dump_unambiguous [OF w w d l, of "[7]" "[7]"] by simp
qed

text \<open>
  C17. The portable integers: both codes have between one and ten bytes (the buffer of the writers
  has sixteen), are read back exactly and leave the bytes after them.
\<close>

theorem portable_integers:
  "sfgetl (sfputl_bytes v @ s) = (v, s) \<and> sfgetu (sfputu_bytes v @ s) = (v, s) \<and>
   length (sfputl_bytes v) \<in> {1..10} \<and> length (sfputu_bytes v) \<in> {1..10}"
  using putl.dec_enc putu.dec_enc sfputl_bytes_length [of v] sfputu_bytes_length [of v]
  by (simp add: Suc_le_eq)



end
